(* ===== verification/Yuv_Prelude.thy ===== *)
theory Yuv_Prelude
  imports Main "HOL-Library.Word" "HOL-Library.AList" "HOL-Library.Multiset"
begin

text \<open>
  Shared vocabulary of the development: machine integers and byte strings, Rust's
  \<open>Result\<close> as a sum type, computations that mutate a state and may fail half way,
  little and big endian integers, byte readers, and the two standard-library maps the
  sources use (\<open>BTreeMap\<close> as a sorted association list, \<open>HashMap\<close>/\<open>HashSet\<close> as
  association lists and lists whose order carries no meaning).
\<close>

named_theorems result_simps \<open>case analysis of fallible computations\<close>
named_theorems codec_simps \<open>one step of a byte encoder followed by its decoder\<close>
named_theorems keeps_intros \<open>rules that propagate an invariant through a stateful computation\<close>

section \<open>Machine integers and bytes\<close>

type_synonym byte = "8 word"
type_synonym bytes = "byte list"
type_synonym u8 = "8 word"
type_synonym u16 = "16 word"
type_synonym u32 = "32 word"
type_synonym u64 = "64 word"
type_synonym usize = "64 word"
type_synonym u128 = "128 word"

text \<open>\<open>Iterator::sum::<u128>()\<close> and \<open>+=\<close> of a release build: addition modulo \<open>2 ^ 128\<close>.\<close>

definition sum_u128 :: "u128 list \<Rightarrow> u128" where
  "sum_u128 xs = foldl (+) 0 xs"

lemma foldl_plus_sum_list: "foldl (+) (a::'a::monoid_add) xs = a + sum_list xs"
  by (induction xs arbitrary: a) (simp_all add: add.assoc)

lemma sum_u128_sum_list: "sum_u128 xs = sum_list xs"
  by (simp add: sum_u128_def foldl_plus_sum_list)

lemma unat_sum_list_mod:
  "unat (sum_list (xs :: 'a::len word list)) = sum_list (map unat xs) mod 2 ^ LENGTH('a)"
proof (induction xs)
  case Nil
  then show ?case by simp
next
  case (Cons x xs)
  then show ?case by (simp add: unat_word_ariths mod_add_right_eq)
qed

lemma unat_sum_list_exact:
  fixes xs :: "'a::len word list"
  assumes "sum_list (map unat xs) < 2 ^ LENGTH('a)"
  shows "unat (sum_list xs) = sum_list (map unat xs)"
  using assms by (simp add: unat_sum_list_mod)

section \<open>Fallible computations\<close>

text \<open>Rust's \<open>Result<T, E>\<close> is \<open>'e + 'a\<close>, with \<open>Inl\<close> the error; \<open>bindE\<close> is the \<open>?\<close> operator.\<close>

definition bindE :: "'e + 'a \<Rightarrow> ('a \<Rightarrow> 'e + 'b) \<Rightarrow> 'e + 'b" where
  "bindE r f = (case r of Inl e \<Rightarrow> Inl e | Inr a \<Rightarrow> f a)"

definition map_err :: "('e \<Rightarrow> 'd) \<Rightarrow> 'e + 'a \<Rightarrow> 'd + 'a" where
  "map_err g r = (case r of Inl e \<Rightarrow> Inl (g e) | Inr a \<Rightarrow> Inr a)"

definition ok_or :: "'e \<Rightarrow> 'a option \<Rightarrow> 'e + 'a" where
  "ok_or e r = (case r of None \<Rightarrow> Inl e | Some a \<Rightarrow> Inr a)"

definition failIf :: "bool \<Rightarrow> 'e \<Rightarrow> 'e + unit" where
  "failIf b e = (if b then Inl e else Inr ())"

definition is_ok :: "'e + 'a \<Rightarrow> bool" where
  "is_ok r = (case r of Inl _ \<Rightarrow> False | Inr _ \<Rightarrow> True)"

fun mapE :: "('a \<Rightarrow> 'e + 'b) \<Rightarrow> 'a list \<Rightarrow> 'e + 'b list" where
  "mapE f [] = Inr []"
| "mapE f (x # xs) = bindE (f x) (\<lambda>y. bindE (mapE f xs) (\<lambda>ys. Inr (y # ys)))"

fun forE :: "('a \<Rightarrow> 'e + unit) \<Rightarrow> 'a list \<Rightarrow> 'e + unit" where
  "forE f [] = Inr ()"
| "forE f (x # xs) = bindE (f x) (\<lambda>_. forE f xs)"

lemma bindE_simps [simp]: "bindE (Inl e) f = Inl e" "bindE (Inr a) f = f a"
  by (simp_all add: bindE_def)

lemma bindE_eq_Inr_iff [result_simps]: "bindE r f = Inr b \<longleftrightarrow> (\<exists>a. r = Inr a \<and> f a = Inr b)"
  by (cases r) simp_all

lemma bindE_eq_Inl_iff [result_simps]:
  "bindE r f = Inl e \<longleftrightarrow> r = Inl e \<or> (\<exists>a. r = Inr a \<and> f a = Inl e)"
  by (cases r) simp_all

lemma map_err_simps [simp]: "map_err g (Inl e) = Inl (g e)" "map_err g (Inr a) = Inr a"
  by (simp_all add: map_err_def)

lemma map_err_eq_Inr_iff [result_simps]: "map_err g r = Inr a \<longleftrightarrow> r = Inr a"
  by (cases r) simp_all

lemma map_err_eq_Inl_iff [result_simps]: "map_err g r = Inl d \<longleftrightarrow> (\<exists>e. r = Inl e \<and> d = g e)"
  by (cases r) auto

lemma ok_or_simps [simp]: "ok_or e None = Inl e" "ok_or e (Some a) = Inr a"
  by (simp_all add: ok_or_def)

lemma ok_or_eq_Inr_iff [result_simps]: "ok_or e r = Inr a \<longleftrightarrow> r = Some a"
  by (cases r) simp_all

lemma ok_or_eq_Inl_iff [result_simps]: "ok_or e r = Inl d \<longleftrightarrow> r = None \<and> d = e"
  by (cases r) auto

lemma failIf_eq_Inr_iff [result_simps]: "failIf b e = Inr u \<longleftrightarrow> \<not> b"
  by (simp add: failIf_def)

lemma failIf_eq_Inl_iff [result_simps]: "failIf b e = Inl d \<longleftrightarrow> b \<and> d = e"
  by (auto simp: failIf_def)

lemma failIf_simps [simp]: "failIf True e = Inl e" "failIf False e = Inr ()"
  by (simp_all add: failIf_def)

lemma is_ok_simps [simp]: "is_ok (Inl e) \<longleftrightarrow> False" "is_ok (Inr a) \<longleftrightarrow> True"
  by (simp_all add: is_ok_def)

lemma is_ok_iff: "is_ok r \<longleftrightarrow> (\<exists>a. r = Inr a)"
  by (cases r) auto

lemma forE_eq_Inr_iff [result_simps]: "forE f xs = Inr u \<longleftrightarrow> (\<forall>x \<in> set xs. f x = Inr ())"
  by (induction xs) (auto simp: result_simps)

lemma forE_eq_Inl_iff:
  "forE f xs = Inl e \<longleftrightarrow>
     (\<exists>ys x zs. xs = ys @ x # zs \<and> (\<forall>y \<in> set ys. f y = Inr ()) \<and> f x = Inl e)"
proof (induction xs)
  case Nil
  then show ?case by simp
next
  case (Cons a xs)
  show ?case
  proof
    assume h: "forE f (a # xs) = Inl e"
    show "\<exists>ys x zs. a # xs = ys @ x # zs \<and> (\<forall>y \<in> set ys. f y = Inr ()) \<and> f x = Inl e"
    proof (cases "f a")
      case (Inl d)
      with h show ?thesis by (intro exI [of _ "[]"]) auto
    next
      case (Inr u)
      with h Cons.IH obtain ys x zs where "xs = ys @ x # zs"
        and "\<forall>y \<in> set ys. f y = Inr ()" and "f x = Inl e"
        by auto
      with Inr show ?thesis
        by (intro exI [of _ "a # ys"] exI [of _ x] exI [of _ zs]) simp
    qed
  next
    assume "\<exists>ys x zs. a # xs = ys @ x # zs \<and> (\<forall>y \<in> set ys. f y = Inr ()) \<and> f x = Inl e"
    then obtain ys x zs where eq: "a # xs = ys @ x # zs"
      and ok: "\<forall>y \<in> set ys. f y = Inr ()" and bad: "f x = Inl e"
      by blast
    show "forE f (a # xs) = Inl e"
    proof (cases ys)
      case Nil
      with eq bad show ?thesis by simp
    next
      case (Cons y ys')
      with eq ok bad have "f a = Inr ()" and "forE f xs = Inl e"
        using Cons.IH by auto
      then show ?thesis by simp
    qed
  qed
qed

lemma mapE_eq_Inr_iff [result_simps]:
  "mapE f xs = Inr ys \<longleftrightarrow> list_all2 (\<lambda>x y. f x = Inr y) xs ys"
  by (induction xs arbitrary: ys) (auto simp: result_simps list_all2_Cons1)

section \<open>Computations on a mutable state\<close>

text \<open>
  A method of a service mutates its state and may return early with an error; what it
  wrote before the error stays written. It is a function from the state to the outcome and
  the new state.
\<close>

type_synonym ('s, 'e, 'a) run = "'s \<Rightarrow> ('e + 'a) \<times> 's"

definition retR :: "'a \<Rightarrow> ('s, 'e, 'a) run" where
  "retR a s = (Inr a, s)"

definition failR :: "'e \<Rightarrow> ('s, 'e, 'a) run" where
  "failR e s = (Inl e, s)"

definition bindR :: "('s, 'e, 'a) run \<Rightarrow> ('a \<Rightarrow> ('s, 'e, 'b) run) \<Rightarrow> ('s, 'e, 'b) run" where
  "bindR m f s = (case m s of (Inl e, s') \<Rightarrow> (Inl e, s') | (Inr a, s') \<Rightarrow> f a s')"

definition getR :: "('s \<Rightarrow> 'a) \<Rightarrow> ('s, 'e, 'a) run" where
  "getR g s = (Inr (g s), s)"

definition modR :: "('s \<Rightarrow> 's) \<Rightarrow> ('s, 'e, unit) run" where
  "modR g s = (Inr (), g s)"

definition liftR :: "'e + 'a \<Rightarrow> ('s, 'e, 'a) run" where
  "liftR r s = (r, s)"

fun forR :: "('x \<Rightarrow> ('s, 'e, unit) run) \<Rightarrow> 'x list \<Rightarrow> ('s, 'e, unit) run" where
  "forR f [] = retR ()"
| "forR f (x # xs) = bindR (f x) (\<lambda>_. forR f xs)"

definition thenR :: "('s, 'e, 'a) run \<Rightarrow> ('s, 'e, 'b) run \<Rightarrow> ('s, 'e, 'b) run" where
  "thenR m n = bindR m (\<lambda>_. n)"

lemmas run_defs = retR_def failR_def getR_def modR_def liftR_def thenR_def bindR_def

text \<open>\<open>keepsR P m\<close>: \<open>m\<close> keeps the invariant \<open>P\<close> on every path, error paths included.\<close>

definition keepsR :: "('s \<Rightarrow> bool) \<Rightarrow> ('s, 'e, 'a) run \<Rightarrow> bool" where
  "keepsR P m \<longleftrightarrow> (\<forall>s. P s \<longrightarrow> P (snd (m s)))"

lemma keepsR_I: "(\<And>s. P s \<Longrightarrow> P (snd (m s))) \<Longrightarrow> keepsR P m"
  by (simp add: keepsR_def)

lemma keepsR_D: "keepsR P m \<Longrightarrow> P s \<Longrightarrow> P (snd (m s))"
  by (simp add: keepsR_def)

lemma keepsR_ret [keeps_intros]: "keepsR P (retR a)"
  by (simp add: keepsR_def retR_def)

lemma keepsR_fail [keeps_intros]: "keepsR P (failR e)"
  by (simp add: keepsR_def failR_def)

lemma keepsR_get [keeps_intros]: "keepsR P (getR g)"
  by (simp add: keepsR_def getR_def)

lemma keepsR_lift [keeps_intros]: "keepsR P (liftR r)"
  by (simp add: keepsR_def liftR_def)

lemma keepsR_mod: "(\<And>s. P s \<Longrightarrow> P (g s)) \<Longrightarrow> keepsR P (modR g)"
  by (simp add: keepsR_def modR_def)

lemma keepsR_bind [keeps_intros]:
  assumes "keepsR P m" and "\<And>a. keepsR P (f a)"
  shows "keepsR P (bindR m f)"
  using assms by (fastforce simp: keepsR_def bindR_def split: prod.splits sum.splits)

lemma keepsR_then [keeps_intros]: "keepsR P m \<Longrightarrow> keepsR P n \<Longrightarrow> keepsR P (thenR m n)"
  by (simp add: thenR_def keepsR_bind)

lemma keepsR_for [keeps_intros]: "(\<And>x. keepsR P (f x)) \<Longrightarrow> keepsR P (forR f xs)"
  by (induction xs) (simp_all add: keepsR_ret keepsR_bind)

lemma keepsR_if [keeps_intros]:
  "(b \<Longrightarrow> keepsR P m) \<Longrightarrow> (\<not> b \<Longrightarrow> keepsR P n) \<Longrightarrow> keepsR P (if b then m else n)"
  by simp

lemma keepsR_case_option [keeps_intros]:
  "keepsR P m \<Longrightarrow> (\<And>a. keepsR P (f a)) \<Longrightarrow>
     keepsR P (case r of None \<Rightarrow> m | Some a \<Rightarrow> f a)"
  by (cases r) simp_all

lemma bindR_ret_iff [result_simps]:
  "bindR m f s = (Inr b, t) \<longleftrightarrow> (\<exists>a u. m s = (Inr a, u) \<and> f a u = (Inr b, t))"
  by (auto simp: bindR_def split: prod.splits sum.splits)

lemma forR_append: "forR f (xs @ ys) = thenR (forR f xs) (forR f ys)"
  by (induction xs)
     (auto simp: run_defs fun_eq_iff split: prod.splits sum.splits)

section \<open>Integers as bytes\<close>

text \<open>\<open>n\<close> little endian bytes of a natural number, and back.\<close>

primrec nat_to_le :: "nat \<Rightarrow> nat \<Rightarrow> bytes" where
  "nat_to_le 0 k = []"
| "nat_to_le (Suc n) k = of_nat k # nat_to_le n (k div 256)"

primrec le_to_nat :: "bytes \<Rightarrow> nat" where
  "le_to_nat [] = 0"
| "le_to_nat (b # bs) = unat b + 256 * le_to_nat bs"

definition to_le_bytes :: "nat \<Rightarrow> 'a::len word \<Rightarrow> bytes" where
  "to_le_bytes n w = nat_to_le n (unat w)"

definition from_le_bytes :: "bytes \<Rightarrow> 'a::len word" where
  "from_le_bytes bs = of_nat (le_to_nat bs)"

definition to_be_bytes :: "nat \<Rightarrow> 'a::len word \<Rightarrow> bytes" where
  "to_be_bytes n w = rev (to_le_bytes n w)"

definition from_be_bytes :: "bytes \<Rightarrow> 'a::len word" where
  "from_be_bytes bs = from_le_bytes (rev bs)"

lemma length_nat_to_le [simp]: "length (nat_to_le n k) = n"
  by (induction n arbitrary: k) simp_all

lemma length_to_bytes [simp]: "length (to_le_bytes n w) = n" "length (to_be_bytes n w) = n"
  by (simp_all add: to_le_bytes_def to_be_bytes_def)

lemma unat_bound: "unat (w :: 'a::len word) < 2 ^ LENGTH('a)"
  by (rule unsigned_less)

lemma unat_byte_bound: "unat (b :: byte) < 256"
  using unat_bound [of b] by simp

lemma unat_byte_of_nat: "unat (of_nat k :: byte) = k mod 256"
  by (simp add: unat_of_nat)

lemma le_to_nat_to_le: "le_to_nat (nat_to_le n k) = k mod 256 ^ n"
proof (induction n arbitrary: k)
  case 0
  then show ?case by simp
next
  case (Suc n)
  have "k mod (256 * 256 ^ n) = 256 * (k div 256 mod 256 ^ n) + k mod 256"
    by (rule mod_mult2_eq)
  then show ?case
    by (simp add: Suc.IH unat_byte_of_nat)
qed

lemma le_to_nat_bound: "le_to_nat bs < 256 ^ length bs"
proof (induction bs)
  case Nil
  then show ?case by simp
next
  case (Cons b bs)
  have "unat b < 256" by (rule unat_byte_bound)
  moreover have "Suc (le_to_nat bs) \<le> 256 ^ length bs" using Cons.IH by simp
  ultimately show ?case by simp
qed

lemma nat_to_le_to_nat: "nat_to_le (length bs) (le_to_nat bs) = bs"
proof (induction bs)
  case Nil
  then show ?case by simp
next
  case (Cons b bs)
  have b: "unat b < 256" by (rule unat_byte_bound)
  have "(unat b + 256 * le_to_nat bs) div 256 = le_to_nat bs"
    using b by simp
  moreover have "unat (of_nat (unat b + 256 * le_to_nat bs) :: byte) = unat b"
    unfolding unat_byte_of_nat using b by simp
  then have "(of_nat (unat b + 256 * le_to_nat bs) :: byte) = b"
    by (rule word_unat_eq_iff [THEN iffD2])
  ultimately show ?case using Cons.IH by simp
qed

lemma from_to_le_bytes:
  assumes "LENGTH('a) = 8 * n"
  shows "from_le_bytes (to_le_bytes n (w :: 'a::len word)) = w"
proof -
  have "(256::nat) ^ n = 2 ^ LENGTH('a)"
    using power_mult [of "2::nat" 8 n] assms by simp
  then have "unat w mod 256 ^ n = unat w"
    using unat_bound [of w] by simp
  then show ?thesis
    by (simp add: from_le_bytes_def to_le_bytes_def le_to_nat_to_le)
qed

lemma to_from_le_bytes:
  assumes "LENGTH('a) = 8 * length bs"
  shows "to_le_bytes (length bs) (from_le_bytes bs :: 'a::len word) = bs"
proof -
  have "(256::nat) ^ length bs = 2 ^ LENGTH('a)"
    using power_mult [of "2::nat" 8 "length bs"] assms by simp
  then have "unat (of_nat (le_to_nat bs) :: 'a word) = le_to_nat bs"
    using le_to_nat_bound [of bs] by (simp add: unat_of_nat)
  then show ?thesis
    by (simp add: from_le_bytes_def to_le_bytes_def nat_to_le_to_nat)
qed

lemma from_to_be_bytes:
  "LENGTH('a) = 8 * n \<Longrightarrow> from_be_bytes (to_be_bytes n (w :: 'a::len word)) = w"
  by (simp add: from_be_bytes_def to_be_bytes_def from_to_le_bytes)

lemma to_from_be_bytes:
  "LENGTH('a) = 8 * length bs \<Longrightarrow>
     to_be_bytes (length bs) (from_be_bytes bs :: 'a::len word) = bs"
  using to_from_le_bytes [where ?'a = 'a and bs = "rev bs"]
  by (simp add: from_be_bytes_def to_be_bytes_def)

lemma from_to_le_u16 [codec_simps]: "from_le_bytes (to_le_bytes 2 (w :: u16)) = w"
  by (rule from_to_le_bytes) simp

lemma from_to_le_u32 [codec_simps]: "from_le_bytes (to_le_bytes 4 (w :: u32)) = w"
  by (rule from_to_le_bytes) simp

lemma from_to_le_u64 [codec_simps]: "from_le_bytes (to_le_bytes 8 (w :: u64)) = w"
  by (rule from_to_le_bytes) simp

lemma from_to_le_u128 [codec_simps]: "from_le_bytes (to_le_bytes 16 (w :: u128)) = w"
  by (rule from_to_le_bytes) simp

lemma from_to_be_u32 [codec_simps]: "from_be_bytes (to_be_bytes 4 (w :: u32)) = w"
  by (rule from_to_be_bytes) simp

lemma from_to_be_u128 [codec_simps]: "from_be_bytes (to_be_bytes 16 (w :: u128)) = w"
  by (rule from_to_be_bytes) simp

lemma to_be_bytes_inj:
  assumes "LENGTH('a) = 8 * n" and "to_be_bytes n (v :: 'a::len word) = to_be_bytes n w"
  shows "v = w"
  using assms by (metis from_to_be_bytes)

section \<open>Lists used as sets and maps\<close>

text \<open>\<open>HashSet::insert\<close> and \<open>HashSet::remove\<close> on a list without duplicates.\<close>

definition hs_insert :: "'a \<Rightarrow> 'a list \<Rightarrow> 'a list" where
  "hs_insert x xs = (if x \<in> set xs then xs else xs @ [x])"

definition hs_remove :: "'a \<Rightarrow> 'a list \<Rightarrow> 'a list" where
  "hs_remove x xs = filter (\<lambda>y. y \<noteq> x) xs"

definition hs_extend :: "'a list \<Rightarrow> 'a list \<Rightarrow> 'a list" where
  "hs_extend xs ys = foldl (\<lambda>acc y. hs_insert y acc) xs ys"

lemma set_hs_insert [simp]: "set (hs_insert x xs) = insert x (set xs)"
  by (auto simp: hs_insert_def)

lemma set_hs_remove [simp]: "set (hs_remove x xs) = set xs - {x}"
  by (auto simp: hs_remove_def)

lemma hs_extend_simps [simp]:
  "hs_extend xs [] = xs" "hs_extend xs (y # ys) = hs_extend (hs_insert y xs) ys"
  by (simp_all add: hs_extend_def)

lemma set_hs_extend [simp]: "set (hs_extend xs ys) = set xs \<union> set ys"
  by (induction ys arbitrary: xs) auto

lemma distinct_hs_insert: "distinct xs \<Longrightarrow> distinct (hs_insert x xs)"
  by (simp add: hs_insert_def)

lemma distinct_hs_remove: "distinct xs \<Longrightarrow> distinct (hs_remove x xs)"
  by (simp add: hs_remove_def)

lemma distinct_hs_extend: "distinct xs \<Longrightarrow> distinct (hs_extend xs ys)"
  by (induction ys arbitrary: xs) (simp_all add: distinct_hs_insert)

lemma length_hs_remove_le: "length (hs_remove x xs) \<le> length xs"
  by (simp add: hs_remove_def)

section \<open>Sorting by a comparison\<close>

text \<open>\<open>slice::sort\<close> with the comparison of the item type: stable insertion sort.\<close>

fun insert_by :: "('a \<Rightarrow> 'a \<Rightarrow> bool) \<Rightarrow> 'a \<Rightarrow> 'a list \<Rightarrow> 'a list" where
  "insert_by le x [] = [x]"
| "insert_by le x (y # ys) = (if le x y then x # y # ys else y # insert_by le x ys)"

definition sort_by :: "('a \<Rightarrow> 'a \<Rightarrow> bool) \<Rightarrow> 'a list \<Rightarrow> 'a list" where
  "sort_by le xs = foldr (insert_by le) xs []"

lemma mset_insert_by: "mset (insert_by le x ys) = add_mset x (mset ys)"
  by (induction ys) auto

lemma set_insert_by: "set (insert_by le x ys) = insert x (set ys)"
  by (induction ys) auto

lemma mset_sort_by: "mset (sort_by le xs) = mset xs"
  by (induction xs) (simp_all add: sort_by_def mset_insert_by)

lemma sort_by_Nil [simp]: "sort_by le [] = []"
  by (simp add: sort_by_def)

lemma sort_by_eq_Nil_iff [simp]: "sort_by le xs = [] \<longleftrightarrow> xs = []"
  using mset_zero_iff [of "sort_by le xs"] by (simp add: mset_sort_by)

lemma sorted_insert_by:
  assumes total: "\<And>a b. le a b \<or> le b a" and trans: "\<And>a b c. le a b \<Longrightarrow> le b c \<Longrightarrow> le a c"
  shows "sorted_wrt le ys \<Longrightarrow> sorted_wrt le (insert_by le x ys)"
proof (induction ys)
  case Nil
  then show ?case by simp
next
  case (Cons y ys)
  have "le y x" if "\<not> le x y" using total [of x y] that by simp
  moreover have "\<forall>z\<in>set ys. le x z" if "le x y"
    using Cons.prems trans [OF that] by simp
  ultimately show ?case using Cons.IH Cons.prems by (simp add: set_insert_by)
qed

lemma sorted_sort_by:
  assumes "\<And>a b. le a b \<or> le b a" and "\<And>a b c. le a b \<Longrightarrow> le b c \<Longrightarrow> le a c"
  shows "sorted_wrt le (sort_by le xs)"
proof (induction xs)
  case (Cons x xs)
  show ?case using sorted_insert_by [of le, OF assms Cons.IH] by (simp add: sort_by_def)
qed simp

lemma sorted_wrt_mset_unique:
  assumes antisym: "\<And>a b. le a b \<Longrightarrow> le b a \<Longrightarrow> a = b"
  shows "sorted_wrt le xs \<Longrightarrow> sorted_wrt le ys \<Longrightarrow> mset xs = mset ys \<Longrightarrow> xs = ys"
proof (induction xs arbitrary: ys)
  case Nil
  then show ?case by simp
next
  case (Cons x xs)
  then obtain y ys' where ys: "ys = y # ys'" by (cases ys) auto
  have "x = y"
  proof (rule ccontr)
    assume "x \<noteq> y"
    have "x \<in> set ys" and "y \<in> set (x # xs)"
      using mset_eq_setD [OF Cons.prems(3)] ys by auto
    with \<open>x \<noteq> y\<close> ys Cons.prems(1,2) have "le x y" and "le y x" by simp_all
    with antisym [of x y] \<open>x \<noteq> y\<close> show False by simp
  qed
  then show ?case using Cons.IH [of ys'] Cons.prems ys by simp
qed

lemma sort_by_cong:
  assumes "\<And>a b. le a b \<or> le b a" and "\<And>a b c. le a b \<Longrightarrow> le b c \<Longrightarrow> le a c"
    and "\<And>a b. le a b \<Longrightarrow> le b a \<Longrightarrow> a = b" and "mset xs = mset ys"
  shows "sort_by le xs = sort_by le ys"
proof (rule sorted_wrt_mset_unique [of le])
  show "mset (sort_by le xs) = mset (sort_by le ys)" using assms(4) by (simp add: mset_sort_by)
  show "sorted_wrt le (sort_by le zs)" for zs
    using assms(1,2) by (rule sorted_sort_by)
  then show "sorted_wrt le (sort_by le ys)" .
qed (fact assms(3))

section \<open>Ordered maps\<close>

text \<open>
  A \<open>BTreeMap\<close> is the list of its entries in key order, which is the order in which
  \<open>iter\<close>, \<open>keys\<close> and \<open>values\<close> go through it.
\<close>

type_synonym ('k, 'v) btree_map = "('k \<times> 'v) list"

definition bt_wf :: "('k::linorder, 'v) btree_map \<Rightarrow> bool" where
  "bt_wf m \<longleftrightarrow> sorted_wrt (<) (map fst m)"

fun bt_insert :: "'k::linorder \<Rightarrow> 'v \<Rightarrow> ('k, 'v) btree_map \<Rightarrow> ('k, 'v) btree_map" where
  "bt_insert k v [] = [(k, v)]"
| "bt_insert k v ((j, w) # m) =
     (if k < j then (k, v) # (j, w) # m
      else if k = j then (k, v) # m
      else (j, w) # bt_insert k v m)"

lemma bt_wf_Nil [simp]: "bt_wf []"
  by (simp add: bt_wf_def)

lemma bt_wf_Cons: "bt_wf (e # m) \<longleftrightarrow> (\<forall>j \<in> fst ` set m. fst e < j) \<and> bt_wf m"
  by (auto simp: bt_wf_def)

lemma fst_set_bt_insert: "fst ` set (bt_insert k v m) = insert k (fst ` set m)"
  by (induction k v m rule: bt_insert.induct) (simp_all add: insert_commute insert_absorb)

lemma bt_wf_insert: "bt_wf m \<Longrightarrow> bt_wf (bt_insert k v m)"
  by (induction k v m rule: bt_insert.induct)
     (auto simp: bt_wf_Cons fst_set_bt_insert simp del: image_insert)

lemma map_of_bt_insert: "map_of (bt_insert k v m) = (map_of m)(k \<mapsto> v)"
  by (induction m) auto

lemma bt_wf_distinct: "bt_wf m \<Longrightarrow> distinct (map fst m)"
  by (simp add: bt_wf_def strict_sorted_iff)

lemma bt_insert_last:
  "(\<forall>j \<in> fst ` set m. j < k) \<Longrightarrow> bt_insert k v m = m @ [(k, v)]"
  by (induction m) auto

lemma foldl_bt_insert_append:
  "bt_wf (m @ es) \<Longrightarrow> foldl (\<lambda>acc (k, v). bt_insert k v acc) m es = m @ es"
proof (induction es arbitrary: m)
  case Nil
  then show ?case by simp
next
  case (Cons e es)
  obtain k v where e: "e = (k, v)" by (cases e)
  from Cons.prems have "\<forall>j \<in> fst ` set m. j < k"
    by (auto simp: bt_wf_def e sorted_wrt_append)
  then have "bt_insert k v m = m @ [(k, v)]" by (rule bt_insert_last)
  with Cons.IH [of "m @ [(k, v)]"] Cons.prems show ?case
    by (simp add: e)
qed

lemma foldl_bt_insert: "bt_wf es \<Longrightarrow> foldl (\<lambda>acc (k, v). bt_insert k v acc) [] es = es"
  using foldl_bt_insert_append [of "[]" es] by simp

section \<open>Map interface\<close>

text \<open>
  What the services rely on when they read and write keyed state. The association-list
  operations that model \<open>HashMap\<close> provide it below; the stores of the node provide it in
  theory Services.
\<close>

locale keyed_store =
  fixes get :: "'s \<Rightarrow> 'k \<Rightarrow> 'v option"
    and put :: "'k \<Rightarrow> 'v \<Rightarrow> 's \<Rightarrow> 's"
    and del :: "'k \<Rightarrow> 's \<Rightarrow> 's"
  assumes get_put: "get (put k v s) j = (if j = k then Some v else get s j)"
    and get_del: "get (del k s) j = (if j = k then None else get s j)"
begin

lemma get_put_same: "get (put k v s) k = Some v"
  by (simp add: get_put)

lemma get_del_same: "get (del k s) k = None"
  by (simp add: get_del)

lemma get_puts:
  "get (foldl (\<lambda>acc v. put (key v) v acc) s vs) j =
     (case rev (filter (\<lambda>v. key v = j) vs) of [] \<Rightarrow> get s j | v # _ \<Rightarrow> Some v)"
proof (induction vs rule: rev_induct)
  case Nil
  then show ?case by simp
next
  case (snoc v vs)
  then show ?case by (auto simp: get_put)
qed

lemma get_puts_member:
  assumes "v \<in> set vs" and "inj_on key (set vs)"
  shows "get (foldl (\<lambda>acc v. put (key v) v acc) s vs) (key v) = Some v"
proof -
  have "\<forall>w \<in> set (rev (filter (\<lambda>w. key w = key v) vs)). w = v"
    using assms by (auto dest: inj_onD)
  moreover have "rev (filter (\<lambda>w. key w = key v) vs) \<noteq> []"
    using assms(1) by (auto simp: filter_empty_conv)
  ultimately show ?thesis
    unfolding get_puts by (cases "rev (filter (\<lambda>w. key w = key v) vs)") auto
qed

lemma get_dels:
  "get (foldl (\<lambda>acc k. del k acc) s ks) j = (if j \<in> set ks then None else get s j)"
  by (induction ks arbitrary: s) (auto simp: get_del)

end

interpretation hash_map: keyed_store map_of AList.update AList.delete
  by unfold_locales (simp_all add: update_conv delete_conv)

section \<open>Chunks of a slice\<close>

text \<open>\<open>slice::chunks\<close>; it panics for the size zero.\<close>

function chunks :: "nat \<Rightarrow> 'a list \<Rightarrow> 'a list list" where
  "chunks n xs = (if xs = [] \<or> n = 0 then [] else take n xs # chunks n (drop n xs))"
  by pat_completeness auto
termination
  by (relation "measure (\<lambda>(n, xs). length xs)") auto

declare chunks.simps [simp del]

lemma concat_chunks [simp]: "0 < n \<Longrightarrow> concat (chunks n xs) = xs"
  by (induction n xs rule: chunks.induct) (subst chunks.simps, auto)

lemma chunks_bounded: "c \<in> set (chunks n xs) \<Longrightarrow> length c \<le> n"
  by (induction n xs rule: chunks.induct) (subst (asm) chunks.simps, auto split: if_splits)

lemma length_chunks: "length (chunks n xs) \<le> length xs"
proof (induction n xs rule: chunks.induct)
  case (1 n xs)
  show ?case
  proof (cases "xs = [] \<or> n = 0")
    case True
    then show ?thesis by (simp add: chunks.simps [of n xs])
  next
    case False
    then have "length (chunks n (drop n xs)) \<le> length (drop n xs)" by (rule 1)
    moreover have "length (drop n xs) < length xs" using False by simp
    ultimately show ?thesis using False
      by (simp only: chunks.simps [of n xs] if_False list.size add_Suc_right add_0_right Suc_le_eq)
  qed
qed

end
