(* ===== verification/Bitcoin.thy ===== *)
theory Bitcoin
  imports Yuv_Prelude
begin

text \<open>
  The interface of the third-party crates the sources build on (\<open>bitcoin\<close>,
  \<open>secp256k1\<close>, \<open>bitcoin_hashes\<close>). The data types are the crates' public structs; the
  functions are fields of one record, an argument of every definition that calls them.
  Nothing is known of these functions except what a theorem states as a hypothesis; keys,
  signatures and scalars are opaque values carried as byte strings.
\<close>

type_synonym script = bytes
type_synonym txid = bytes
type_synonym block_hash = bytes
type_synonym xonly = bytes
type_synonym pubkey = bytes
type_synonym seckey = bytes
type_synonym scalar = bytes
type_synonym ecdsa_sig = bytes
type_synonym witness = "bytes list"
type_synonym ext_error = string

text \<open>Socket addresses: the IP address, by octets or segments, and the port.\<close>

datatype ip_addr = V4 u8 u8 u8 u8 | V6 "u16 list"

datatype socket_addr = SocketAddr (ip: ip_addr) (port: u16)

datatype parity = Even | Odd

datatype instruction = PushBytes bytes | Op u8

datatype address_type = P2pkh | P2sh | P2wpkh | P2wsh | P2tr

record outpoint =
  op_txid :: txid
  op_vout :: u32

record txin =
  previous_output :: outpoint
  script_sig :: script
  txin_sequence :: u32
  txin_witness :: witness

record txout =
  txout_value :: u64
  script_pubkey :: script

record transaction =
  tx_version :: u32
  tx_lock_time :: u32
  tx_input :: "txin list"
  tx_output :: "txout list"

datatype io_kind = UnexpectedEof | InvalidData

datatype decode_error = Io io_kind | ParseFailed string

type_synonym 'a decoder = "bytes \<Rightarrow> decode_error + 'a \<times> bytes"

record bitcoin_ext =
  x_txid :: "transaction \<Rightarrow> txid"
  x_is_coin_base :: "transaction \<Rightarrow> bool"
  x_sha256 :: "bytes \<Rightarrow> bytes"
  x_hash160 :: "bytes \<Rightarrow> bytes"
  x_hash_from_slice :: "bytes \<Rightarrow> bytes option"
  x_hash160_from_slice :: "bytes \<Rightarrow> bytes option"
  x_xonly_from_slice :: "bytes \<Rightarrow> xonly option"
  x_xonly_serialize :: "xonly \<Rightarrow> bytes"
  x_pubkey_from_slice :: "bytes \<Rightarrow> pubkey option"
  x_pubkey_serialize :: "pubkey \<Rightarrow> bytes"
  x_pubkey_le :: "pubkey \<Rightarrow> pubkey \<Rightarrow> bool"
  x_x_only_public_key :: "pubkey \<Rightarrow> xonly \<times> parity"
  x_from_x_only :: "xonly \<Rightarrow> parity \<Rightarrow> pubkey"
  x_scalar_from_be_bytes :: "bytes \<Rightarrow> scalar option"
  x_add_exp_tweak :: "pubkey \<Rightarrow> scalar \<Rightarrow> ext_error + pubkey"
  x_seckey_public_key :: "seckey \<Rightarrow> pubkey"
  x_seckey_negate :: "seckey \<Rightarrow> seckey"
  x_seckey_add_tweak :: "seckey \<Rightarrow> scalar \<Rightarrow> ext_error + seckey"
  x_wpubkey_hash :: "pubkey \<Rightarrow> bytes option"
  x_wscript_hash :: "script \<Rightarrow> bytes"
  x_new_v0_p2wpkh :: "bytes \<Rightarrow> script"
  x_new_v0_p2wsh :: "bytes \<Rightarrow> script"
  x_to_v0_p2wsh :: "script \<Rightarrow> script"
  x_new_p2pkh :: "bytes \<Rightarrow> script"
  x_new_p2sh :: "bytes \<Rightarrow> script"
  x_sig_from_slice :: "bytes \<Rightarrow> ext_error + ecdsa_sig"
  x_is_op_return :: "script \<Rightarrow> bool"
  x_is_p2pkh :: "script \<Rightarrow> bool"
  x_is_p2sh :: "script \<Rightarrow> bool"
  x_is_v0_p2wpkh :: "script \<Rightarrow> bool"
  x_is_v0_p2wsh :: "script \<Rightarrow> bool"
  x_instructions :: "script \<Rightarrow> (ext_error + instruction) list"
  x_push_opcode :: "u8 \<Rightarrow> script \<Rightarrow> script"
  x_push_slice :: "bytes \<Rightarrow> script \<Rightarrow> script"
  x_push_int :: "int \<Rightarrow> script \<Rightarrow> script"
  x_push_key :: "pubkey \<Rightarrow> script \<Rightarrow> script"
  x_tx_encode :: "transaction \<Rightarrow> bytes"
  x_tx_decode :: "transaction decoder"
  x_script_encode :: "script \<Rightarrow> bytes"
  x_script_decode :: "script decoder"

section \<open>Values of the opaque types\<close>

text \<open>
  A value of \<open>XOnlyPublicKey\<close> serializes to 32 bytes that parse back to it, a value of
  \<open>secp256k1::PublicKey\<close> to 33 bytes. These predicates pick those values out of the
  byte strings that carry them.
\<close>

definition wf_xonly :: "bitcoin_ext \<Rightarrow> xonly \<Rightarrow> bool" where
  "wf_xonly X k \<longleftrightarrow>
     length (x_xonly_serialize X k) = 32 \<and> x_xonly_from_slice X (x_xonly_serialize X k) = Some k"

definition wf_pubkey :: "bitcoin_ext \<Rightarrow> pubkey \<Rightarrow> bool" where
  "wf_pubkey X k \<longleftrightarrow>
     length (x_pubkey_serialize X k) = 33 \<and>
     x_pubkey_from_slice X (x_pubkey_serialize X k) = Some k"

definition wf_outpoint :: "outpoint \<Rightarrow> bool" where
  "wf_outpoint p \<longleftrightarrow> length (op_txid p) = 32"

section \<open>Scripts\<close>

text \<open>
  The documented behaviour of the script builder and of the instruction iterator: a push
  of an opcode above the push opcodes, or of less than 256 bytes, onto a script that parses
  without an error adds one instruction at its end.
\<close>

definition builder_laws :: "bitcoin_ext \<Rightarrow> bool" where
  "builder_laws X \<longleftrightarrow>
     x_instructions X [] = [] \<and>
     (\<forall>s op. list_all is_ok (x_instructions X s) \<longrightarrow> 0x4f \<le> op \<longrightarrow>
        x_instructions X (x_push_opcode X op s) = x_instructions X s @ [Inr (Op op)]) \<and>
     (\<forall>s d. list_all is_ok (x_instructions X s) \<longrightarrow> length d < 256 \<longrightarrow>
        x_instructions X (x_push_slice X d s) = x_instructions X s @ [Inr (PushBytes d)])"

text \<open>A script that starts with \<open>OP_RETURN\<close> is one.\<close>

definition OP_RETURN :: u8 where
  "OP_RETURN = 0x6a"

definition op_return_law :: "bitcoin_ext \<Rightarrow> bool" where
  "op_return_law X \<longleftrightarrow>
     (\<forall>d. x_is_op_return X (x_push_slice X d (x_push_opcode X OP_RETURN [])))"

section \<open>Readers\<close>

text \<open>\<open>read_exact\<close> on a buffer of \<open>n\<close> bytes.\<close>

definition read_exact :: "nat \<Rightarrow> bytes decoder" where
  "read_exact n bs = (if length bs < n then Inl (Io UnexpectedEof) else Inr (take n bs, drop n bs))"

lemma read_exact_append [codec_simps]:
  "length a = n \<Longrightarrow> read_exact n (a @ rest) = Inr (a, rest)"
  by (simp add: read_exact_def)

lemma read_exact_shorter: "read_exact n bs = Inr (a, rest) \<Longrightarrow> bs = a @ rest \<and> length a = n"
  by (auto simp: read_exact_def split: if_splits)

definition dec_u8 :: "u8 decoder" where
  "dec_u8 bs = bindE (read_exact 1 bs) (\<lambda>(a, rest). Inr (hd a, rest))"

definition dec_u16 :: "u16 decoder" where
  "dec_u16 bs = bindE (read_exact 2 bs) (\<lambda>(a, rest). Inr (from_le_bytes a, rest))"

definition dec_u32 :: "u32 decoder" where
  "dec_u32 bs = bindE (read_exact 4 bs) (\<lambda>(a, rest). Inr (from_le_bytes a, rest))"

definition enc_u8 :: "u8 \<Rightarrow> bytes" where
  "enc_u8 w = [w]"

definition enc_u16 :: "u16 \<Rightarrow> bytes" where
  "enc_u16 w = to_le_bytes 2 w"

definition enc_u32 :: "u32 \<Rightarrow> bytes" where
  "enc_u32 w = to_le_bytes 4 w"

text \<open>Decode \<open>n\<close> items one after the other.\<close>

primrec dec_times :: "nat \<Rightarrow> 'a decoder \<Rightarrow> 'a list decoder" where
  "dec_times 0 d bs = Inr ([], bs)"
| "dec_times (Suc n) d bs =
     bindE (d bs) (\<lambda>(x, rest). bindE (dec_times n d rest) (\<lambda>(xs, rest'). Inr (x # xs, rest')))"

section \<open>The encoder/decoder contract\<close>

text \<open>
  A codec on the values \<open>ok\<close>: the encoding of such a value, followed by anything, decodes
  to the value and leaves what followed. The client lemmas give the codec of a list from
  the codec of its items.
\<close>

locale codec =
  fixes enc :: "'a \<Rightarrow> bytes" and dec :: "'a decoder" and ok :: "'a \<Rightarrow> bool"
  assumes dec_enc: "ok x \<Longrightarrow> dec (enc x @ rest) = Inr (x, rest)"
begin

lemma dec_enc_nil: "ok x \<Longrightarrow> dec (enc x) = Inr (x, [])"
  using dec_enc [of x "[]"] by simp

lemma dec_times_enc:
  "\<forall>x \<in> set xs. ok x \<Longrightarrow>
     dec_times (length xs) dec (concat (map enc xs) @ rest) = Inr (xs, rest)"
proof (induction xs)
  case Nil
  then show ?case by simp
next
  case (Cons x xs)
  have "dec (enc x @ (concat (map enc xs) @ rest)) = Inr (x, concat (map enc xs) @ rest)"
    using Cons.prems by (intro dec_enc) simp
  with Cons show ?case by simp
qed

lemma enc_inj:
  assumes "ok x" and "ok y" and "enc x = enc y"
  shows "x = y"
  using assms by (metis dec_enc_nil prod.inject sum.inject(2))

end

lemma dec_u8_Cons [codec_simps]: "dec_u8 (b # bs) = Inr (b, bs)"
  by (simp add: dec_u8_def read_exact_def)

lemma dec_u16_enc [codec_simps]: "dec_u16 (enc_u16 w @ rest) = Inr (w, rest)"
  by (simp add: dec_u16_def enc_u16_def codec_simps)

lemma dec_u32_enc [codec_simps]: "dec_u32 (enc_u32 w @ rest) = Inr (w, rest)"
  by (simp add: dec_u32_def enc_u32_def codec_simps)

lemma length_enc_u32 [simp]: "length (enc_u32 w) = 4" "length (enc_u16 v) = 2"
  by (simp_all add: enc_u32_def enc_u16_def)

interpretation u8_codec: codec enc_u8 dec_u8 "\<lambda>_. True"
  by unfold_locales (simp add: enc_u8_def codec_simps)

interpretation u16_codec: codec enc_u16 dec_u16 "\<lambda>_. True"
  by unfold_locales (rule dec_u16_enc)

interpretation u32_codec: codec enc_u32 dec_u32 "\<lambda>_. True"
  by unfold_locales (rule dec_u32_enc)

text \<open>\<open>n\<close> raw bytes written with \<open>write\<close> and read back with \<open>read_exact\<close>.\<close>

lemma raw_codec: "codec id (read_exact n) (\<lambda>a. length a = n)"
  by unfold_locales (simp add: codec_simps)

end
