(* ===== verification/Pixels.thy ===== *)
theory Pixels
  imports Bitcoin
begin

text \<open>
  The token data of the protocol: luma (amount and blinding factor), chroma (token type),
  pixel, pixel hash and the keys tweaked with it (\<open>crates/pixels/src/pixel.rs\<close>,
  \<open>hash.rs\<close>, \<open>keys.rs\<close>, \<open>tweakable.rs\<close>).
\<close>

section \<open>Luma, chroma, pixel\<close>

definition LUMA_SIZE :: nat where
  "LUMA_SIZE = 32"

definition AMOUNT_SIZE :: nat where
  "AMOUNT_SIZE = 16"

definition BLINDING_FACTOR_SIZE :: nat where
  "BLINDING_FACTOR_SIZE = LUMA_SIZE - AMOUNT_SIZE"

definition CHROMA_SIZE :: nat where
  "CHROMA_SIZE = 32"

definition PIXEL_SIZE :: nat where
  "PIXEL_SIZE = LUMA_SIZE + CHROMA_SIZE"

lemmas pixel_sizes = LUMA_SIZE_def AMOUNT_SIZE_def BLINDING_FACTOR_SIZE_def CHROMA_SIZE_def
  PIXEL_SIZE_def

definition ZERO_PUBKEY_BYTES :: bytes where
  "ZERO_PUBKEY_BYTES = replicate 33 2"

record luma =
  amount :: u128
  blinding_factor :: bytes

datatype chroma = Chroma xonly

record pixel =
  luma :: luma
  chroma :: chroma

datatype luma_parse_error = LumaInvalidSize nat
datatype chroma_parse_error =
    ChromaInvalidSize nat
  | InvalidXOnlyKey
  | InvalidAddressType
  | InvalidWitnessProgramVersion nat
  | InvalidWitnessProgramLength nat
datatype pixel_parse_error =
    InvalidLuma luma_parse_error
  | InvalidChroma chroma_parse_error
  | IncorrectSize nat

definition luma_of_amount :: "u128 \<Rightarrow> luma" where
  "luma_of_amount a = \<lparr>amount = a, blinding_factor = replicate BLINDING_FACTOR_SIZE 0\<rparr>"

definition luma_from_array :: "bytes \<Rightarrow> luma" where
  "luma_from_array bs =
     \<lparr>amount = from_be_bytes (take AMOUNT_SIZE bs), blinding_factor = drop AMOUNT_SIZE bs\<rparr>"

definition luma_from_bytes :: "bytes \<Rightarrow> luma_parse_error + luma" where
  "luma_from_bytes bs =
     (if length bs < LUMA_SIZE then Inl (LumaInvalidSize (length bs))
      else Inr (luma_from_array (take LUMA_SIZE bs)))"

definition luma_to_bytes :: "luma \<Rightarrow> bytes" where
  "luma_to_bytes l = to_be_bytes AMOUNT_SIZE (amount l) @ blinding_factor l"

fun chroma_xonly :: "chroma \<Rightarrow> xonly" where
  "chroma_xonly (Chroma k) = k"

definition chroma_to_bytes :: "bitcoin_ext \<Rightarrow> chroma \<Rightarrow> bytes" where
  "chroma_to_bytes X c = x_xonly_serialize X (chroma_xonly c)"

definition chroma_from_bytes :: "bitcoin_ext \<Rightarrow> bytes \<Rightarrow> chroma_parse_error + chroma" where
  "chroma_from_bytes X bs =
     (if length bs < CHROMA_SIZE then Inl (ChromaInvalidSize (length bs))
      else bindE (ok_or InvalidXOnlyKey (x_xonly_from_slice X bs)) (\<lambda>k. Inr (Chroma k)))"

definition chroma_public_key :: "bitcoin_ext \<Rightarrow> chroma \<Rightarrow> pubkey" where
  "chroma_public_key X c = x_from_x_only X (chroma_xonly c) Even"

definition chroma_of_pubkey :: "bitcoin_ext \<Rightarrow> pubkey \<Rightarrow> chroma" where
  "chroma_of_pubkey X pk = Chroma (fst (x_x_only_public_key X pk))"

text \<open>
  \<open>ZERO_PUBLIC_KEY\<close>, the key of the burn address. The source calls \<open>expect\<close> on the parse
  of the constant; the default of the second branch stands for that panic.
\<close>

definition ZERO_PUBLIC_KEY :: "bitcoin_ext \<Rightarrow> pubkey" where
  "ZERO_PUBLIC_KEY X = (case x_pubkey_from_slice X ZERO_PUBKEY_BYTES of Some k \<Rightarrow> k | None \<Rightarrow> [])"

definition pixel_new :: "luma \<Rightarrow> chroma \<Rightarrow> pixel" where
  "pixel_new l c = \<lparr>luma = l, chroma = c\<rparr>"

definition pixel_empty :: "bitcoin_ext \<Rightarrow> pixel" where
  "pixel_empty X = pixel_new (luma_of_amount 0) (chroma_of_pubkey X (ZERO_PUBLIC_KEY X))"

definition pixel_to_bytes :: "bitcoin_ext \<Rightarrow> pixel \<Rightarrow> bytes" where
  "pixel_to_bytes X p = luma_to_bytes (luma p) @ chroma_to_bytes X (chroma p)"

definition pixel_from_bytes :: "bitcoin_ext \<Rightarrow> bytes \<Rightarrow> pixel_parse_error + pixel" where
  "pixel_from_bytes X bs =
     (if length bs < PIXEL_SIZE then Inl (IncorrectSize (length bs))
      else bindE (map_err InvalidLuma (luma_from_bytes (take LUMA_SIZE bs)))
        (\<lambda>l. bindE (map_err InvalidChroma
                 (chroma_from_bytes X (take CHROMA_SIZE (drop LUMA_SIZE bs))))
        (\<lambda>c. Inr \<lparr>luma = l, chroma = c\<rparr>)))"

definition wf_luma :: "luma \<Rightarrow> bool" where
  "wf_luma l \<longleftrightarrow> length (blinding_factor l) = BLINDING_FACTOR_SIZE"

definition wf_chroma :: "bitcoin_ext \<Rightarrow> chroma \<Rightarrow> bool" where
  "wf_chroma X c \<longleftrightarrow> wf_xonly X (chroma_xonly c)"

definition wf_pixel :: "bitcoin_ext \<Rightarrow> pixel \<Rightarrow> bool" where
  "wf_pixel X p \<longleftrightarrow> wf_luma (luma p) \<and> wf_chroma X (chroma p)"

lemma length_luma_to_bytes [simp]: "wf_luma l \<Longrightarrow> length (luma_to_bytes l) = 32"
  by (simp add: wf_luma_def luma_to_bytes_def pixel_sizes)

lemma luma_from_to_bytes [codec_simps]: "wf_luma l \<Longrightarrow> luma_from_bytes (luma_to_bytes l) = Inr l"
  by (simp add: luma_from_bytes_def luma_from_array_def luma_to_bytes_def wf_luma_def
      pixel_sizes codec_simps)

lemma chroma_xonly_simp [simp]: "Chroma (chroma_xonly c) = c"
  by (cases c) simp

lemma length_chroma_to_bytes [simp]: "wf_chroma X c \<Longrightarrow> length (chroma_to_bytes X c) = 32"
  by (simp add: wf_chroma_def wf_xonly_def chroma_to_bytes_def)

lemma chroma_from_to_bytes [codec_simps]:
  "wf_chroma X c \<Longrightarrow> chroma_from_bytes X (chroma_to_bytes X c) = Inr c"
  by (simp add: chroma_from_bytes_def chroma_to_bytes_def wf_chroma_def wf_xonly_def CHROMA_SIZE_def)

lemma length_pixel_to_bytes [simp]: "wf_pixel X p \<Longrightarrow> length (pixel_to_bytes X p) = 64"
  by (simp add: wf_pixel_def pixel_to_bytes_def)

lemma pixel_from_to_bytes_append [codec_simps]:
  assumes "wf_pixel X p"
  shows "pixel_from_bytes X (pixel_to_bytes X p @ rest) = Inr p"
  using assms
  by (simp add: pixel_from_bytes_def pixel_to_bytes_def wf_pixel_def pixel_sizes codec_simps)

lemma luma_from_bytes_inv:
  assumes "luma_from_bytes bs = Inr l"
  shows "wf_luma l \<and> luma_to_bytes l = take 32 bs"
proof -
  from assms have len: "32 \<le> length bs" and l: "l = luma_from_array (take 32 bs)"
    by (auto simp: luma_from_bytes_def pixel_sizes split: if_splits)
  have am: "to_be_bytes 16 (from_be_bytes (take 16 bs) :: u128) = take 16 bs"
    using to_from_be_bytes [where ?'a = 128 and bs = "take 16 bs"] len by simp
  have "take 16 bs @ drop 16 (take 32 bs) = take 32 bs"
    using append_take_drop_id [of 16 "take 32 bs"] by (simp add: min_def)
  with len am show ?thesis
    by (simp add: l luma_from_array_def luma_to_bytes_def wf_luma_def pixel_sizes min_def)
qed

section \<open>Pixel hash and pixel keys\<close>

datatype pixel_key_error =
    Secp256k1 ext_error
  | PublicKeyError ext_error
  | PixelHashOutOfRange
  | UncompressedKey

text \<open>\<open>PXH = hash(hash(Y) || UV)\<close>\<close>

definition pixel_hash :: "bitcoin_ext \<Rightarrow> pixel \<Rightarrow> bytes" where
  "pixel_hash X p =
     x_sha256 X (x_sha256 X (luma_to_bytes (luma p)) @ x_xonly_serialize X (chroma_xonly (chroma p)))"

definition pixelhash_pubkey_hash :: "bitcoin_ext \<Rightarrow> bytes \<Rightarrow> pubkey \<Rightarrow> bytes" where
  "pixelhash_pubkey_hash X pxh pk = x_sha256 X (pxh @ x_pubkey_serialize X pk)"

definition pixel_hash_pubkey_scalar ::
  "bitcoin_ext \<Rightarrow> bytes \<Rightarrow> pubkey \<Rightarrow> pixel_key_error + scalar" where
  "pixel_hash_pubkey_scalar X pxh pk =
     ok_or PixelHashOutOfRange (x_scalar_from_be_bytes X (pixelhash_pubkey_hash X pxh pk))"

text \<open>The even-parity key with the same x coordinate (\<open>ToEvenPublicKey\<close>).\<close>

definition even_public_key :: "bitcoin_ext \<Rightarrow> pubkey \<Rightarrow> pubkey" where
  "even_public_key X pk = x_from_x_only X (fst (x_x_only_public_key X pk)) Even"

definition pixel_key_new :: "bitcoin_ext \<Rightarrow> bytes \<Rightarrow> pubkey \<Rightarrow> pixel_key_error + pubkey" where
  "pixel_key_new X pxh inner_key =
     (let (xo, par) = x_x_only_public_key X inner_key;
          key = (if par = Odd then x_from_x_only X xo Even else inner_key)
      in bindE (pixel_hash_pubkey_scalar X pxh key)
           (\<lambda>t. map_err Secp256k1 (x_add_exp_tweak X key t)))"

definition pixel_key_to_p2wpkh :: "bitcoin_ext \<Rightarrow> pubkey \<Rightarrow> script option" where
  "pixel_key_to_p2wpkh X pk = map_option (x_new_v0_p2wpkh X) (x_wpubkey_hash X pk)"

definition pixel_private_key_new ::
  "bitcoin_ext \<Rightarrow> bytes \<Rightarrow> seckey \<Rightarrow> pixel_key_error + seckey" where
  "pixel_private_key_new X pxh sk =
     (let (_, par) = x_x_only_public_key X (x_seckey_public_key X sk);
          inner_key = (if par = Odd then x_seckey_negate X sk else sk);
          pk = x_seckey_public_key X inner_key
      in bindE (pixel_hash_pubkey_scalar X pxh pk)
           (\<lambda>t. map_err Secp256k1 (x_seckey_add_tweak X inner_key t)))"

text \<open>\<open>Tweakable::tweak\<close> and \<open>maybe_tweak\<close>; the error is the \<open>expect\<close> panic of the source.\<close>

definition tweak :: "bitcoin_ext \<Rightarrow> pixel \<Rightarrow> pubkey \<Rightarrow> pixel_key_error + pubkey" where
  "tweak X p pk = pixel_key_new X (pixel_hash X p) pk"

definition maybe_tweak :: "bitcoin_ext \<Rightarrow> pixel option \<Rightarrow> pubkey \<Rightarrow> pixel_key_error + pubkey" where
  "maybe_tweak X po pk = (case po of Some p \<Rightarrow> tweak X p pk | None \<Rightarrow> Inr pk)"

lemma even_public_key_of_even: 
  "x_x_only_public_key X pk = (k, Odd) \<Longrightarrow> even_public_key X pk = x_from_x_only X k Even"
  by (simp add: even_public_key_def)

text \<open>
  The documented behaviour of \<open>secp256k1\<close> that key tweaking rests on: tweaking a secret
  key and tweaking its public key give a matching pair, and negating a secret key whose
  public key is odd gives the even public key with the same x coordinate.
\<close>

definition tweak_laws :: "bitcoin_ext \<Rightarrow> bool" where
  "tweak_laws X \<longleftrightarrow>
     (\<forall>sk t sk'. x_seckey_add_tweak X sk t = Inr sk' \<longrightarrow>
        x_add_exp_tweak X (x_seckey_public_key X sk) t = Inr (x_seckey_public_key X sk')) \<and>
     (\<forall>sk k. x_x_only_public_key X (x_seckey_public_key X sk) = (k, Odd) \<longrightarrow>
        x_seckey_public_key X (x_seckey_negate X sk) = x_from_x_only X k Even)"

text \<open>The private key that spends a pixel matches the public key that locks it: when
  \<open>PixelPrivateKey::new\<close> returns a key for a secret key and a pixel hash, then \<open>PixelKey::new\<close>
  on the secret key's public key and the same hash returns that key's public key,
  whatever the parity of the owner's key.
\<close>

lemma pixel_key_pair:
  assumes laws: "tweak_laws X" and sk: "pixel_private_key_new X pxh sk = Inr sk'"
  shows "pixel_key_new X pxh (x_seckey_public_key X sk) = Inr (x_seckey_public_key X sk')"
proof -
  obtain k par where xo: "x_x_only_public_key X (x_seckey_public_key X sk) = (k, par)"
    by (cases "x_x_only_public_key X (x_seckey_public_key X sk)")
  define ik where "ik = (if par = Odd then x_seckey_negate X sk else sk)"
  have pub: "x_seckey_public_key X ik =
      (if par = Odd then x_from_x_only X k Even else x_seckey_public_key X sk)"
    using laws xo by (simp add: ik_def tweak_laws_def)
  from sk obtain t where t: "pixel_hash_pubkey_scalar X pxh (x_seckey_public_key X ik) = Inr t"
    and add: "x_seckey_add_tweak X ik t = Inr sk'"
    by (auto simp: pixel_private_key_new_def xo ik_def [symmetric] Let_def result_simps)
  from laws add have "x_add_exp_tweak X (x_seckey_public_key X ik) t = Inr (x_seckey_public_key X sk')"
    by (simp add: tweak_laws_def)
  with t show ?thesis
    unfolding pixel_key_new_def xo by (simp add: pub [symmetric] Let_def)
qed

lemma pixel_key_parity_blind:
  assumes "x_x_only_public_key X pk = (k, Odd)"
    and "x_x_only_public_key X (x_from_x_only X k Even) = (k, Even)"
  shows "pixel_key_new X pxh pk = pixel_key_new X pxh (even_public_key X pk)"
  using assms by (simp add: pixel_key_new_def even_public_key_def Let_def)

end
