(* ===== verification/Sample_Ext.thy ===== *)
theory Sample_Ext
  imports Pixels
begin

text \<open>
  A concrete instance of the third-party interface, small enough to evaluate by
  simplification: keys are residues modulo 256 laid out as 33-byte strings, hashes are
  byte sums, scripts are sequences of tagged instructions. The witnesses of the
  theorems that assume laws of the interface run on it.
\<close>

definition sample_hash :: "bytes \<Rightarrow> bytes" where
  "sample_hash bs = replicate 31 0 @ [sum_list bs]"

definition sample_hash160 :: "bytes \<Rightarrow> bytes" where
  "sample_hash160 bs = replicate 19 0 @ [sum_list bs]"

definition sample_public :: "byte \<Rightarrow> pubkey" where
  "sample_public a = (if a \<le> 128 then 2 # replicate 31 0 @ [a] else 3 # replicate 31 0 @ [- a])"

definition sample_secret_of :: "pubkey \<Rightarrow> byte" where
  "sample_secret_of pk = (if hd pk = 2 then last pk else - last pk)"

fun sample_le :: "pubkey \<Rightarrow> pubkey \<Rightarrow> bool" where
  "sample_le [] ys = True"
| "sample_le (x # xs) [] = False"
| "sample_le (x # xs) (y # ys) = (x < y \<or> x = y \<and> sample_le xs ys)"

fun sample_instructions :: "bytes \<Rightarrow> (ext_error + instruction) list" where
  "sample_instructions [] = []"
| "sample_instructions [b] = [Inl ''early end'']"
| "sample_instructions (b # n # rest) =
     (if b = 0 then Inr (Op n) # sample_instructions rest
      else if length rest < unat n then [Inl ''early end'']
      else Inr (PushBytes (take (unat n) rest)) # sample_instructions (drop (unat n) rest))"

definition sample_push :: "bytes \<Rightarrow> script \<Rightarrow> script" where
  "sample_push d s = s @ [1, of_nat (length d)] @ d"

definition sample_op :: "u8 \<Rightarrow> script \<Rightarrow> script" where
  "sample_op op s = s @ [0, op]"

definition sample_wsh :: "bytes \<Rightarrow> script" where
  "sample_wsh h = sample_push h (sample_push [] [])"

definition sample_tx :: "u32 \<Rightarrow> transaction" where
  "sample_tx n = \<lparr>tx_version = 2, tx_lock_time = n, tx_input = [], tx_output = []\<rparr>"

definition sample_peer :: "u8 \<Rightarrow> socket_addr" where
  "sample_peer n = SocketAddr (V4 80 1 1 n) 8333"

definition sample_ext :: bitcoin_ext where
  "sample_ext =
     \<lparr>x_txid = (\<lambda>tx. replicate 28 0 @ to_be_bytes 4 (tx_lock_time tx)),
      x_is_coin_base = (\<lambda>tx. tx_input tx = []),
      x_sha256 = sample_hash,
      x_hash160 = sample_hash160,
      x_hash_from_slice = (\<lambda>b. if length b = 32 then Some b else None),
      x_hash160_from_slice = (\<lambda>b. if length b = 20 then Some b else None),
      x_xonly_from_slice = (\<lambda>b. if length b = 32 then Some b else None),
      x_xonly_serialize = (\<lambda>k. k),
      x_pubkey_from_slice = (\<lambda>b. if length b = 33 \<and> (hd b = 2 \<or> hd b = 3) then Some b else None),
      x_pubkey_serialize = (\<lambda>k. k),
      x_pubkey_le = sample_le,
      x_x_only_public_key = (\<lambda>k. (tl k, if hd k = 2 then Even else Odd)),
      x_from_x_only = (\<lambda>k p. (case p of Even \<Rightarrow> 2 | Odd \<Rightarrow> 3) # k),
      x_scalar_from_be_bytes = (\<lambda>b. Some b),
      x_add_exp_tweak = (\<lambda>k t. Inr (sample_public (sample_secret_of k + last t))),
      x_seckey_public_key = (\<lambda>sk. sample_public (hd sk)),
      x_seckey_negate = (\<lambda>sk. [- hd sk]),
      x_seckey_add_tweak = (\<lambda>sk t. Inr [hd sk + last t]),
      x_wpubkey_hash = (\<lambda>k. Some (sample_hash160 k)),
      x_wscript_hash = sample_hash,
      x_new_v0_p2wpkh = sample_wsh,
      x_new_v0_p2wsh = sample_wsh,
      x_to_v0_p2wsh = (\<lambda>s. sample_wsh (sample_hash s)),
      x_new_p2pkh = (\<lambda>h. sample_op 0xac (sample_push h (sample_op 0x76 []))),
      x_new_p2sh = (\<lambda>h. sample_op 0x87 (sample_push h (sample_op 0xa9 []))),
      x_sig_from_slice = (\<lambda>b. if b = [] then Inl ''empty'' else Inr b),
      x_is_op_return = (\<lambda>s. take 2 s = [0, 0x6a]),
      x_is_p2pkh = (\<lambda>s. take 2 s = [0, 0x76]),
      x_is_p2sh = (\<lambda>s. take 2 s = [0, 0xa9]),
      x_is_v0_p2wpkh = (\<lambda>s. take 2 s = [1, 0] \<and> length s = 24),
      x_is_v0_p2wsh = (\<lambda>s. take 2 s = [1, 0] \<and> length s = 36),
      x_instructions = sample_instructions,
      x_push_opcode = sample_op,
      x_push_slice = sample_push,
      x_push_int = (\<lambda>n. sample_push (to_le_bytes 4 (word_of_int n :: u32))),
      x_push_key = (\<lambda>k. sample_push k),
      x_tx_encode = (\<lambda>tx. to_le_bytes 4 (tx_lock_time tx)),
      x_tx_decode = (\<lambda>bs. bindE (dec_u32 bs) (\<lambda>(n, rest). Inr (sample_tx n, rest))),
      x_script_encode = (\<lambda>s. to_le_bytes 4 (of_nat (length s) :: u32) @ s),
      x_script_decode = (\<lambda>bs. bindE (dec_u32 bs) (\<lambda>(n, rest). read_exact (unat n) rest))\<rparr>"

definition sample_xonly :: "byte \<Rightarrow> xonly" where
  "sample_xonly a = replicate 31 0 @ [a]"

definition sample_pixel :: "u128 \<Rightarrow> byte \<Rightarrow> pixel" where
  "sample_pixel n a = pixel_new (luma_of_amount n) (Chroma (sample_xonly a))"

lemma sample_serialize [simp]:
  "x_pubkey_serialize sample_ext k = k" "x_xonly_serialize sample_ext xo = xo"
  by (simp_all add: sample_ext_def)

lemma sample_fields:
  "x_wpubkey_hash sample_ext k = Some (sample_hash160 k)" "x_new_v0_p2wpkh sample_ext h = sample_wsh h"
  "x_sig_from_slice sample_ext b = (if b = [] then Inl ''empty'' else Inr b)"
  "x_pubkey_from_slice sample_ext (sample_public a) = Some (sample_public a)"
  "x_is_op_return sample_ext s = (take 2 s = [0, 0x6a])"
  by (simp_all add: sample_ext_def sample_public_def)

lemma sample_public_eq_iff [simp]: "sample_public a = sample_public b \<longleftrightarrow> a = b"
  by (auto simp: sample_public_def)

lemma sample_wf_xonly [simp]: "wf_xonly sample_ext (sample_xonly a)"
  by (simp add: wf_xonly_def sample_ext_def sample_xonly_def)

lemma sample_wf_pubkey [simp]: "wf_pubkey sample_ext (sample_public a)"
  by (simp add: wf_pubkey_def sample_ext_def sample_public_def)

lemma sample_wf_pixel [simp]: "wf_pixel sample_ext (sample_pixel n a)"
  by (simp add: wf_pixel_def sample_pixel_def pixel_new_def wf_luma_def luma_of_amount_def
      wf_chroma_def pixel_sizes)

lemma sample_secret_public: "sample_secret_of (sample_public a) = a"
  by (simp add: sample_secret_of_def sample_public_def)

lemma sample_le_total: "sample_le xs ys \<or> sample_le ys xs"
  by (induction xs ys rule: sample_le.induct) auto

lemma sample_le_antisym: "sample_le xs ys \<Longrightarrow> sample_le ys xs \<Longrightarrow> xs = ys"
proof (induction xs ys rule: sample_le.induct)
  case (1 ys)
  then show ?case by (cases ys) auto
qed auto

lemma sample_le_trans: "sample_le xs ys \<Longrightarrow> sample_le ys zs \<Longrightarrow> sample_le xs zs"
proof (induction xs ys arbitrary: zs rule: sample_le.induct)
  case (3 x xs y ys)
  then show ?case by (cases zs) auto
qed auto

lemma sample_instructions_append:
  "list_all is_ok (sample_instructions s) \<Longrightarrow>
   sample_instructions (s @ t) = sample_instructions s @ sample_instructions t"
  by (induction s rule: sample_instructions.induct) (auto split: if_splits)

lemma sample_negate_odd:
  assumes "\<not> a \<le> (128 :: byte)"
  shows "- a \<le> 128"
proof -
  have "of_nat (unat a + (256 - unat a)) = (0 :: byte)"
    using unat_bound [of a] by simp
  then have "a = - of_nat (256 - unat a)"
    by (simp add: add_eq_0_iff2 add.commute)
  then have "- a = of_nat (256 - unat a)"
    by (rule sym [OF iffD1 [OF equation_minus_iff]])
  moreover have "128 < unat a" using assms by (simp add: word_le_nat_alt)
  ultimately show ?thesis by (simp add: word_le_nat_alt take_bit_eq_mod unat_of_nat)
qed

lemma hd_sample_public: "hd (sample_public a) = (if a \<le> 128 then 2 else 3)"
  by (simp add: sample_public_def)

lemma sample_tweak_laws: "tweak_laws sample_ext"
proof -
  have "sample_public (- hd sk) = 2 # tl (sample_public (hd sk))"
    if "\<not> hd sk \<le> 128" for sk :: bytes
    using sample_negate_odd [OF that] that by (simp add: sample_public_def)
  then show ?thesis
    by (simp add: tweak_laws_def sample_ext_def sample_secret_public hd_sample_public
        split: if_splits)
qed

lemma sample_builder_laws: "builder_laws sample_ext"
  by (auto simp: builder_laws_def sample_ext_def sample_op_def sample_push_def
      sample_instructions_append take_bit_eq_mod unat_of_nat)

lemma sample_op_return_law: "op_return_law sample_ext"
  by (simp add: op_return_law_def sample_ext_def sample_op_def sample_push_def OP_RETURN_def)

lemma pixel_key_pair_witness:
  "\<exists>sk'. pixel_private_key_new sample_ext (replicate 32 0) [200] = Inr sk' \<and>
     pixel_key_new sample_ext (replicate 32 0) (x_seckey_public_key sample_ext [200]) =
       Inr (x_seckey_public_key sample_ext sk')"
proof -
  have "\<exists>sk'. pixel_private_key_new sample_ext (replicate 32 0) [200] = Inr sk'"
    by (simp add: pixel_private_key_new_def pixel_hash_pubkey_scalar_def sample_ext_def
        split: prod.splits)
  then show ?thesis
    using pixel_key_pair [OF sample_tweak_laws] by blast
qed

end
