(* ===== verification/Pixel_Proofs.thy ===== *)
theory Pixel_Proofs
  imports Sample_Ext
begin

text \<open>
  The proofs of ownership (\<open>pixels/src/proof.rs\<close> and \<open>pixels/src/proof/\<close>): the six kinds
  of the default build, the witness parsers, the redeem scripts they expect and the checks
  of a proof against a transaction input and a transaction output. A panic of the source
  is an error value of its own (\<open>...Panic\<close>).
\<close>

section \<open>Data\<close>

record sig_proof =
  sig_pixel :: pixel
  sig_inner_key :: pubkey

record empty_proof =
  empty_inner_key :: pubkey

record multisig_proof =
  ms_pixel :: pixel
  ms_inner_keys :: "pubkey list"
  ms_m :: u8

record to_local_script =
  revocation_pubkey :: pubkey
  to_self_delay :: u16
  local_delayed_pubkey :: pubkey

record lightning_proof =
  ln_pixel :: pixel
  ln_data :: to_local_script

datatype htlc_script_kind = Offered | Received u32

record htlc_data =
  revocation_key_hash :: bytes
  remote_htlc_key :: pubkey
  local_htlc_key :: pubkey
  payment_hash :: bytes
  htlc_kind :: htlc_script_kind

record htlc_proof =
  htlc_pixel :: pixel
  htlc_data :: htlc_data

record p2wsh_proof =
  wsh_pixel :: pixel
  wsh_inner_key :: pubkey
  wsh_script :: script

datatype pixel_proof =
    EmptyPixel empty_proof
  | Sig sig_proof
  | Multisig multisig_proof
  | Lightning lightning_proof
  | LightningHtlc htlc_proof
  | P2WSH p2wsh_proof

section \<open>Errors\<close>

datatype p2wpkh_witness_error =
    InvalidPublicKey
  | InvalidSignature ext_error
  | StackLengthMismatch

datatype p2wpkh_proof_error =
    P2wpkhPixelKey pixel_key_error
  | P2wpkhWitnessParse p2wpkh_witness_error
  | ScriptPubKeyMismatch
  | PublicKeyMismatch

datatype p2wsh_witness_error = EmptyWitness | WitnessScript decode_error | Custom string

datatype p2wsh_proof_error =
    MissingPubkey
  | PubkeyMismatch
  | OutputScriptMismatch
  | InvalidWitness p2wsh_witness_error
  | WshRedeemScriptMismatch
  | WshTweakPanic pixel_key_error

datatype multisig_proof_error =
    MsPixelKey pixel_key_error
  | InvalidNumberOfInnerKeys nat nat
  | MsWitnessParse p2wsh_witness_error
  | InvalidNumberOfSignatures nat nat
  | MsRedeemScriptMismatch
  | SmallIntPanic

datatype multisig_script_error = InvalidScript | ParsePubkeyError

datatype lightning_proof_error =
    LnPixelKey pixel_key_error
  | InvalidWitnessData p2wsh_witness_error
  | LnRedeemScriptMismatch script script
  | MismatchScriptPubkey script script

datatype htlc_proof_error =
    InvalidScriptKind
  | InvalidWitnessProgramStructure
  | HtlcScriptError ext_error
  | InvalidScriptStructure
  | HashError ext_error
  | HtlcPublicKeyError ext_error
  | InvalidWScriptHashSize nat
  | ScriptHashMismatch bytes bytes
  | HtlcTweakPanic pixel_key_error

datatype pixel_proof_error =
    P2wpkhError p2wpkh_proof_error
  | P2wshError p2wsh_proof_error
  | EmptyPixelError p2wpkh_proof_error
  | MultisigError multisig_proof_error
  | LightningError lightning_proof_error
  | LightningHtlcError htlc_proof_error

datatype to_local_parse_error =
    UnexpectedInstruction u8 nat
  | ScriptError ext_error
  | ToLocalPublicKey ext_error
  | ToSelfDelay
  | EarlyEndOfScript
  | UnwrapPanic

section \<open>Opcodes and the script builder\<close>

definition OP_PUSHNUM_1 :: u8 where
  "OP_PUSHNUM_1 = 0x51"

definition OP_PUSHNUM_16 :: u8 where
  "OP_PUSHNUM_16 = 0x60"

definition OP_PUSHBYTES_33 :: u8 where
  "OP_PUSHBYTES_33 = 0x21"

definition OP_PUSHNUM_2 :: u8 where
  "OP_PUSHNUM_2 = 0x52"

definition OP_IF :: u8 where
  "OP_IF = 0x63"

definition OP_NOTIF :: u8 where
  "OP_NOTIF = 0x64"

definition OP_ELSE :: u8 where
  "OP_ELSE = 0x67"

definition OP_ENDIF :: u8 where
  "OP_ENDIF = 0x68"

definition OP_DROP :: u8 where
  "OP_DROP = 0x75"

definition OP_DUP :: u8 where
  "OP_DUP = 0x76"

definition OP_SWAP :: u8 where
  "OP_SWAP = 0x7c"

definition OP_SIZE :: u8 where
  "OP_SIZE = 0x82"

definition OP_EQUAL :: u8 where
  "OP_EQUAL = 0x87"

definition OP_EQUALVERIFY :: u8 where
  "OP_EQUALVERIFY = 0x88"

definition OP_HASH160 :: u8 where
  "OP_HASH160 = 0xa9"

definition OP_CHECKSIG :: u8 where
  "OP_CHECKSIG = 0xac"

definition OP_CHECKMULTISIG :: u8 where
  "OP_CHECKMULTISIG = 0xae"

definition OP_CLTV :: u8 where
  "OP_CLTV = 0xb1"

definition OP_CSV :: u8 where
  "OP_CSV = 0xb2"

lemmas opcode_defs = OP_PUSHNUM_1_def OP_PUSHNUM_16_def OP_PUSHBYTES_33_def OP_PUSHNUM_2_def OP_IF_def OP_NOTIF_def OP_ELSE_def
  OP_ENDIF_def OP_DROP_def OP_DUP_def OP_SWAP_def OP_SIZE_def OP_EQUAL_def OP_EQUALVERIFY_def
  OP_HASH160_def OP_CHECKSIG_def OP_CHECKMULTISIG_def OP_CLTV_def OP_CSV_def

text \<open>A chain of builder calls, from left to right.\<close>

definition build_on :: "script \<Rightarrow> (script \<Rightarrow> script) list \<Rightarrow> script" where
  "build_on s steps = foldl (\<lambda>b step. step b) s steps"

section \<open>P2WPKH proofs\<close>

definition p2wpkh_from_witness ::
  "bitcoin_ext \<Rightarrow> witness \<Rightarrow> p2wpkh_witness_error + ecdsa_sig \<times> pubkey" where
  "p2wpkh_from_witness X w =
     (case w of
        [s, pk] \<Rightarrow>
          bindE (map_err InvalidSignature (x_sig_from_slice X s)) (\<lambda>signature.
          bindE (ok_or InvalidPublicKey (x_pubkey_from_slice X pk)) (\<lambda>pubkey.
          Inr (signature, pubkey)))
      | _ \<Rightarrow> Inl StackLengthMismatch)"

definition p2wpkh_check_by_key ::
  "bitcoin_ext \<Rightarrow> pixel \<Rightarrow> pubkey \<Rightarrow> pubkey \<Rightarrow> p2wpkh_proof_error + unit" where
  "p2wpkh_check_by_key X p inner_key pk =
     bindE (map_err P2wpkhPixelKey (pixel_key_new X (pixel_hash X p) inner_key)) (\<lambda>pixel_key.
     failIf (pixel_key \<noteq> pk) PublicKeyMismatch)"

definition p2wpkh_check_by_script ::
  "bitcoin_ext \<Rightarrow> pixel \<Rightarrow> pubkey \<Rightarrow> script \<Rightarrow> p2wpkh_proof_error + unit" where
  "p2wpkh_check_by_script X p inner_key spk =
     bindE (map_err P2wpkhPixelKey (pixel_key_new X (pixel_hash X p) inner_key)) (\<lambda>pixel_key.
     bindE (ok_or (P2wpkhPixelKey UncompressedKey) (pixel_key_to_p2wpkh X pixel_key)) (\<lambda>expected.
     failIf (spk \<noteq> expected) ScriptPubKeyMismatch))"

definition sig_check_by_input :: "bitcoin_ext \<Rightarrow> sig_proof \<Rightarrow> txin \<Rightarrow> p2wpkh_proof_error + unit" where
  "sig_check_by_input X pf i =
     bindE (map_err P2wpkhWitnessParse (p2wpkh_from_witness X (txin_witness i))) (\<lambda>(signature, pk).
     p2wpkh_check_by_key X (sig_pixel pf) (sig_inner_key pf) pk)"

definition sig_check_by_output :: "bitcoin_ext \<Rightarrow> sig_proof \<Rightarrow> txout \<Rightarrow> p2wpkh_proof_error + unit" where
  "sig_check_by_output X pf out =
     p2wpkh_check_by_script X (sig_pixel pf) (sig_inner_key pf) (script_pubkey out)"

definition empty_check_by_input ::
  "bitcoin_ext \<Rightarrow> empty_proof \<Rightarrow> txin \<Rightarrow> p2wpkh_proof_error + unit" where
  "empty_check_by_input X pf i =
     bindE (map_err P2wpkhWitnessParse (p2wpkh_from_witness X (txin_witness i))) (\<lambda>(signature, pk).
     p2wpkh_check_by_key X (pixel_empty X) (empty_inner_key pf) pk)"

definition empty_check_by_output ::
  "bitcoin_ext \<Rightarrow> empty_proof \<Rightarrow> txout \<Rightarrow> p2wpkh_proof_error + unit" where
  "empty_check_by_output X pf out =
     p2wpkh_check_by_script X (pixel_empty X) (empty_inner_key pf) (script_pubkey out)"

section \<open>P2WSH witnesses and proofs\<close>

text \<open>\<open>P2WSHWitness::from_witness\<close>, with the stack parser of the instance.\<close>

definition p2wsh_from_witness ::
  "(bytes list \<Rightarrow> p2wsh_witness_error + 'a) \<Rightarrow> witness \<Rightarrow> p2wsh_witness_error + 'a \<times> script" where
  "p2wsh_from_witness from_stack w =
     (if w = [] then Inl EmptyWitness
      else bindE (from_stack (butlast w)) (\<lambda>stack. Inr (stack, last w)))"

definition raw_from_stack :: "bytes list \<Rightarrow> p2wsh_witness_error + bytes list" where
  "raw_from_stack stack = mapE Inr stack"

definition sigs_from_stack ::
  "bitcoin_ext \<Rightarrow> bytes list \<Rightarrow> p2wsh_witness_error + ecdsa_sig list" where
  "sigs_from_stack X stack =
     mapE (\<lambda>e. map_err (\<lambda>_. Custom ''Invalid signature'') (x_sig_from_slice X e)) stack"

text \<open>The witness of a proof kind back to the stack: \<open>into_witness\<close>.\<close>

definition p2wsh_into_witness :: "('a \<Rightarrow> bytes list) \<Rightarrow> 'a \<Rightarrow> script \<Rightarrow> witness" where
  "p2wsh_into_witness into_stack stack redeem = into_stack stack @ [redeem]"

definition PARITIES :: "u8 list" where
  "PARITIES = [0x02, 0x03]"

definition is_pubkey :: "bytes \<Rightarrow> bool" where
  "is_pubkey bs \<longleftrightarrow> length bs = 33 \<and> hd bs \<in> set PARITIES"

fun find_first_pubkey_loop :: "(ext_error + instruction) list \<Rightarrow> bytes option" where
  "find_first_pubkey_loop (Inr (PushBytes bs) # rest) =
     (if is_pubkey bs then Some bs else find_first_pubkey_loop rest)"
| "find_first_pubkey_loop (Inr (Op _) # rest) = find_first_pubkey_loop rest"
| "find_first_pubkey_loop (Inl _ # rest) = None"
| "find_first_pubkey_loop [] = None"

definition find_first_pubkey :: "bitcoin_ext \<Rightarrow> p2wsh_proof \<Rightarrow> bytes option" where
  "find_first_pubkey X pf = find_first_pubkey_loop (x_instructions X (wsh_script pf))"

definition check_pubkey :: "bitcoin_ext \<Rightarrow> p2wsh_proof \<Rightarrow> p2wsh_proof_error + unit" where
  "check_pubkey X pf =
     bindE (map_err WshTweakPanic (tweak X (wsh_pixel pf) (wsh_inner_key pf))) (\<lambda>tweaked.
     bindE (ok_or MissingPubkey (find_first_pubkey X pf)) (\<lambda>found.
     failIf (found \<noteq> x_pubkey_serialize X tweaked) PubkeyMismatch))"

definition p2wsh_address_script :: "bitcoin_ext \<Rightarrow> p2wsh_proof \<Rightarrow> script" where
  "p2wsh_address_script X pf = x_new_v0_p2wsh X (x_wscript_hash X (wsh_script pf))"

definition p2wsh_check_by_input ::
  "bitcoin_ext \<Rightarrow> p2wsh_proof \<Rightarrow> txin \<Rightarrow> p2wsh_proof_error + unit" where
  "p2wsh_check_by_input X pf i =
     bindE (check_pubkey X pf) (\<lambda>_.
     bindE (map_err InvalidWitness (p2wsh_from_witness raw_from_stack (txin_witness i)))
       (\<lambda>(stack, redeem). failIf (redeem \<noteq> wsh_script pf) WshRedeemScriptMismatch))"

definition p2wsh_check_by_output ::
  "bitcoin_ext \<Rightarrow> p2wsh_proof \<Rightarrow> txout \<Rightarrow> p2wsh_proof_error + unit" where
  "p2wsh_check_by_output X pf out =
     bindE (check_pubkey X pf) (\<lambda>_.
     failIf (p2wsh_address_script X pf \<noteq> script_pubkey out) OutputScriptMismatch)"

section \<open>Multisig scripts and proofs\<close>

text \<open>\<open>push_smallint\<close>: \<open>None\<close> is the panic outside 1..16.\<close>

definition push_smallint :: "bitcoin_ext \<Rightarrow> u8 \<Rightarrow> script \<Rightarrow> script option" where
  "push_smallint X n b =
     (if 1 \<le> n \<and> n \<le> 16 then Some (x_push_opcode X (OP_PUSHNUM_1 - 1 + n) b) else None)"

definition multisig_to_script :: "bitcoin_ext \<Rightarrow> u8 \<Rightarrow> pubkey list \<Rightarrow> script option" where
  "multisig_to_script X m keys =
     Option.bind (push_smallint X (of_nat (length keys)) []) (\<lambda>b.
     Option.bind
       (push_smallint X m (build_on b (map (\<lambda>pk. x_push_slice X (x_pubkey_serialize X pk)) keys)))
       (\<lambda>b. Some (x_push_opcode X OP_CHECKMULTISIG b)))"

fun instruction_to_smallint :: "instruction \<Rightarrow> multisig_script_error + u8" where
  "instruction_to_smallint (Op op) =
     (if OP_PUSHNUM_1 \<le> op \<and> op \<le> OP_PUSHNUM_16 then Inr (op - OP_PUSHNUM_1 + 1)
      else Inl InvalidScript)"
| "instruction_to_smallint (PushBytes _) = Inl InvalidScript"

text \<open>\<open>instructions.next()\<close> with both of its failures mapped to \<open>InvalidScript\<close>.\<close>

fun next_instruction ::
  "(ext_error + instruction) list \<Rightarrow>
   multisig_script_error + instruction \<times> (ext_error + instruction) list" where
  "next_instruction [] = Inl InvalidScript"
| "next_instruction (Inl _ # rest) = Inl InvalidScript"
| "next_instruction (Inr i # rest) = Inr (i, rest)"

primrec take_pubkeys ::
  "bitcoin_ext \<Rightarrow> nat \<Rightarrow> (ext_error + instruction) list \<Rightarrow>
   multisig_script_error + pubkey list \<times> (ext_error + instruction) list" where
  "take_pubkeys X 0 is = Inr ([], is)"
| "take_pubkeys X (Suc n) is =
     bindE (next_instruction is) (\<lambda>(i, rest).
       case i of
         Op _ \<Rightarrow> Inl InvalidScript
       | PushBytes bs \<Rightarrow>
           bindE (ok_or ParsePubkeyError (x_pubkey_from_slice X bs)) (\<lambda>pk.
           bindE (take_pubkeys X n rest) (\<lambda>(pks, rest'). Inr (pk # pks, rest'))))"

definition multisig_from_script ::
  "bitcoin_ext \<Rightarrow> script \<Rightarrow> multisig_script_error + u8 \<times> pubkey list" where
  "multisig_from_script X s =
     bindE (next_instruction (x_instructions X s)) (\<lambda>(i, is).
     bindE (instruction_to_smallint i) (\<lambda>pubkeys_number.
     bindE (take_pubkeys X (unat pubkeys_number) is) (\<lambda>(pubkeys, is).
     bindE (next_instruction is) (\<lambda>(i, is).
     bindE (instruction_to_smallint i) (\<lambda>required.
     bindE (failIf (is \<noteq> []) InvalidScript) (\<lambda>_.
     Inr (required, pubkeys)))))))"

definition multisig_new :: "bitcoin_ext \<Rightarrow> pixel \<Rightarrow> pubkey list \<Rightarrow> u8 \<Rightarrow> multisig_proof" where
  "multisig_new X p inner_keys m =
     \<lparr>ms_pixel = p, ms_inner_keys = sort_by (x_pubkey_le X) inner_keys, ms_m = m\<rparr>"

definition sort_and_tweak_keys ::
  "bitcoin_ext \<Rightarrow> multisig_proof \<Rightarrow> multisig_proof_error + pubkey list" where
  "sort_and_tweak_keys X pf =
     (case sort_by (x_pubkey_le X) (ms_inner_keys pf) of
        [] \<Rightarrow> Inl (InvalidNumberOfInnerKeys 0 1)
      | first_key # others \<Rightarrow>
          bindE (map_err MsPixelKey (pixel_key_new X (pixel_hash X (ms_pixel pf)) first_key))
            (\<lambda>pixel_key. Inr (pixel_key # others)))"

definition create_multisig_redeem_script ::
  "bitcoin_ext \<Rightarrow> multisig_proof \<Rightarrow> multisig_proof_error + script" where
  "create_multisig_redeem_script X pf =
     bindE (sort_and_tweak_keys X pf) (\<lambda>keys.
     ok_or SmallIntPanic (multisig_to_script X (ms_m pf) keys))"

definition multisig_check_by_parsed_witness_data ::
  "bitcoin_ext \<Rightarrow> multisig_proof \<Rightarrow> ecdsa_sig list \<Rightarrow> script \<Rightarrow> multisig_proof_error + unit" where
  "multisig_check_by_parsed_witness_data X pf signatures redeem =
     bindE (failIf (length signatures \<noteq> unat (ms_m pf))
              (InvalidNumberOfSignatures (length signatures) (unat (ms_m pf)))) (\<lambda>_.
     bindE (create_multisig_redeem_script X pf) (\<lambda>expected.
     failIf (expected \<noteq> redeem) MsRedeemScriptMismatch))"

definition multisig_check_by_input ::
  "bitcoin_ext \<Rightarrow> multisig_proof \<Rightarrow> txin \<Rightarrow> multisig_proof_error + unit" where
  "multisig_check_by_input X pf i =
     bindE (map_err MsWitnessParse (p2wsh_from_witness (sigs_from_stack X) (txin_witness i)))
       (\<lambda>(stack, redeem). multisig_check_by_parsed_witness_data X pf stack redeem)"

definition multisig_check_by_output ::
  "bitcoin_ext \<Rightarrow> multisig_proof \<Rightarrow> txout \<Rightarrow> multisig_proof_error + unit" where
  "multisig_check_by_output X pf out =
     bindE (create_multisig_redeem_script X pf) (\<lambda>expected.
     failIf (script_pubkey out \<noteq> x_to_v0_p2wsh X expected) MsRedeemScriptMismatch)"

text \<open>\<open>TryFrom<MultisigPixelProof> for P2WSHProof\<close>\<close>

definition p2wsh_of_multisig ::
  "bitcoin_ext \<Rightarrow> multisig_proof \<Rightarrow> multisig_proof_error + p2wsh_proof" where
  "p2wsh_of_multisig X pf =
     bindE (sort_and_tweak_keys X pf) (\<lambda>keys.
       case keys of
         [] \<Rightarrow> Inl (InvalidNumberOfInnerKeys 0 1)
       | first # _ \<Rightarrow>
           bindE (create_multisig_redeem_script X pf) (\<lambda>script.
           Inr \<lparr>wsh_pixel = ms_pixel pf, wsh_inner_key = first, wsh_script = script\<rparr>))"

section \<open>Lightning commitment proofs\<close>

definition to_local_to_script :: "bitcoin_ext \<Rightarrow> to_local_script \<Rightarrow> script" where
  "to_local_to_script X v =
     build_on []
       [x_push_opcode X OP_IF,
        x_push_slice X (x_pubkey_serialize X (revocation_pubkey v)),
        x_push_opcode X OP_ELSE,
        x_push_int X (uint (to_self_delay v)),
        x_push_opcode X OP_CSV,
        x_push_opcode X OP_DROP,
        x_push_slice X (x_pubkey_serialize X (local_delayed_pubkey v)),
        x_push_opcode X OP_ENDIF,
        x_push_opcode X OP_CHECKSIG]"

text \<open>The messages of \<open>Custom\<close> do not carry the stack length that the source prints.\<close>

definition lightning_from_stack ::
  "bitcoin_ext \<Rightarrow> bytes list \<Rightarrow> p2wsh_witness_error + ecdsa_sig \<times> bool" where
  "lightning_from_stack X stack =
     (if length stack \<noteq> 2 then Inl (Custom ''invalid witness length should be 3'')
      else bindE (map_err (\<lambda>_. Custom ''invalid signature in witness'')
                    (x_sig_from_slice X (stack ! 0))) (\<lambda>signature.
           if length (stack ! 1) \<noteq> 1 then Inl (Custom ''invalid is_revocation flag'')
           else Inr (signature, stack ! 1 ! 0 = 0x01)))"

definition lightning_into_stack ::
  "(ecdsa_sig \<Rightarrow> bytes) \<Rightarrow> ecdsa_sig \<times> bool \<Rightarrow> bytes list" where
  "lightning_into_stack sig_serialize st =
     [sig_serialize (fst st), [if snd st then 0x01 else 0x00]]"

definition lightning_to_redeem_script ::
  "bitcoin_ext \<Rightarrow> lightning_proof \<Rightarrow> lightning_proof_error + to_local_script" where
  "lightning_to_redeem_script X pf =
     bindE (map_err LnPixelKey (pixel_key_new X (pixel_hash X (ln_pixel pf))
              (revocation_pubkey (ln_data pf)))) (\<lambda>tweaked.
     Inr \<lparr>revocation_pubkey = tweaked, to_self_delay = to_self_delay (ln_data pf),
          local_delayed_pubkey = local_delayed_pubkey (ln_data pf)\<rparr>)"

definition lightning_to_script_pubkey ::
  "bitcoin_ext \<Rightarrow> lightning_proof \<Rightarrow> lightning_proof_error + script" where
  "lightning_to_script_pubkey X pf =
     bindE (lightning_to_redeem_script X pf) (\<lambda>r. Inr (x_to_v0_p2wsh X (to_local_to_script X r)))"

definition lightning_check_by_input ::
  "bitcoin_ext \<Rightarrow> lightning_proof \<Rightarrow> txin \<Rightarrow> lightning_proof_error + unit" where
  "lightning_check_by_input X pf i =
     bindE (map_err InvalidWitnessData
              (p2wsh_from_witness (lightning_from_stack X) (txin_witness i))) (\<lambda>(stack, redeem).
     bindE (lightning_to_redeem_script X pf) (\<lambda>expected.
     failIf (to_local_to_script X expected \<noteq> redeem)
       (LnRedeemScriptMismatch (to_local_to_script X expected) redeem)))"

definition lightning_check_by_output ::
  "bitcoin_ext \<Rightarrow> lightning_proof \<Rightarrow> txout \<Rightarrow> lightning_proof_error + unit" where
  "lightning_check_by_output X pf out =
     bindE (lightning_to_script_pubkey X pf) (\<lambda>expected.
     failIf (script_pubkey out \<noteq> expected) (MismatchScriptPubkey expected (script_pubkey out)))"

text \<open>
  \<open>TryFrom<&ScriptBuf> for ToLocalScript\<close>: the loop over the expected opcodes collects the
  parsed keys, each possibly a failure, and the delay; the failures surface only in the
  final \<open>unwrap\<close>.
\<close>

definition SCRIPT_OPCODES :: "u8 list" where
  "SCRIPT_OPCODES = [OP_IF, OP_PUSHBYTES_33, OP_ELSE, OP_PUSHNUM_2, OP_CSV, OP_DROP, OP_PUSHBYTES_33, OP_ENDIF,
   OP_CHECKSIG]"

definition REVOCATION_PUBKEY_INDEX :: nat where
  "REVOCATION_PUBKEY_INDEX = 1"

definition TO_SELF_DELAY_INDEX :: nat where
  "TO_SELF_DELAY_INDEX = 3"

definition LOCAL_DELAYED_PUBKEY_INDEX :: nat where
  "LOCAL_DELAYED_PUBKEY_INDEX = 6"

fun to_local_loop ::
  "bitcoin_ext \<Rightarrow> nat \<Rightarrow> u8 list \<Rightarrow> (ext_error + instruction) list \<Rightarrow>
   pubkey option list \<Rightarrow> u16 option \<Rightarrow> to_local_parse_error + pubkey option list \<times> u16 option" where
  "to_local_loop X index [] is pks delay = Inr (pks, delay)"
| "to_local_loop X index (opcode # ops) is pks delay =
     (case is of
        [] \<Rightarrow> Inl (UnexpectedInstruction opcode index)
      | Inl e # _ \<Rightarrow> Inl (ScriptError e)
      | Inr (PushBytes data) # rest \<Rightarrow>
          if index = REVOCATION_PUBKEY_INDEX \<or> index = LOCAL_DELAYED_PUBKEY_INDEX then
            to_local_loop X (index + 1) ops rest (pks @ [x_pubkey_from_slice X data]) delay
          else if index = TO_SELF_DELAY_INDEX then
            (if length data \<noteq> 2 then Inl ToSelfDelay
             else to_local_loop X (index + 1) ops rest pks (Some (from_le_bytes data)))
          else Inl (UnexpectedInstruction opcode index)
      | Inr (Op op) # rest \<Rightarrow>
          if op = opcode then to_local_loop X (index + 1) ops rest pks delay
          else Inl (UnexpectedInstruction opcode index))"

definition to_local_from_script ::
  "bitcoin_ext \<Rightarrow> script \<Rightarrow> to_local_parse_error + to_local_script" where
  "to_local_from_script X s =
     bindE (to_local_loop X 0 SCRIPT_OPCODES (x_instructions X s) [] None) (\<lambda>(pks, delay).
       case (pks, delay) of
         ([r, l], Some d) \<Rightarrow>
           (case (r, l) of
              (Some rk, Some lk) \<Rightarrow>
                Inr \<lparr>revocation_pubkey = rk, to_self_delay = d, local_delayed_pubkey = lk\<rparr>
            | _ \<Rightarrow> Inl UnwrapPanic)
       | _ \<Rightarrow> Inl EarlyEndOfScript)"

section \<open>Lightning HTLC proofs\<close>

definition PAYMENT_HASH_SIZE :: int where
  "PAYMENT_HASH_SIZE = 32"

definition push_local_key_multisig_check ::
  "bitcoin_ext \<Rightarrow> pubkey \<Rightarrow> (script \<Rightarrow> script) list" where
  "push_local_key_multisig_check X pk =
     [x_push_int X 2, x_push_opcode X OP_SWAP, x_push_key X pk, x_push_int X 2,
      x_push_opcode X OP_CHECKMULTISIG]"

definition push_payment_hash_check :: "bitcoin_ext \<Rightarrow> bytes \<Rightarrow> (script \<Rightarrow> script) list" where
  "push_payment_hash_check X h =
     [x_push_opcode X OP_HASH160, x_push_slice X h, x_push_opcode X OP_EQUALVERIFY]"

definition htlc_data_to_script :: "bitcoin_ext \<Rightarrow> htlc_data \<Rightarrow> script" where
  "htlc_data_to_script X d =
     (let b = build_on []
            [x_push_opcode X OP_DUP, x_push_opcode X OP_HASH160,
             x_push_slice X (revocation_key_hash d), x_push_opcode X OP_EQUAL,
             x_push_opcode X OP_IF, x_push_opcode X OP_CHECKSIG, x_push_opcode X OP_ELSE,
             x_push_key X (remote_htlc_key d), x_push_opcode X OP_SWAP, x_push_opcode X OP_SIZE,
             x_push_int X PAYMENT_HASH_SIZE, x_push_opcode X OP_EQUAL];
          b = (case htlc_kind d of
                 Offered \<Rightarrow>
                   build_on b
                     ([x_push_opcode X OP_NOTIF, x_push_opcode X OP_DROP] @
                      push_local_key_multisig_check X (local_htlc_key d) @
                      [x_push_opcode X OP_ELSE] @
                      push_payment_hash_check X (payment_hash d))
               | Received cltv_expiry \<Rightarrow>
                   build_on b
                     ([x_push_opcode X OP_IF] @
                      push_payment_hash_check X (payment_hash d) @
                      push_local_key_multisig_check X (local_htlc_key d) @
                      [x_push_opcode X OP_ELSE, x_push_opcode X OP_DROP,
                       x_push_int X (uint cltv_expiry), x_push_opcode X OP_CLTV,
                       x_push_opcode X OP_DROP]))
      in build_on b [x_push_opcode X OP_CHECKSIG, x_push_opcode X OP_ENDIF, x_push_opcode X OP_ENDIF])"

definition htlc_script_hash :: "bitcoin_ext \<Rightarrow> htlc_data \<Rightarrow> bytes" where
  "htlc_script_hash X d = x_wscript_hash X (htlc_data_to_script X d)"

definition htlc_to_script :: "bitcoin_ext \<Rightarrow> htlc_proof \<Rightarrow> htlc_proof_error + htlc_data" where
  "htlc_to_script X pf =
     bindE (map_err HtlcTweakPanic (tweak X (htlc_pixel pf) (remote_htlc_key (htlc_data pf)))) (\<lambda>k.
     Inr ((htlc_data pf)\<lparr>remote_htlc_key := k\<rparr>))"

definition htlc_check_by_input ::
  "bitcoin_ext \<Rightarrow> htlc_proof \<Rightarrow> txin \<Rightarrow> htlc_proof_error + unit" where
  "htlc_check_by_input X pf i =
     (if txin_witness i = [] then Inl InvalidWitnessProgramStructure
      else let got = x_sha256 X (last (txin_witness i)) in
        bindE (htlc_to_script X pf) (\<lambda>s.
        failIf (got \<noteq> htlc_script_hash X s) (ScriptHashMismatch got (htlc_script_hash X s))))"

definition htlc_check_by_output ::
  "bitcoin_ext \<Rightarrow> htlc_proof \<Rightarrow> txout \<Rightarrow> htlc_proof_error + unit" where
  "htlc_check_by_output X pf out =
     bindE (htlc_to_script X pf) (\<lambda>s.
       let expected = htlc_script_hash X s; instrs = x_instructions X (script_pubkey out) in
       if \<not> x_is_v0_p2wsh X (script_pubkey out) then Inl InvalidScriptKind
       else if instrs = [] then Inl InvalidWitnessProgramStructure
       else case last instrs of
              Inr (PushBytes h) \<Rightarrow>
                bindE (ok_or (InvalidWScriptHashSize (length h)) (x_hash_from_slice X h)) (\<lambda>got.
                failIf (expected \<noteq> got) (ScriptHashMismatch got expected))
            | _ \<Rightarrow> Inl InvalidWitnessProgramStructure)"

section \<open>The proof of a transaction input or output\<close>

fun pixel_of_proof :: "bitcoin_ext \<Rightarrow> pixel_proof \<Rightarrow> pixel" where
  "pixel_of_proof X (Sig pf) = sig_pixel pf"
| "pixel_of_proof X (P2WSH pf) = wsh_pixel pf"
| "pixel_of_proof X (EmptyPixel _) = pixel_empty X"
| "pixel_of_proof X (Multisig pf) = ms_pixel pf"
| "pixel_of_proof X (Lightning pf) = ln_pixel pf"
| "pixel_of_proof X (LightningHtlc pf) = htlc_pixel pf"

definition proof_amount :: "bitcoin_ext \<Rightarrow> pixel_proof \<Rightarrow> u128" where
  "proof_amount X pf = amount (luma (pixel_of_proof X pf))"

definition is_zero_amount :: "bitcoin_ext \<Rightarrow> pixel_proof \<Rightarrow> bool" where
  "is_zero_amount X pf \<longleftrightarrow> proof_amount X pf = 0"

fun is_burn :: "bitcoin_ext \<Rightarrow> pixel_proof \<Rightarrow> bool" where
  "is_burn X (Sig pf) = (sig_inner_key pf = ZERO_PUBLIC_KEY X)"
| "is_burn X _ = False"

fun is_empty_pixelproof :: "pixel_proof \<Rightarrow> bool" where
  "is_empty_pixelproof (EmptyPixel _) = True"
| "is_empty_pixelproof _ = False"

fun checked_check_by_input ::
  "bitcoin_ext \<Rightarrow> pixel_proof \<Rightarrow> txin \<Rightarrow> pixel_proof_error + unit" where
  "checked_check_by_input X (Sig pf) i = map_err P2wpkhError (sig_check_by_input X pf i)"
| "checked_check_by_input X (P2WSH pf) i = map_err P2wshError (p2wsh_check_by_input X pf i)"
| "checked_check_by_input X (EmptyPixel pf) i = map_err P2wpkhError (empty_check_by_input X pf i)"
| "checked_check_by_input X (Multisig pf) i =
     map_err MultisigError (multisig_check_by_input X pf i)"
| "checked_check_by_input X (Lightning pf) i =
     map_err LightningError (lightning_check_by_input X pf i)"
| "checked_check_by_input X (LightningHtlc pf) i =
     map_err LightningHtlcError (htlc_check_by_input X pf i)"

fun checked_check_by_output ::
  "bitcoin_ext \<Rightarrow> pixel_proof \<Rightarrow> txout \<Rightarrow> pixel_proof_error + unit" where
  "checked_check_by_output X (Sig pf) out = map_err P2wpkhError (sig_check_by_output X pf out)"
| "checked_check_by_output X (EmptyPixel pf) out =
     map_err P2wpkhError (empty_check_by_output X pf out)"
| "checked_check_by_output X (Multisig pf) out =
     map_err MultisigError (multisig_check_by_output X pf out)"
| "checked_check_by_output X (Lightning pf) out =
     map_err LightningError (lightning_check_by_output X pf out)"
| "checked_check_by_output X (LightningHtlc pf) out =
     map_err LightningHtlcError (htlc_check_by_output X pf out)"
| "checked_check_by_output X (P2WSH pf) out = map_err P2wshError (p2wsh_check_by_output X pf out)"

definition check_by_input :: "bitcoin_ext \<Rightarrow> pixel_proof \<Rightarrow> txin \<Rightarrow> bool" where
  "check_by_input X pf i \<longleftrightarrow> is_ok (checked_check_by_input X pf i)"

definition check_by_output :: "bitcoin_ext \<Rightarrow> pixel_proof \<Rightarrow> txout \<Rightarrow> bool" where
  "check_by_output X pf out \<longleftrightarrow> is_ok (checked_check_by_output X pf out)"

section \<open>Results of the checks\<close>

lemma check_by_input_Inr: "check_by_input X pf i \<longleftrightarrow> checked_check_by_input X pf i = Inr ()"
  by (cases "checked_check_by_input X pf i") (simp_all add: check_by_input_def)

lemma check_by_output_Inr: "check_by_output X pf out \<longleftrightarrow> checked_check_by_output X pf out = Inr ()"
  by (cases "checked_check_by_output X pf out") (simp_all add: check_by_output_def)

lemma p2wpkh_check_by_key_ok:
  "p2wpkh_check_by_key X p ik pk = Inr () \<longleftrightarrow> pixel_key_new X (pixel_hash X p) ik = Inr pk"
  by (auto simp: p2wpkh_check_by_key_def result_simps)

lemma p2wpkh_check_by_script_ok:
  "p2wpkh_check_by_script X p ik spk = Inr () \<longleftrightarrow>
     (\<exists>pk. pixel_key_new X (pixel_hash X p) ik = Inr pk \<and> pixel_key_to_p2wpkh X pk = Some spk)"
  by (auto simp: p2wpkh_check_by_script_def result_simps)

lemma p2wpkh_from_witness_ok:
  "p2wpkh_from_witness X w = Inr (sg, pk) \<longleftrightarrow>
     (\<exists>s k. w = [s, k] \<and> x_sig_from_slice X s = Inr sg \<and> x_pubkey_from_slice X k = Some pk)"
  by (auto simp: p2wpkh_from_witness_def result_simps split: list.splits)

lemma p2wsh_from_witness_ok:
  "p2wsh_from_witness f w = Inr (st, r) \<longleftrightarrow> w \<noteq> [] \<and> f (butlast w) = Inr st \<and> r = last w"
  by (auto simp: p2wsh_from_witness_def result_simps)

lemma p2wsh_from_into_witness:
  "f (g st) = Inr st \<Longrightarrow> p2wsh_from_witness f (p2wsh_into_witness g st r) = Inr (st, r)"
  by (simp add: p2wsh_from_witness_def p2wsh_into_witness_def)

lemmas proof_check_ok = p2wpkh_check_by_key_ok p2wpkh_check_by_script_ok p2wpkh_from_witness_ok
  p2wsh_from_witness_ok

text \<open>
  What the chain requires of a witness that spends an output: for the key kinds the
  second item is a key whose hash the script locks, for the script kinds the last item is
  the script whose hash it locks.
\<close>

definition spends_p2wpkh :: "bitcoin_ext \<Rightarrow> witness \<Rightarrow> script \<Rightarrow> bool" where
  "spends_p2wpkh X w spk \<longleftrightarrow>
     (\<exists>s k pk. w = [s, k] \<and> x_pubkey_from_slice X k = Some pk \<and>
        pixel_key_to_p2wpkh X pk = Some spk)"

fun spends :: "bitcoin_ext \<Rightarrow> pixel_proof \<Rightarrow> witness \<Rightarrow> script \<Rightarrow> bool" where
  "spends X (Sig _) w spk = spends_p2wpkh X w spk"
| "spends X (EmptyPixel _) w spk = spends_p2wpkh X w spk"
| "spends X (Multisig _) w spk = (w \<noteq> [] \<and> spk = x_to_v0_p2wsh X (last w))"
| "spends X (Lightning _) w spk = (w \<noteq> [] \<and> spk = x_to_v0_p2wsh X (last w))"
| "spends X (P2WSH _) w spk = (w \<noteq> [] \<and> spk = x_new_v0_p2wsh X (x_wscript_hash X (last w)))"
| "spends X (LightningHtlc _) w spk =
     (w \<noteq> [] \<and> (\<exists>h. last (x_instructions X spk) = Inr (PushBytes h) \<and>
        x_hash_from_slice X h = Some (x_sha256 X (last w))))"

lemma sig_spends:
  assumes "sig_check_by_input X pf i = Inr ()" and "sig_check_by_output X pf out = Inr ()"
  shows "spends_p2wpkh X (txin_witness i) (script_pubkey out)"
  using assms
  by (auto simp: sig_check_by_input_def sig_check_by_output_def spends_p2wpkh_def proof_check_ok
      result_simps)

lemma empty_spends:
  assumes "empty_check_by_input X pf i = Inr ()" and "empty_check_by_output X pf out = Inr ()"
  shows "spends_p2wpkh X (txin_witness i) (script_pubkey out)"
  using assms
  by (auto simp: empty_check_by_input_def empty_check_by_output_def spends_p2wpkh_def proof_check_ok
      result_simps)

lemma multisig_spends:
  assumes "multisig_check_by_input X pf i = Inr ()" and "multisig_check_by_output X pf out = Inr ()"
  shows "txin_witness i \<noteq> [] \<and> script_pubkey out = x_to_v0_p2wsh X (last (txin_witness i))"
  using assms
  by (auto simp: multisig_check_by_input_def multisig_check_by_output_def
      multisig_check_by_parsed_witness_data_def proof_check_ok result_simps)

lemma lightning_spends:
  assumes "lightning_check_by_input X pf i = Inr ()"
    and "lightning_check_by_output X pf out = Inr ()"
  shows "txin_witness i \<noteq> [] \<and> script_pubkey out = x_to_v0_p2wsh X (last (txin_witness i))"
  using assms
  by (auto simp: lightning_check_by_input_def lightning_check_by_output_def
      lightning_to_script_pubkey_def proof_check_ok result_simps)

lemma p2wsh_spends:
  assumes "p2wsh_check_by_input X pf i = Inr ()" and "p2wsh_check_by_output X pf out = Inr ()"
  shows "txin_witness i \<noteq> [] \<and>
    script_pubkey out = x_new_v0_p2wsh X (x_wscript_hash X (last (txin_witness i)))"
  using assms
  by (auto simp: p2wsh_check_by_input_def p2wsh_check_by_output_def p2wsh_address_script_def
      proof_check_ok result_simps)

lemma htlc_spends:
  assumes "htlc_check_by_input X pf i = Inr ()" and "htlc_check_by_output X pf out = Inr ()"
  shows "txin_witness i \<noteq> [] \<and>
    (\<exists>h. last (x_instructions X (script_pubkey out)) = Inr (PushBytes h) \<and>
         x_hash_from_slice X h = Some (x_sha256 X (last (txin_witness i))))"
  using assms
  by (auto simp: htlc_check_by_input_def htlc_check_by_output_def Let_def result_simps
      split: if_splits sum.splits instruction.splits)

text \<open>C24. Input and output checks agree on the coin: when a proof passes the check against an
  output and also against an input, the witness of the input is one that the chain accepts
  for that output's script: it shows the key, or the redeem script, that the output locks.
\<close>

theorem check_input_output_spends:
  assumes "check_by_input X pf i" and "check_by_output X pf out"
  shows "spends X pf (txin_witness i) (script_pubkey out)"
  using assms unfolding check_by_input_Inr check_by_output_Inr
  by (cases pf)
     (simp_all add: result_simps sig_spends empty_spends multisig_spends lightning_spends
        p2wsh_spends htlc_spends)

definition sample_sig :: pixel_proof where
  "sample_sig = Sig \<lparr>sig_pixel = sample_pixel 5 1, sig_inner_key = sample_public 7\<rparr>"

definition sample_spk :: script where
  "sample_spk = sample_wsh (sample_hash160 (sample_public 22))"

definition sample_in :: txin where
  "sample_in = \<lparr>previous_output = \<lparr>op_txid = replicate 32 0, op_vout = 0\<rparr>, script_sig = [],
     txin_sequence = 0, txin_witness = [[1], sample_public 22]\<rparr>"

definition sample_out :: txout where
  "sample_out = \<lparr>txout_value = 1000, script_pubkey = sample_spk\<rparr>"

theorem check_input_output_spends_witness:
  "spends sample_ext sample_sig (txin_witness sample_in) (script_pubkey sample_out)"
proof (rule check_input_output_spends)
  show "check_by_input sample_ext sample_sig sample_in" by code_simp
  show "check_by_output sample_ext sample_sig sample_out" by code_simp
qed

section \<open>The order of multisig keys\<close>

text \<open>\<open>Ord for PublicKey\<close> is a linear order.\<close>

definition pubkey_order :: "bitcoin_ext \<Rightarrow> bool" where
  "pubkey_order X \<longleftrightarrow>
     (\<forall>a b. x_pubkey_le X a b \<or> x_pubkey_le X b a) \<and>
     (\<forall>a b c. x_pubkey_le X a b \<longrightarrow> x_pubkey_le X b c \<longrightarrow> x_pubkey_le X a c) \<and>
     (\<forall>a b. x_pubkey_le X a b \<longrightarrow> x_pubkey_le X b a \<longrightarrow> a = b)"

lemma sort_keys_cong:
  assumes "pubkey_order X" and "mset ks = mset ks'"
  shows "sort_by (x_pubkey_le X) ks = sort_by (x_pubkey_le X) ks'"
proof (rule sort_by_cong)
  show "x_pubkey_le X a b \<or> x_pubkey_le X b a" for a b
    using assms(1) by (simp add: pubkey_order_def)
  show "x_pubkey_le X a b \<Longrightarrow> x_pubkey_le X b c \<Longrightarrow> x_pubkey_le X a c" for a b c
    using assms(1) unfolding pubkey_order_def by blast
  show "x_pubkey_le X a b \<Longrightarrow> x_pubkey_le X b a \<Longrightarrow> a = b" for a b
    using assms(1) unfolding pubkey_order_def by blast
qed (fact assms(2))

lemma sort_keys_idem:
  "pubkey_order X \<Longrightarrow> sort_by (x_pubkey_le X) (sort_by (x_pubkey_le X) ks) = sort_by (x_pubkey_le X) ks"
  by (rule sort_keys_cong) (simp_all add: mset_sort_by)

lemma redeem_script_of_keys:
  "ms_pixel pf = ms_pixel pf' \<Longrightarrow> ms_m pf = ms_m pf' \<Longrightarrow>
   sort_by (x_pubkey_le X) (ms_inner_keys pf) = sort_by (x_pubkey_le X) (ms_inner_keys pf') \<Longrightarrow>
   create_multisig_redeem_script X pf = create_multisig_redeem_script X pf'"
  by (simp add: create_multisig_redeem_script_def sort_and_tweak_keys_def split: list.split)

section \<open>Scripts built and parsed\<close>

lemma sample_pubkey_order: "pubkey_order sample_ext"
  unfolding pubkey_order_def sample_ext_def
  using sample_le_total sample_le_antisym sample_le_trans by (simp; blast?)

lemma build_keys_instructions:
  assumes "builder_laws X" and "list_all (wf_pubkey X) keys"
  shows "list_all is_ok (x_instructions X s) \<Longrightarrow>
    x_instructions X (build_on s (map (\<lambda>pk. x_push_slice X (x_pubkey_serialize X pk)) keys)) =
    x_instructions X s @ map (\<lambda>pk. Inr (PushBytes (x_pubkey_serialize X pk))) keys"
  using assms
  by (induction keys arbitrary: s) (simp_all add: build_on_def builder_laws_def wf_pubkey_def)

lemma pushnum_ge: "1 \<le> n \<Longrightarrow> n \<le> 16 \<Longrightarrow> 0x4f \<le> OP_PUSHNUM_1 - 1 + n \<and>
    OP_PUSHNUM_1 \<le> OP_PUSHNUM_1 - 1 + n \<and> OP_PUSHNUM_1 - 1 + n \<le> OP_PUSHNUM_16"
  for n :: u8
  by (simp add: opcode_defs word_le_nat_alt unat_word_ariths)

lemma multisig_to_script_instructions:
  assumes laws: "builder_laws X" and wf: "list_all (wf_pubkey X) keys"
    and s: "multisig_to_script X m keys = Some s"
  shows "x_instructions X s =
    Inr (Op (OP_PUSHNUM_1 - 1 + of_nat (length keys))) #
    map (\<lambda>pk. Inr (PushBytes (x_pubkey_serialize X pk))) keys @
    [Inr (Op (OP_PUSHNUM_1 - 1 + m)), Inr (Op OP_CHECKMULTISIG)]"
proof -
  let ?n = "of_nat (length keys) :: u8"
  from s have n: "1 \<le> ?n" "?n \<le> 16" and m: "1 \<le> m" "m \<le> 16"
    by (auto simp: multisig_to_script_def push_smallint_def split: if_splits bind_splits)
  let ?b = "x_push_opcode X (OP_PUSHNUM_1 - 1 + ?n) []"
  have b: "x_instructions X ?b = [Inr (Op (OP_PUSHNUM_1 - 1 + ?n))]"
    using laws pushnum_ge [OF n] by (simp add: builder_laws_def)
  let ?c = "build_on ?b (map (\<lambda>pk. x_push_slice X (x_pubkey_serialize X pk)) keys)"
  have c: "x_instructions X ?c = x_instructions X ?b @
      map (\<lambda>pk. Inr (PushBytes (x_pubkey_serialize X pk))) keys"
    by (rule build_keys_instructions [OF laws wf]) (simp add: b)
  have ok: "list_all is_ok (x_instructions X ?c)"
    by (simp add: b c list_all_iff)
  have d: "x_instructions X (x_push_opcode X (OP_PUSHNUM_1 - 1 + m) ?c) =
      x_instructions X ?c @ [Inr (Op (OP_PUSHNUM_1 - 1 + m))]"
    using laws ok pushnum_ge [OF m] by (simp add: builder_laws_def)
  have "s = x_push_opcode X OP_CHECKMULTISIG (x_push_opcode X (OP_PUSHNUM_1 - 1 + m) ?c)"
    using s n m by (simp add: multisig_to_script_def push_smallint_def)
  with laws ok d b c show ?thesis
    by (simp add: builder_laws_def opcode_defs)
qed

lemma take_pubkeys_pushed:
  "n \<le> length keys \<Longrightarrow> list_all (wf_pubkey X) keys \<Longrightarrow>
   take_pubkeys X n (map (\<lambda>pk. Inr (PushBytes (x_pubkey_serialize X pk))) keys @ rest) =
   Inr (take n keys, map (\<lambda>pk. Inr (PushBytes (x_pubkey_serialize X pk))) (drop n keys) @ rest)"
  by (induction keys arbitrary: n) (simp_all add: wf_pubkey_def take_Cons' drop_Cons' gr0_conv_Suc
      split: nat.splits, auto)

lemma smallint_of_pushnum:
  "1 \<le> n \<Longrightarrow> n \<le> 16 \<Longrightarrow> instruction_to_smallint (Op (OP_PUSHNUM_1 - 1 + n)) = Inr n"
  using pushnum_ge [of n] by (simp add: opcode_defs)

lemma unat_of_nat_u8_le: "unat (of_nat n :: u8) \<le> n"
  by (simp add: unat_of_nat take_bit_eq_mod)

text \<open>The multisig script parser does not accept the script writer's own output: for every
  list of keys and every threshold for which \<open>to_script\<close> returns, \<open>from_script\<close> of the
  result is \<open>InvalidScript\<close>, because the trailing \<open>OP_CHECKMULTISIG\<close> is still in the
  iterator at the check that nothing follows.
\<close>

lemma multisig_from_script_rejects_to_script:
  assumes laws: "builder_laws X" and wf: "list_all (wf_pubkey X) keys"
    and s: "multisig_to_script X m keys = Some s"
  shows "multisig_from_script X s = Inl InvalidScript"
proof -
  let ?n = "of_nat (length keys) :: u8"
  from s have n: "1 \<le> ?n" "?n \<le> 16" and m: "1 \<le> m" "m \<le> 16"
    by (auto simp: multisig_to_script_def push_smallint_def split: if_splits bind_splits)
  note ins = multisig_to_script_instructions [OF laws wf s]
  note parsed = take_pubkeys_pushed [OF unat_of_nat_u8_le wf]
  show ?thesis
  proof (cases "drop (unat ?n) keys")
    case Nil
    then show ?thesis
      unfolding multisig_from_script_def
      by (simp add: ins smallint_of_pushnum n m parsed del: instruction_to_smallint.simps)
  next
    case (Cons k ks)
    then show ?thesis
      unfolding multisig_from_script_def
      by (simp add: ins smallint_of_pushnum [OF n] parsed del: instruction_to_smallint.simps(1))
  qed
qed

lemma multisig_from_script_rejects_to_script_witness:
  "\<exists>s. multisig_to_script sample_ext 1 [sample_public 7, sample_public 9] = Some s \<and>
     multisig_from_script sample_ext s = Inl InvalidScript"
proof -
  have "\<exists>s. multisig_to_script sample_ext 1 [sample_public 7, sample_public 9] = Some s"
    by (simp add: multisig_to_script_def push_smallint_def)
  moreover have "list_all (wf_pubkey sample_ext) [sample_public 7, sample_public 9]"
    by simp
  ultimately show ?thesis
    using multisig_from_script_rejects_to_script [OF sample_builder_laws] by blast
qed

text \<open>The order in which the keys of a multisig proof are listed does not matter: proofs
  over the same keys in any order have the same redeem script, and \<open>MultisigPixelProof::new\<close>
  makes them equal.
\<close>

lemma multisig_key_order_irrelevant:
  assumes "pubkey_order X" and "mset keys = mset keys'"
  shows "multisig_new X p keys m = multisig_new X p keys' m \<and>
    create_multisig_redeem_script X \<lparr>ms_pixel = p, ms_inner_keys = keys, ms_m = m\<rparr> =
    create_multisig_redeem_script X (multisig_new X p keys' m)"
  using sort_keys_cong [OF assms] sort_keys_idem [OF assms(1)]
  by (auto simp: multisig_new_def intro: redeem_script_of_keys)

lemma multisig_key_order_irrelevant_witness:
  "create_multisig_redeem_script sample_ext
     \<lparr>ms_pixel = sample_pixel 5 1, ms_inner_keys = [sample_public 9, sample_public 7], ms_m = 1\<rparr> =
   create_multisig_redeem_script sample_ext
     (multisig_new sample_ext (sample_pixel 5 1) [sample_public 7, sample_public 9] 1)"
  using multisig_key_order_irrelevant [OF sample_pubkey_order,
      of "[sample_public 9, sample_public 7]" "[sample_public 7, sample_public 9]"]
  by simp

lemma check_pubkey_ok:
  "check_pubkey X pf = Inr () \<longleftrightarrow>
     (\<exists>k. tweak X (wsh_pixel pf) (wsh_inner_key pf) = Inr k \<and>
        find_first_pubkey X pf = Some (x_pubkey_serialize X k))"
  by (auto simp: check_pubkey_def result_simps)

text \<open>Converting a multisig proof into a P2WSH proof tweaks its first key twice: the
  converted proof passes its own key check exactly when tweaking the already tweaked
  first key again leaves its serialization unchanged.
\<close>

lemma p2wsh_of_multisig_tweaks_twice:
  assumes laws: "builder_laws X" and keys: "sort_and_tweak_keys X pf = Inr keys"
    and wf: "list_all (wf_pubkey X) keys" and first: "is_pubkey (x_pubkey_serialize X (hd keys))"
    and q: "p2wsh_of_multisig X pf = Inr q"
  shows "check_pubkey X q = Inr () \<longleftrightarrow>
    (\<exists>k. tweak X (ms_pixel pf) (hd keys) = Inr k \<and>
       x_pubkey_serialize X k = x_pubkey_serialize X (hd keys))"
proof -
  from keys obtain k ks where ks: "keys = k # ks"
    by (auto simp: sort_and_tweak_keys_def result_simps split: list.splits)
  with q keys obtain s where s: "multisig_to_script X (ms_m pf) keys = Some s"
    and qs: "q = \<lparr>wsh_pixel = ms_pixel pf, wsh_inner_key = k, wsh_script = s\<rparr>"
    by (auto simp: p2wsh_of_multisig_def create_multisig_redeem_script_def result_simps)
  have "find_first_pubkey X q = Some (x_pubkey_serialize X k)"
    using first by (simp add: find_first_pubkey_def qs ks
        multisig_to_script_instructions [OF laws wf s])
  then show ?thesis
    by (auto simp: check_pubkey_ok qs ks)
qed

lemma sample_is_pubkey: "is_pubkey (sample_public a)"
  by (simp add: is_pubkey_def PARITIES_def sample_public_def)

definition sample_multisig :: multisig_proof where
  "sample_multisig = multisig_new sample_ext (sample_pixel 5 1) [sample_public 7, sample_public 9] 1"

lemma p2wsh_of_multisig_tweaks_twice_witness:
  "\<exists>q. p2wsh_of_multisig sample_ext sample_multisig = Inr q \<and> check_pubkey sample_ext q \<noteq> Inr ()"
proof -
  have keys: "sort_and_tweak_keys sample_ext sample_multisig = Inr [sample_public 22, sample_public 9]"
    by code_simp
  have m: "ms_m sample_multisig = 1"
    by (simp add: sample_multisig_def multisig_new_def)
  obtain q where q: "p2wsh_of_multisig sample_ext sample_multisig = Inr q"
    by (simp add: p2wsh_of_multisig_def create_multisig_redeem_script_def keys m
        multisig_to_script_def push_smallint_def)
  have "tweak sample_ext (ms_pixel sample_multisig) (sample_public 22) = Inr (sample_public 52)"
    by code_simp
  then have "check_pubkey sample_ext q \<noteq> Inr ()"
    using p2wsh_of_multisig_tweaks_twice [OF sample_builder_laws keys _ _ q]
    by (simp add: sample_is_pubkey)
  with q show ?thesis by blast
qed

end
