(* ===== verification/Announcements.thy ===== *)
theory Announcements
  imports Sample_Ext
begin

text \<open>
  The announcements an issuer writes into \<open>OP_RETURN\<close> outputs
  (\<open>types/src/announcements/\<close>): the four kinds, their byte formats, the trait
  \<open>AnyAnnouncement\<close> with its provided methods, and the parsers that pick the kind from the
  bytes. A \<open>String\<close> is its UTF-8 bytes. The error strings that the source builds with
  \<open>to_string\<close> are kept as the error values they print.
\<close>

section \<open>Networks\<close>

datatype network = Bitcoin | Testnet | Signet | Regtest | Mutiny

datatype bitcoin_network = BitcoinNet | TestnetNet | SignetNet | RegtestNet | OtherNet

fun to_bitcoin_network :: "network \<Rightarrow> bitcoin_network" where
  "to_bitcoin_network Bitcoin = BitcoinNet"
| "to_bitcoin_network Testnet = TestnetNet"
| "to_bitcoin_network Signet = SignetNet"
| "to_bitcoin_network Regtest = RegtestNet"
| "to_bitcoin_network _ = TestnetNet"

fun network_of_bitcoin :: "bitcoin_network \<Rightarrow> network" where
  "network_of_bitcoin BitcoinNet = Bitcoin"
| "network_of_bitcoin TestnetNet = Testnet"
| "network_of_bitcoin SignetNet = Testnet"
| "network_of_bitcoin RegtestNet = Regtest"
| "network_of_bitcoin _ = Regtest"

definition network_from_str :: "string \<Rightarrow> network option" where
  "network_from_str s =
     (if s = ''bitcoin'' then Some Bitcoin
      else if s = ''testnet'' then Some Testnet
      else if s = ''regtest'' then Some Regtest
      else if s = ''signet'' then Some Signet
      else if s = ''mutiny'' then Some Mutiny
      else None)"

section \<open>Data and errors\<close>

record chroma_announcement =
  ca_chroma :: chroma
  ca_name :: bytes
  ca_symbol :: bytes
  ca_decimal :: u8
  ca_max_supply :: u128
  ca_is_freezable :: bool

record chroma_info =
  ci_announcement :: "chroma_announcement option"
  ci_total_supply :: u128
  ci_owner :: "script option"

record freeze_announcement =
  fa_chroma :: chroma
  fa_outpoint :: outpoint

record issue_announcement =
  ia_chroma :: chroma
  ia_amount :: u128

record transfer_ownership_announcement =
  to_chroma :: chroma
  to_new_owner :: script

datatype announcement =
    ChromaAnn chroma_announcement
  | FreezeAnn freeze_announcement
  | IssueAnn issue_announcement
  | TransferOwnershipAnn transfer_ownership_announcement

datatype chroma_announcement_error =
    ChromaShortLength
  | ChromaInvalidData string
  | InvalidUtf8String
  | InvalidSymbolLength
  | InvalidNameLength
  | ChromaInvalidChroma chroma_parse_error

datatype freeze_announcement_error =
    FreezeInvalidSize nat
  | InvalidTxHash
  | FreezeInvalidChroma chroma_parse_error

datatype issue_announcement_error =
    IssueInvalidSize nat
  | IssueInvalidChroma chroma_parse_error

datatype transfer_ownership_error =
    TransferInvalidSize nat
  | TransferInvalidChroma chroma_parse_error
  | MalformedScript decode_error

datatype announcement_data_error =
    ChromaData chroma_announcement_error
  | FreezeData freeze_announcement_error
  | IssueData issue_announcement_error
  | TransferData transfer_ownership_error

datatype announcement_parse_error =
    ShortLength
  | InvalidPrefix
  | UnknownAnnouncementKind
  | InvalidAnnouncementData announcement_data_error

datatype parse_op_return_error =
    InvalidInstructionsNumber nat
  | NoOpReturn
  | InvalidInstruction u8
  | OpReturnScriptError ext_error
  | IsNotAnnouncement
  | InvaliOpReturnData announcement_parse_error

definition ANNOUNCEMENT_PREFIX :: bytes where
  "ANNOUNCEMENT_PREFIX = [121, 117, 118]"

definition ANNOUNCEMENT_KIND_LENGTH :: nat where
  "ANNOUNCEMENT_KIND_LENGTH = 2"

definition ANNOUNCEMENT_MINIMAL_LENGTH :: nat where
  "ANNOUNCEMENT_MINIMAL_LENGTH = length ANNOUNCEMENT_PREFIX + ANNOUNCEMENT_KIND_LENGTH"

definition ANNOUNCEMENT_INSTRUCTION_NUMBER :: nat where
  "ANNOUNCEMENT_INSTRUCTION_NUMBER = 3"

definition CHROMA_ANNOUNCEMENT_KIND :: "u8 list" where
  "CHROMA_ANNOUNCEMENT_KIND = [0, 0]"

definition FREEZE_ANNOUNCEMENT_KIND :: "u8 list" where
  "FREEZE_ANNOUNCEMENT_KIND = [0, 1]"

definition ISSUE_ANNOUNCEMENT_KIND :: "u8 list" where
  "ISSUE_ANNOUNCEMENT_KIND = [0, 2]"

definition TRANSFER_OWNERSHIP_ANNOUNCEMENT_KIND :: "u8 list" where
  "TRANSFER_OWNERSHIP_ANNOUNCEMENT_KIND = [0, 3]"

definition OP_PUSHBYTES_32 :: u8 where
  "OP_PUSHBYTES_32 = 0x20"

lemmas announcement_consts = ANNOUNCEMENT_PREFIX_def ANNOUNCEMENT_KIND_LENGTH_def
  ANNOUNCEMENT_MINIMAL_LENGTH_def ANNOUNCEMENT_INSTRUCTION_NUMBER_def

lemmas announcement_kinds = CHROMA_ANNOUNCEMENT_KIND_def FREEZE_ANNOUNCEMENT_KIND_def
  ISSUE_ANNOUNCEMENT_KIND_def TRANSFER_OWNERSHIP_ANNOUNCEMENT_KIND_def

section \<open>UTF-8\<close>

text \<open>The byte sequences \<open>String::from_utf8\<close> accepts.\<close>

definition in_range :: "u8 \<Rightarrow> u8 \<Rightarrow> u8 \<Rightarrow> bool" where
  "in_range a b x \<longleftrightarrow> a \<le> x \<and> x \<le> b"

fun valid_utf8 :: "bytes \<Rightarrow> bool" where
  "valid_utf8 [] = True"
| "valid_utf8 [a] = (a < 0x80)"
| "valid_utf8 [a, b] =
     (if a < 0x80 then valid_utf8 [b] else in_range 0xc2 0xdf a \<and> in_range 0x80 0xbf b)"
| "valid_utf8 [a, b, c] =
     (if a < 0x80 then valid_utf8 [b, c]
      else if in_range 0xc2 0xdf a then in_range 0x80 0xbf b \<and> valid_utf8 [c]
      else (a = 0xe0 \<and> in_range 0xa0 0xbf b \<or> in_range 0xe1 0xec a \<and> in_range 0x80 0xbf b \<or>
            a = 0xed \<and> in_range 0x80 0x9f b \<or> in_range 0xee 0xef a \<and> in_range 0x80 0xbf b) \<and>
           in_range 0x80 0xbf c)"
| "valid_utf8 (a # b # c # d # rest) =
     (if a < 0x80 then valid_utf8 (b # c # d # rest)
      else if in_range 0xc2 0xdf a then in_range 0x80 0xbf b \<and> valid_utf8 (c # d # rest)
      else if in_range 0xe0 0xef a then
        (a = 0xe0 \<and> in_range 0xa0 0xbf b \<or> in_range 0xe1 0xec a \<and> in_range 0x80 0xbf b \<or>
         a = 0xed \<and> in_range 0x80 0x9f b \<or> in_range 0xee 0xef a \<and> in_range 0x80 0xbf b) \<and>
        in_range 0x80 0xbf c \<and> valid_utf8 (d # rest)
      else (a = 0xf0 \<and> in_range 0x90 0xbf b \<or> in_range 0xf1 0xf3 a \<and> in_range 0x80 0xbf b \<or>
            a = 0xf4 \<and> in_range 0x80 0x8f b) \<and>
           in_range 0x80 0xbf c \<and> in_range 0x80 0xbf d \<and> valid_utf8 rest)"

section \<open>The trait \<open>AnyAnnouncement\<close>\<close>

text \<open>
  The provided methods take the required ones as arguments: the kind, and the parser and
  the printer of the announcement's own data.
\<close>

definition any_from_bytes ::
  "(bytes \<Rightarrow> announcement_parse_error + 'a) \<Rightarrow> bytes \<Rightarrow> announcement_parse_error + 'a" where
  "any_from_bytes from_data value =
     (if length value < ANNOUNCEMENT_MINIMAL_LENGTH then Inl ShortLength
      else if take 3 value \<noteq> ANNOUNCEMENT_PREFIX then Inl InvalidPrefix
      else from_data (drop ANNOUNCEMENT_MINIMAL_LENGTH value))"

definition any_to_bytes :: "bytes \<Rightarrow> bytes \<Rightarrow> bytes" where
  "any_to_bytes kind data = ANNOUNCEMENT_PREFIX @ kind @ data"

definition is_announcement :: "bytes \<Rightarrow> bool" where
  "is_announcement src \<longleftrightarrow>
     ANNOUNCEMENT_MINIMAL_LENGTH \<le> length src \<and> take 3 src = ANNOUNCEMENT_PREFIX"

fun instruction_into_opcode :: "instruction \<Rightarrow> u8" where
  "instruction_into_opcode (Op op) = op"
| "instruction_into_opcode (PushBytes _) = OP_PUSHBYTES_32"

definition parse_op_return_script ::
  "bitcoin_ext \<Rightarrow> (bytes \<Rightarrow> announcement_parse_error + 'a) \<Rightarrow> script \<Rightarrow> parse_op_return_error + 'a" where
  "parse_op_return_script X parse_fn script =
     (if \<not> x_is_op_return X script then Inl NoOpReturn
      else bindE (map_err OpReturnScriptError (mapE id (x_instructions X script))) (\<lambda>instructions.
        if length instructions \<noteq> ANNOUNCEMENT_INSTRUCTION_NUMBER - 1 then
          Inl (InvalidInstructionsNumber (length instructions))
        else case instructions ! 1 of
          PushBytes bs \<Rightarrow>
            if \<not> is_announcement bs then Inl IsNotAnnouncement
            else map_err InvaliOpReturnData (parse_fn bs)
        | inst \<Rightarrow> Inl (InvalidInstruction (instruction_into_opcode inst))))"

definition any_from_script ::
  "bitcoin_ext \<Rightarrow> (bytes \<Rightarrow> announcement_parse_error + 'a) \<Rightarrow> script \<Rightarrow> parse_op_return_error + 'a" where
  "any_from_script X from_data = parse_op_return_script X (any_from_bytes from_data)"

definition any_to_script :: "bitcoin_ext \<Rightarrow> bytes \<Rightarrow> bytes \<Rightarrow> script" where
  "any_to_script X kind data =
     x_push_slice X (any_to_bytes kind data) (x_push_opcode X OP_RETURN [])"

section \<open>The chroma announcement\<close>

definition MAX_NAME_SIZE :: nat where
  "MAX_NAME_SIZE = 20"

definition MIN_NAME_SIZE :: nat where
  "MIN_NAME_SIZE = 3"

definition MAX_SYMBOL_SIZE :: nat where
  "MAX_SYMBOL_SIZE = 6"

definition MIN_SYMBOL_SIZE :: nat where
  "MIN_SYMBOL_SIZE = 3"

definition MIN_CHROMA_ANNOUNCEMENT_SIZE :: nat where
  "MIN_CHROMA_ANNOUNCEMENT_SIZE = CHROMA_SIZE + 1 + MIN_NAME_SIZE + 1 + MIN_SYMBOL_SIZE + 1 + 16 + 1"

lemmas chroma_announcement_sizes = MAX_NAME_SIZE_def MIN_NAME_SIZE_def MAX_SYMBOL_SIZE_def
  MIN_SYMBOL_SIZE_def MIN_CHROMA_ANNOUNCEMENT_SIZE_def CHROMA_SIZE_def

definition chroma_announcement_new ::
  "chroma \<Rightarrow> bytes \<Rightarrow> bytes \<Rightarrow> u8 \<Rightarrow> u128 \<Rightarrow> bool \<Rightarrow> chroma_announcement_error + chroma_announcement" where
  "chroma_announcement_new c name symbol decimal max_supply is_freezable =
     (if length name < MIN_NAME_SIZE \<or> length name > MAX_NAME_SIZE then Inl InvalidNameLength
      else if length symbol < MIN_SYMBOL_SIZE \<or> length symbol > MAX_SYMBOL_SIZE then
        Inl InvalidSymbolLength
      else Inr \<lparr>ca_chroma = c, ca_name = name, ca_symbol = symbol, ca_decimal = decimal,
                ca_max_supply = max_supply, ca_is_freezable = is_freezable\<rparr>)"

text \<open>\<open>Cursor::read_exact\<close> with its error wrapped in a message.\<close>

definition read_or :: "string \<Rightarrow> nat \<Rightarrow> bytes \<Rightarrow> chroma_announcement_error + bytes \<times> bytes" where
  "read_or msg n cur = map_err (\<lambda>_. ChromaInvalidData msg) (read_exact n cur)"

definition chroma_from_data_inner ::
  "bitcoin_ext \<Rightarrow> bytes \<Rightarrow> chroma_announcement_error + chroma_announcement" where
  "chroma_from_data_inner X data =
     (if length data < MIN_CHROMA_ANNOUNCEMENT_SIZE then Inl ChromaShortLength else
      bindE (read_or ''failed to read the chroma'' CHROMA_SIZE data) (\<lambda>(chroma_bytes, cur).
      bindE (map_err ChromaInvalidChroma (chroma_from_bytes X chroma_bytes)) (\<lambda>c.
      bindE (read_or ''failed to read the name length'' 1 cur) (\<lambda>(b, cur).
      let name_len = unat (hd b) in
      if \<not> (MIN_NAME_SIZE \<le> name_len \<and> name_len \<le> MAX_NAME_SIZE) then Inl InvalidNameLength else
      bindE (read_or ''failed to read the name'' name_len cur) (\<lambda>(name, cur).
      if \<not> valid_utf8 name then Inl InvalidUtf8String else
      bindE (read_or ''failed to read the symbol length'' 1 cur) (\<lambda>(b, cur).
      let symbol_len = unat (hd b) in
      if \<not> (MIN_SYMBOL_SIZE \<le> symbol_len \<and> symbol_len \<le> MAX_SYMBOL_SIZE) then
        Inl InvalidSymbolLength else
      bindE (read_or ''failed to read the symbol'' symbol_len cur) (\<lambda>(symbol, cur).
      if \<not> valid_utf8 symbol then Inl InvalidUtf8String else
      bindE (read_or ''failed to read the decimal'' 1 cur) (\<lambda>(decimal, cur).
      bindE (read_or ''failed to read the max supply'' 16 cur) (\<lambda>(max_supply, cur).
      bindE (read_or ''failed to read is freezable'' 1 cur) (\<lambda>(is_freezable, cur).
      Inr \<lparr>ca_chroma = c, ca_name = name, ca_symbol = symbol, ca_decimal = hd decimal,
           ca_max_supply = from_le_bytes max_supply,
           ca_is_freezable = (hd is_freezable \<noteq> 0)\<rparr>))))))))))"

definition chroma_from_data ::
  "bitcoin_ext \<Rightarrow> bytes \<Rightarrow> announcement_parse_error + chroma_announcement" where
  "chroma_from_data X data =
     map_err (\<lambda>e. InvalidAnnouncementData (ChromaData e)) (chroma_from_data_inner X data)"

definition chroma_to_data :: "bitcoin_ext \<Rightarrow> chroma_announcement \<Rightarrow> bytes" where
  "chroma_to_data X a =
     chroma_to_bytes X (ca_chroma a) @
     [of_nat (length (ca_name a))] @ ca_name a @
     [of_nat (length (ca_symbol a))] @ ca_symbol a @
     [ca_decimal a] @ to_le_bytes 16 (ca_max_supply a) @
     [if ca_is_freezable a then 1 else 0]"

section \<open>The freeze announcement\<close>

definition TX_ID_SIZE :: nat where
  "TX_ID_SIZE = 32"

definition VOUT_SIZE :: nat where
  "VOUT_SIZE = 4"

definition FREEZE_ENTRY_SIZE :: nat where
  "FREEZE_ENTRY_SIZE = TX_ID_SIZE + VOUT_SIZE + CHROMA_SIZE"

lemmas freeze_sizes = TX_ID_SIZE_def VOUT_SIZE_def FREEZE_ENTRY_SIZE_def CHROMA_SIZE_def

definition freeze_from_data ::
  "bitcoin_ext \<Rightarrow> bytes \<Rightarrow> announcement_parse_error + freeze_announcement" where
  "freeze_from_data X data =
     map_err (\<lambda>e. InvalidAnnouncementData (FreezeData e))
       (if length data \<noteq> FREEZE_ENTRY_SIZE then Inl (FreezeInvalidSize (length data))
        else
          bindE (ok_or InvalidTxHash (x_hash_from_slice X (take TX_ID_SIZE data))) (\<lambda>txid.
          let vout = from_be_bytes (take VOUT_SIZE (drop TX_ID_SIZE data)) in
          bindE (map_err FreezeInvalidChroma
                   (chroma_from_bytes X (drop (TX_ID_SIZE + VOUT_SIZE) data))) (\<lambda>c.
          Inr \<lparr>fa_chroma = c, fa_outpoint = \<lparr>op_txid = txid, op_vout = vout\<rparr>\<rparr>)))"

definition freeze_to_data :: "bitcoin_ext \<Rightarrow> freeze_announcement \<Rightarrow> bytes" where
  "freeze_to_data X a =
     op_txid (fa_outpoint a) @ to_be_bytes 4 (op_vout (fa_outpoint a)) @
     chroma_to_bytes X (fa_chroma a)"

section \<open>The issue announcement\<close>

definition ISSUE_ANNOUNCEMENT_SIZE :: nat where
  "ISSUE_ANNOUNCEMENT_SIZE = CHROMA_SIZE + 16"

definition issue_from_data ::
  "bitcoin_ext \<Rightarrow> bytes \<Rightarrow> announcement_parse_error + issue_announcement" where
  "issue_from_data X data =
     map_err (\<lambda>e. InvalidAnnouncementData (IssueData e))
       (if length data \<noteq> ISSUE_ANNOUNCEMENT_SIZE then Inl (IssueInvalidSize (length data))
        else
          bindE (map_err IssueInvalidChroma (chroma_from_bytes X (take CHROMA_SIZE data))) (\<lambda>c.
          Inr \<lparr>ia_chroma = c, ia_amount = from_le_bytes (drop CHROMA_SIZE data)\<rparr>))"

definition issue_to_data :: "bitcoin_ext \<Rightarrow> issue_announcement \<Rightarrow> bytes" where
  "issue_to_data X a = chroma_to_bytes X (ia_chroma a) @ to_le_bytes 16 (ia_amount a)"

section \<open>The transfer-ownership announcement\<close>

definition MAX_SCRIPT_SIZE :: nat where
  "MAX_SCRIPT_SIZE = 48"

definition MIN_SCRIPT_SIZE :: nat where
  "MIN_SCRIPT_SIZE = 16"

definition TRANSFER_OWNERSHIP_ANNOUNCEMENT_MAX_SIZE :: nat where
  "TRANSFER_OWNERSHIP_ANNOUNCEMENT_MAX_SIZE = CHROMA_SIZE + MAX_SCRIPT_SIZE"

definition TRANSFER_OWNERSHIP_ANNOUNCEMENT_MIN_SIZE :: nat where
  "TRANSFER_OWNERSHIP_ANNOUNCEMENT_MIN_SIZE = CHROMA_SIZE + MIN_SCRIPT_SIZE"

lemmas transfer_sizes = MAX_SCRIPT_SIZE_def MIN_SCRIPT_SIZE_def CHROMA_SIZE_def
  TRANSFER_OWNERSHIP_ANNOUNCEMENT_MAX_SIZE_def TRANSFER_OWNERSHIP_ANNOUNCEMENT_MIN_SIZE_def

definition transfer_from_data ::
  "bitcoin_ext \<Rightarrow> bytes \<Rightarrow> announcement_parse_error + transfer_ownership_announcement" where
  "transfer_from_data X data =
     map_err (\<lambda>e. InvalidAnnouncementData (TransferData e))
       (if length data < TRANSFER_OWNERSHIP_ANNOUNCEMENT_MIN_SIZE \<or>
           length data > TRANSFER_OWNERSHIP_ANNOUNCEMENT_MAX_SIZE
        then Inl (TransferInvalidSize (length data))
        else
          bindE (map_err TransferInvalidChroma (chroma_from_bytes X (take CHROMA_SIZE data))) (\<lambda>c.
          Inr \<lparr>to_chroma = c, to_new_owner = drop CHROMA_SIZE data\<rparr>))"

definition transfer_to_data :: "bitcoin_ext \<Rightarrow> transfer_ownership_announcement \<Rightarrow> bytes" where
  "transfer_to_data X a = chroma_to_bytes X (to_chroma a) @ to_new_owner a"

section \<open>Any kind\<close>

fun announcement_kind :: "announcement \<Rightarrow> bytes" where
  "announcement_kind (ChromaAnn _) = CHROMA_ANNOUNCEMENT_KIND"
| "announcement_kind (FreezeAnn _) = FREEZE_ANNOUNCEMENT_KIND"
| "announcement_kind (IssueAnn _) = ISSUE_ANNOUNCEMENT_KIND"
| "announcement_kind (TransferOwnershipAnn _) = TRANSFER_OWNERSHIP_ANNOUNCEMENT_KIND"

definition MAINNET_MINIMAL_BLOCK :: nat where
  "MAINNET_MINIMAL_BLOCK = 855000"

definition TESTNET_MINIMAL_BLOCK :: nat where
  "TESTNET_MINIMAL_BLOCK = 2830000"

definition MUTINY_MINIMAL_BLOCK :: nat where
  "MUTINY_MINIMAL_BLOCK = 1200000"

fun minimal_block_height :: "announcement \<Rightarrow> network \<Rightarrow> nat" where
  "minimal_block_height (TransferOwnershipAnn _) net =
     (case net of
        Bitcoin \<Rightarrow> MAINNET_MINIMAL_BLOCK
      | Testnet \<Rightarrow> TESTNET_MINIMAL_BLOCK
      | Mutiny \<Rightarrow> MUTINY_MINIMAL_BLOCK
      | _ \<Rightarrow> 0)"
| "minimal_block_height _ net = 0"

fun announcement_to_data :: "bitcoin_ext \<Rightarrow> announcement \<Rightarrow> bytes" where
  "announcement_to_data X (ChromaAnn a) = chroma_to_data X a"
| "announcement_to_data X (FreezeAnn a) = freeze_to_data X a"
| "announcement_to_data X (IssueAnn a) = issue_to_data X a"
| "announcement_to_data X (TransferOwnershipAnn a) = transfer_to_data X a"

definition announcement_to_bytes :: "bitcoin_ext \<Rightarrow> announcement \<Rightarrow> bytes" where
  "announcement_to_bytes X a = any_to_bytes (announcement_kind a) (announcement_to_data X a)"

definition announcement_to_script :: "bitcoin_ext \<Rightarrow> announcement \<Rightarrow> script" where
  "announcement_to_script X a = any_to_script X (announcement_kind a) (announcement_to_data X a)"

definition announcement_from_bytes ::
  "bitcoin_ext \<Rightarrow> bytes \<Rightarrow> announcement_parse_error + announcement" where
  "announcement_from_bytes X bs =
     (if length bs < ANNOUNCEMENT_MINIMAL_LENGTH then Inl ShortLength
      else if take 3 bs \<noteq> ANNOUNCEMENT_PREFIX then Inl InvalidPrefix
      else
        let kind = take 2 (drop 3 bs); data = drop ANNOUNCEMENT_MINIMAL_LENGTH bs in
        if kind = CHROMA_ANNOUNCEMENT_KIND then
          bindE (chroma_from_data X data) (\<lambda>a. Inr (ChromaAnn a))
        else if kind = FREEZE_ANNOUNCEMENT_KIND then
          bindE (freeze_from_data X data) (\<lambda>a. Inr (FreezeAnn a))
        else if kind = ISSUE_ANNOUNCEMENT_KIND then
          bindE (issue_from_data X data) (\<lambda>a. Inr (IssueAnn a))
        else if kind = TRANSFER_OWNERSHIP_ANNOUNCEMENT_KIND then
          bindE (transfer_from_data X data) (\<lambda>a. Inr (TransferOwnershipAnn a))
        else Inl UnknownAnnouncementKind)"

definition announcement_from_script ::
  "bitcoin_ext \<Rightarrow> script \<Rightarrow> parse_op_return_error + announcement" where
  "announcement_from_script X = parse_op_return_script X (announcement_from_bytes X)"

text \<open>\<open>IssueAnnouncement::from_script\<close>: the provided method at the issue announcement.\<close>

definition issue_from_script :: "bitcoin_ext \<Rightarrow> script \<Rightarrow> parse_op_return_error + issue_announcement" where
  "issue_from_script X = any_from_script X (issue_from_data X)"

section \<open>Values of the announcement types\<close>

definition wf_txid :: "bitcoin_ext \<Rightarrow> txid \<Rightarrow> bool" where
  "wf_txid X t \<longleftrightarrow> length t = 32 \<and> x_hash_from_slice X t = Some t"

definition wf_chroma_announcement :: "bitcoin_ext \<Rightarrow> chroma_announcement \<Rightarrow> bool" where
  "wf_chroma_announcement X a \<longleftrightarrow>
     wf_chroma X (ca_chroma a) \<and>
     MIN_NAME_SIZE \<le> length (ca_name a) \<and> length (ca_name a) \<le> MAX_NAME_SIZE \<and>
     valid_utf8 (ca_name a) \<and>
     MIN_SYMBOL_SIZE \<le> length (ca_symbol a) \<and> length (ca_symbol a) \<le> MAX_SYMBOL_SIZE \<and>
     valid_utf8 (ca_symbol a)"

definition wf_freeze_announcement :: "bitcoin_ext \<Rightarrow> freeze_announcement \<Rightarrow> bool" where
  "wf_freeze_announcement X a \<longleftrightarrow>
     wf_txid X (op_txid (fa_outpoint a)) \<and> wf_chroma X (fa_chroma a)"

definition wf_issue_announcement :: "bitcoin_ext \<Rightarrow> issue_announcement \<Rightarrow> bool" where
  "wf_issue_announcement X a \<longleftrightarrow> wf_chroma X (ia_chroma a)"

definition wf_transfer_announcement :: "bitcoin_ext \<Rightarrow> transfer_ownership_announcement \<Rightarrow> bool" where
  "wf_transfer_announcement X a \<longleftrightarrow>
     wf_chroma X (to_chroma a) \<and>
     MIN_SCRIPT_SIZE \<le> length (to_new_owner a) \<and> length (to_new_owner a) \<le> MAX_SCRIPT_SIZE"

fun wf_announcement :: "bitcoin_ext \<Rightarrow> announcement \<Rightarrow> bool" where
  "wf_announcement X (ChromaAnn a) = wf_chroma_announcement X a"
| "wf_announcement X (FreezeAnn a) = wf_freeze_announcement X a"
| "wf_announcement X (IssueAnn a) = wf_issue_announcement X a"
| "wf_announcement X (TransferOwnershipAnn a) = wf_transfer_announcement X a"

lemma read_or_append [codec_simps]: "length a = n \<Longrightarrow> read_or msg n (a @ rest) = Inr (a, rest)"
  by (simp add: read_or_def codec_simps)

lemma read_or_Cons [codec_simps]: "read_or msg (Suc 0) (b # rest) = Inr ([b], rest)"
  by (simp add: read_or_def read_exact_def)

lemma unat_of_nat_u8 [simp]: "n < 256 \<Longrightarrow> unat (of_nat n :: u8) = n"
  by (simp add: unat_of_nat take_bit_eq_mod)

lemma chroma_from_to_data:
  assumes wf: "wf_chroma_announcement X a"
  shows "chroma_from_data X (chroma_to_data X a) = Inr a"
proof -
  from wf have c: "wf_chroma X (ca_chroma a)" and
    n: "3 \<le> length (ca_name a)" "length (ca_name a) \<le> 20" "valid_utf8 (ca_name a)" and
    s: "3 \<le> length (ca_symbol a)" "length (ca_symbol a) \<le> 6" "valid_utf8 (ca_symbol a)"
    by (simp_all add: wf_chroma_announcement_def chroma_announcement_sizes)
  have len: "\<not> length (chroma_to_data X a) < MIN_CHROMA_ANNOUNCEMENT_SIZE"
    using c n s by (simp add: chroma_to_data_def chroma_announcement_sizes)
  show ?thesis
    unfolding chroma_from_data_def chroma_from_data_inner_def if_not_P [OF len]
    using c n s
    by (simp add: chroma_to_data_def codec_simps chroma_announcement_sizes Let_def)
qed

lemma freeze_from_to_data:
  "wf_freeze_announcement X a \<Longrightarrow> freeze_from_data X (freeze_to_data X a) = Inr a"
  by (simp add: freeze_from_data_def freeze_to_data_def wf_freeze_announcement_def wf_txid_def
      freeze_sizes codec_simps)

lemma issue_from_to_data:
  "wf_issue_announcement X a \<Longrightarrow> issue_from_data X (issue_to_data X a) = Inr a"
  by (simp add: issue_from_data_def issue_to_data_def wf_issue_announcement_def
      ISSUE_ANNOUNCEMENT_SIZE_def CHROMA_SIZE_def codec_simps)

lemma transfer_from_to_data:
  "wf_transfer_announcement X a \<Longrightarrow> transfer_from_data X (transfer_to_data X a) = Inr a"
  by (simp add: transfer_from_data_def transfer_to_data_def wf_transfer_announcement_def
      transfer_sizes codec_simps)

section \<open>The contract of the trait\<close>

text \<open>
  What an implementation of \<open>AnyAnnouncement\<close> owes the provided methods: a two-byte kind,
  and a printer of at most 80 bytes that its parser inverts.
\<close>

lemma parse_op_return_pushed:
  assumes "builder_laws X" and "op_return_law X" and "length d < 256" and "is_announcement d"
  shows "parse_op_return_script X f (x_push_slice X d (x_push_opcode X OP_RETURN [])) =
    map_err InvaliOpReturnData (f d)"
  using assms
  by (simp add: parse_op_return_script_def builder_laws_def op_return_law_def OP_RETURN_def
      announcement_consts)

locale any_announcement =
  fixes kind :: bytes
    and from_data :: "bytes \<Rightarrow> announcement_parse_error + 'a"
    and to_data :: "'a \<Rightarrow> bytes"
    and ok :: "'a \<Rightarrow> bool"
  assumes kind_len: "length kind = 2"
    and from_to_data: "ok a \<Longrightarrow> from_data (to_data a) = Inr a"
    and data_len: "ok a \<Longrightarrow> length (to_data a) \<le> 80"
begin

lemma from_to_bytes: "ok a \<Longrightarrow> any_from_bytes from_data (any_to_bytes kind (to_data a)) = Inr a"
  by (simp add: any_from_bytes_def any_to_bytes_def announcement_consts kind_len from_to_data)

lemma to_bytes_is_announcement: "ok a \<Longrightarrow> is_announcement (any_to_bytes kind (to_data a))"
  by (simp add: is_announcement_def any_to_bytes_def announcement_consts kind_len)

lemma to_bytes_len: "ok a \<Longrightarrow> length (any_to_bytes kind (to_data a)) < 256"
  using data_len [of a] by (simp add: any_to_bytes_def announcement_consts kind_len)

lemma from_to_script:
  "builder_laws X \<Longrightarrow> op_return_law X \<Longrightarrow> ok a \<Longrightarrow>
   any_from_script X from_data (any_to_script X kind (to_data a)) = Inr a"
  by (simp add: any_from_script_def any_to_script_def parse_op_return_pushed to_bytes_len
      to_bytes_is_announcement from_to_bytes)

lemma parse_to_script:
  "builder_laws X \<Longrightarrow> op_return_law X \<Longrightarrow> ok a \<Longrightarrow>
   parse_op_return_script X f (any_to_script X kind (to_data a)) =
   map_err InvaliOpReturnData (f (any_to_bytes kind (to_data a)))"
  by (simp add: any_to_script_def parse_op_return_pushed to_bytes_len to_bytes_is_announcement)

lemma to_bytes_split:
  "ok a \<Longrightarrow> take 3 (any_to_bytes kind (to_data a)) = ANNOUNCEMENT_PREFIX \<and>
     take 2 (drop 3 (any_to_bytes kind (to_data a))) = kind \<and>
     drop ANNOUNCEMENT_MINIMAL_LENGTH (any_to_bytes kind (to_data a)) = to_data a \<and>
     \<not> length (any_to_bytes kind (to_data a)) < ANNOUNCEMENT_MINIMAL_LENGTH"
  by (simp add: any_to_bytes_def announcement_consts kind_len)

end

lemma chroma_data_len: "wf_chroma_announcement X a \<Longrightarrow> length (chroma_to_data X a) \<le> 80"
  by (simp add: chroma_to_data_def wf_chroma_announcement_def chroma_announcement_sizes)

lemma freeze_data_len: "wf_freeze_announcement X a \<Longrightarrow> length (freeze_to_data X a) \<le> 80"
  by (simp add: freeze_to_data_def wf_freeze_announcement_def wf_txid_def)

lemma issue_data_len: "wf_issue_announcement X a \<Longrightarrow> length (issue_to_data X a) \<le> 80"
  by (simp add: issue_to_data_def wf_issue_announcement_def)

lemma transfer_data_len: "wf_transfer_announcement X a \<Longrightarrow> length (transfer_to_data X a) \<le> 80"
  by (simp add: transfer_to_data_def wf_transfer_announcement_def transfer_sizes)

interpretation chroma_ann: any_announcement CHROMA_ANNOUNCEMENT_KIND "chroma_from_data X"
  "chroma_to_data X" "wf_chroma_announcement X" for X
  by unfold_locales (simp_all add: announcement_kinds chroma_from_to_data chroma_data_len)

interpretation freeze_ann: any_announcement FREEZE_ANNOUNCEMENT_KIND "freeze_from_data X"
  "freeze_to_data X" "wf_freeze_announcement X" for X
  by unfold_locales (simp_all add: announcement_kinds freeze_from_to_data freeze_data_len)

interpretation issue_ann: any_announcement ISSUE_ANNOUNCEMENT_KIND "issue_from_data X"
  "issue_to_data X" "wf_issue_announcement X" for X
  by unfold_locales (simp_all add: announcement_kinds issue_from_to_data issue_data_len)

interpretation transfer_ann: any_announcement TRANSFER_OWNERSHIP_ANNOUNCEMENT_KIND
  "transfer_from_data X" "transfer_to_data X" "wf_transfer_announcement X" for X
  by unfold_locales (simp_all add: announcement_kinds transfer_from_to_data transfer_data_len)

lemma announcement_from_to_bytes:
  assumes "wf_announcement X a"
  shows "announcement_from_bytes X (announcement_to_bytes X a) = Inr a"
proof (cases a)
  case (ChromaAnn c)
  with assms chroma_ann.to_bytes_split [of X c] show ?thesis
    by (simp add: announcement_from_bytes_def announcement_to_bytes_def announcement_kinds
        chroma_from_to_data)
next
  case (FreezeAnn c)
  with assms freeze_ann.to_bytes_split [of X c] show ?thesis
    by (simp add: announcement_from_bytes_def announcement_to_bytes_def announcement_kinds
        freeze_from_to_data)
next
  case (IssueAnn c)
  with assms issue_ann.to_bytes_split [of X c] show ?thesis
    by (simp add: announcement_from_bytes_def announcement_to_bytes_def announcement_kinds
        issue_from_to_data)
next
  case (TransferOwnershipAnn c)
  with assms transfer_ann.to_bytes_split [of X c] show ?thesis
    by (simp add: announcement_from_bytes_def announcement_to_bytes_def announcement_kinds
        transfer_from_to_data)
qed

lemma from_script_to_script:
  assumes "builder_laws X" and "op_return_law X" and "wf_announcement X a"
  shows "announcement_from_script X (announcement_to_script X a) = Inr a"
  using assms announcement_from_to_bytes [OF assms(3)]
  by (cases a)
     (simp_all add: announcement_from_script_def announcement_to_script_def
        announcement_to_bytes_def chroma_ann.parse_to_script freeze_ann.parse_to_script
        issue_ann.parse_to_script transfer_ann.parse_to_script)

text \<open>C25. Announcements survive the chain: the \<open>OP_RETURN\<close> script an announcement is written
  to parses back to that announcement, for all four kinds.
\<close>

theorem announcement_from_to_script:
  assumes "builder_laws X" and "op_return_law X" and "wf_announcement X a"
  shows "announcement_from_script X (announcement_to_script X a) = Inr a"
  using assms by (rule from_script_to_script)

definition sample_chroma_announcement :: chroma_announcement where
  "sample_chroma_announcement =
     \<lparr>ca_chroma = Chroma (sample_xonly 1), ca_name = [84, 111, 107, 101, 110],
      ca_symbol = [84, 75, 78], ca_decimal = 2, ca_max_supply = 1000000, ca_is_freezable = True\<rparr>"

lemma sample_chroma_wf: "wf_announcement sample_ext (ChromaAnn sample_chroma_announcement)"
  by (simp add: sample_chroma_announcement_def wf_chroma_announcement_def wf_chroma_def
      chroma_announcement_sizes in_range_def)

theorem announcement_from_to_script_witness:
  "announcement_from_script sample_ext
     (announcement_to_script sample_ext (ChromaAnn sample_chroma_announcement)) =
   Inr (ChromaAnn sample_chroma_announcement)"
  by (rule announcement_from_to_script [OF sample_builder_laws sample_op_return_law sample_chroma_wf])

text \<open>The typed parsers do not look at the kind bytes: the script of a transfer-ownership
  announcement whose new owner is 16 bytes long parses as an issue announcement of the
  same chroma, with the owner's script read as the amount.
\<close>

lemma issue_from_script_reads_transfer:
  assumes "builder_laws X" and "op_return_law X"
    and wf: "wf_transfer_announcement X t" and len: "length (to_new_owner t) = 16"
  shows "issue_from_script X (announcement_to_script X (TransferOwnershipAnn t)) =
    Inr \<lparr>ia_chroma = to_chroma t, ia_amount = from_le_bytes (to_new_owner t)\<rparr>"
proof -
  have "any_from_bytes (issue_from_data X)
      (any_to_bytes TRANSFER_OWNERSHIP_ANNOUNCEMENT_KIND (transfer_to_data X t)) =
      issue_from_data X (transfer_to_data X t)"
    using transfer_ann.to_bytes_split [OF wf] by (simp add: any_from_bytes_def)
  also have "\<dots> = Inr \<lparr>ia_chroma = to_chroma t, ia_amount = from_le_bytes (to_new_owner t)\<rparr>"
    using wf len
    by (simp add: issue_from_data_def transfer_to_data_def wf_transfer_announcement_def
        ISSUE_ANNOUNCEMENT_SIZE_def CHROMA_SIZE_def codec_simps)
  finally show ?thesis
    by (simp add: issue_from_script_def any_from_script_def announcement_to_script_def
        transfer_ann.parse_to_script [OF assms(1,2) wf])
qed

definition sample_transfer :: transfer_ownership_announcement where
  "sample_transfer = \<lparr>to_chroma = Chroma (sample_xonly 1), to_new_owner = 7 # replicate 15 0\<rparr>"

lemma issue_from_script_reads_transfer_witness:
  "issue_from_script sample_ext (announcement_to_script sample_ext (TransferOwnershipAnn sample_transfer)) =
   Inr \<lparr>ia_chroma = Chroma (sample_xonly 1), ia_amount = from_le_bytes (7 # replicate 15 0)\<rparr>"
proof -
  have "wf_transfer_announcement sample_ext sample_transfer"
    by (simp add: sample_transfer_def wf_transfer_announcement_def wf_chroma_def transfer_sizes)
  moreover have "length (to_new_owner sample_transfer) = 16"
    by (simp add: sample_transfer_def)
  ultimately show ?thesis
    using issue_from_script_reads_transfer [OF sample_builder_laws sample_op_return_law]
    by (simp add: sample_transfer_def)
qed

end
