(* ===== verification/Transactions.thy ===== *)
theory Transactions
  imports Pixel_Proofs Announcements
begin

text \<open>
  YUV transactions (\<open>types/src/transactions/mod.rs\<close>, \<open>types/src/proofs.rs\<close>) and the messages
  the services send each other (\<open>types/src/messages/\<close>).
\<close>

section \<open>Transactions\<close>

type_synonym proof_map = "(u32, pixel_proof) btree_map"

datatype yuv_tx_type =
    Issue "proof_map option" issue_announcement
  | Transfer proof_map proof_map
  | Announcement announcement

record yuv_transaction =
  bitcoin_tx :: transaction
  tx_type :: yuv_tx_type

fun output_proofs :: "yuv_tx_type \<Rightarrow> proof_map option" where
  "output_proofs (Issue outs _) = outs"
| "output_proofs (Transfer _ outs) = Some outs"
| "output_proofs (Announcement _) = None"

fun input_proofs :: "yuv_tx_type \<Rightarrow> proof_map option" where
  "input_proofs (Transfer ins _) = Some ins"
| "input_proofs _ = None"

definition yuv_tx_type_default :: yuv_tx_type where
  "yuv_tx_type_default = Transfer [] []"

definition yuv_tx_is_burn :: "bitcoin_ext \<Rightarrow> yuv_transaction \<Rightarrow> bool" where
  "yuv_tx_is_burn X tx =
     (case output_proofs (tx_type tx) of
        None \<Rightarrow> False
      | Some outs \<Rightarrow> \<exists>pf \<in> set (map snd outs). is_burn X pf)"

definition yuv_txid :: "bitcoin_ext \<Rightarrow> yuv_transaction \<Rightarrow> txid" where
  "yuv_txid X tx = x_txid X (bitcoin_tx tx)"

fun is_announcement_tx :: "yuv_tx_type \<Rightarrow> bool" where
  "is_announcement_tx (Announcement _) = True"
| "is_announcement_tx _ = False"

section \<open>Messages\<close>

datatype inventory = Ytx txid

record block =
  block_hash :: block_hash
  block_height :: nat
  previousblockhash :: "block_hash option"
  block_tx :: "transaction list"

datatype controller_p2p_message =
    P2pInv "inventory list" socket_addr
  | P2pGetData "inventory list" socket_addr
  | P2pYuvTx "yuv_transaction list" socket_addr

datatype controller_message =
    InvalidTxs "txid list"
  | GetData "inventory list" socket_addr
  | PartiallyCheckedTxs "txid list"
  | FullyCheckedTxs "yuv_transaction list"
  | MinedTxs "txid list"
  | ConfirmedTxs "txid list"
  | InitializeTxs "yuv_transaction list"
  | Reorganization "txid list" nat
  | AttachedTxs "txid list"
  | P2P controller_p2p_message

datatype tx_checker_message =
    FullCheck "(yuv_transaction \<times> socket_addr option) list"
  | IsolatedCheck "yuv_transaction list"

datatype graph_builder_message = CheckedTxs "yuv_transaction list"

datatype tx_confirm_message = ConfirmTxs "txid list" | ConfirmBlock block

datatype indexer_message = IndexerReorganization nat

end
