(* ===== verification/Consensus.thy ===== *)
theory Consensus
  imports Transactions
begin

text \<open>
  The wire format of pixels, proofs, YUV transactions and inventories
  (\<open>pixels/src/consensus.rs\<close>, \<open>pixels/src/proof/*/consensus.rs\<close>, \<open>types/src/consensus.rs\<close>,
  the \<open>Encodable\<close> impls of \<open>types/src/announcements/\<close>). Encoders return the bytes they
  write, decoders the value and the bytes they leave.
\<close>

section \<open>Pixels and keys\<close>

definition enc_pixel :: "bitcoin_ext \<Rightarrow> pixel \<Rightarrow> bytes" where
  "enc_pixel X p = pixel_to_bytes X p"

definition dec_pixel :: "bitcoin_ext \<Rightarrow> pixel decoder" where
  "dec_pixel X bs =
     bindE (read_exact PIXEL_SIZE bs) (\<lambda>(b, rest).
     bindE (map_err (\<lambda>_. ParseFailed ''failed to parse the Pixel'') (pixel_from_bytes X b)) (\<lambda>p.
     Inr (p, rest)))"

text \<open>A serialized public key, with the message of the reader's error.\<close>

definition dec_pubkey :: "bitcoin_ext \<Rightarrow> string \<Rightarrow> pubkey decoder" where
  "dec_pubkey X msg bs =
     bindE (read_exact 33 bs) (\<lambda>(b, rest).
     bindE (ok_or (ParseFailed msg) (x_pubkey_from_slice X b)) (\<lambda>k. Inr (k, rest)))"

section \<open>Proofs\<close>

definition enc_sig_proof :: "bitcoin_ext \<Rightarrow> sig_proof \<Rightarrow> bytes" where
  "enc_sig_proof X pf = enc_pixel X (sig_pixel pf) @ x_pubkey_serialize X (sig_inner_key pf)"

definition dec_sig_proof :: "bitcoin_ext \<Rightarrow> sig_proof decoder" where
  "dec_sig_proof X bs =
     bindE (dec_pixel X bs) (\<lambda>(p, bs).
     bindE (dec_pubkey X ''Failed to parse public key bytes'' bs) (\<lambda>(k, bs).
     Inr (\<lparr>sig_pixel = p, sig_inner_key = k\<rparr>, bs)))"

definition enc_empty_proof :: "bitcoin_ext \<Rightarrow> empty_proof \<Rightarrow> bytes" where
  "enc_empty_proof X pf = x_pubkey_serialize X (empty_inner_key pf)"

definition dec_empty_proof :: "bitcoin_ext \<Rightarrow> empty_proof decoder" where
  "dec_empty_proof X bs =
     bindE (dec_pubkey X ''Failed to parse the public key'' bs) (\<lambda>(k, bs).
     Inr (\<lparr>empty_inner_key = k\<rparr>, bs))"

definition enc_p2wsh_proof :: "bitcoin_ext \<Rightarrow> p2wsh_proof \<Rightarrow> bytes" where
  "enc_p2wsh_proof X pf =
     enc_pixel X (wsh_pixel pf) @ x_pubkey_serialize X (wsh_inner_key pf) @
     x_script_encode X (wsh_script pf)"

definition dec_p2wsh_proof :: "bitcoin_ext \<Rightarrow> p2wsh_proof decoder" where
  "dec_p2wsh_proof X bs =
     bindE (dec_pixel X bs) (\<lambda>(p, bs).
     bindE (dec_pubkey X ''Failed to parse public key bytes'' bs) (\<lambda>(k, bs).
     bindE (x_script_decode X bs) (\<lambda>(s, bs).
     Inr (\<lparr>wsh_pixel = p, wsh_inner_key = k, wsh_script = s\<rparr>, bs))))"

definition enc_multisig_proof :: "bitcoin_ext \<Rightarrow> multisig_proof \<Rightarrow> bytes" where
  "enc_multisig_proof X pf =
     enc_pixel X (ms_pixel pf) @
     enc_u32 (of_nat (length (ms_inner_keys pf))) @
     concat (map (x_pubkey_serialize X) (ms_inner_keys pf)) @
     enc_u8 (ms_m pf)"

text \<open>The key reader of the multisig decoder maps both of its errors to a message.\<close>

definition dec_multisig_key :: "bitcoin_ext \<Rightarrow> pubkey decoder" where
  "dec_multisig_key X bs =
     bindE (map_err (\<lambda>_. ParseFailed ''Failed to parse the public key'') (read_exact 33 bs))
       (\<lambda>(b, rest).
     bindE (ok_or (ParseFailed ''Failed to create public key from bytes'')
              (x_pubkey_from_slice X b)) (\<lambda>k. Inr (k, rest)))"

definition dec_multisig_proof :: "bitcoin_ext \<Rightarrow> multisig_proof decoder" where
  "dec_multisig_proof X bs =
     bindE (dec_pixel X bs) (\<lambda>(p, bs).
     bindE (dec_u32 bs) (\<lambda>(number_of_keys, bs).
     bindE (dec_times (unat number_of_keys) (dec_multisig_key X) bs) (\<lambda>(inner_keys, bs).
     bindE (dec_u8 bs) (\<lambda>(m, bs).
     Inr (multisig_new X p inner_keys m, bs)))))"

definition enc_lightning_proof :: "bitcoin_ext \<Rightarrow> lightning_proof \<Rightarrow> bytes" where
  "enc_lightning_proof X pf =
     enc_pixel X (ln_pixel pf) @
     x_pubkey_serialize X (revocation_pubkey (ln_data pf)) @
     enc_u16 (to_self_delay (ln_data pf)) @
     x_pubkey_serialize X (local_delayed_pubkey (ln_data pf))"

definition dec_lightning_proof :: "bitcoin_ext \<Rightarrow> lightning_proof decoder" where
  "dec_lightning_proof X bs =
     bindE (dec_pixel X bs) (\<lambda>(p, bs).
     bindE (dec_pubkey X ''Failed to parse the public key'' bs) (\<lambda>(r, bs).
     bindE (dec_u16 bs) (\<lambda>(d, bs).
     bindE (dec_pubkey X ''Failed to parse the public key'' bs) (\<lambda>(l, bs).
     Inr (\<lparr>ln_pixel = p, ln_data = \<lparr>revocation_pubkey = r, to_self_delay = d,
                                     local_delayed_pubkey = l\<rparr>\<rparr>, bs)))))"

definition OFFERED_CONSENSUS_FLAG :: u8 where
  "OFFERED_CONSENSUS_FLAG = 0"

definition RECEIVED_CONSENSUS_FLAG :: u8 where
  "RECEIVED_CONSENSUS_FLAG = 1"

fun enc_htlc_kind :: "htlc_script_kind \<Rightarrow> bytes" where
  "enc_htlc_kind Offered = enc_u8 OFFERED_CONSENSUS_FLAG"
| "enc_htlc_kind (Received cltv_expiry) = enc_u8 RECEIVED_CONSENSUS_FLAG @ enc_u32 cltv_expiry"

definition dec_htlc_kind :: "htlc_script_kind decoder" where
  "dec_htlc_kind bs =
     bindE (dec_u8 bs) (\<lambda>(b, bs).
       if b = OFFERED_CONSENSUS_FLAG then Inr (Offered, bs)
       else if b = RECEIVED_CONSENSUS_FLAG then
         bindE (dec_u32 bs) (\<lambda>(cltv_expiry, bs). Inr (Received cltv_expiry, bs))
       else Inl (ParseFailed ''Unknown HTLC script kind''))"

definition enc_htlc_data :: "bitcoin_ext \<Rightarrow> htlc_data \<Rightarrow> bytes" where
  "enc_htlc_data X d =
     revocation_key_hash d @ x_pubkey_serialize X (remote_htlc_key d) @
     x_pubkey_serialize X (local_htlc_key d) @ payment_hash d @ enc_htlc_kind (htlc_kind d)"

definition dec_htlc_data :: "bitcoin_ext \<Rightarrow> htlc_data decoder" where
  "dec_htlc_data X bs =
     bindE (read_exact 20 bs) (\<lambda>(b, bs).
     bindE (ok_or (ParseFailed ''Failed to parse the hash'') (x_hash160_from_slice X b)) (\<lambda>rh.
     bindE (dec_pubkey X ''Failed to parse the public key'' bs) (\<lambda>(rk, bs).
     bindE (dec_pubkey X ''Failed to parse the hash'' bs) (\<lambda>(lk, bs).
     bindE (read_exact 20 bs) (\<lambda>(ph, bs).
     bindE (dec_htlc_kind bs) (\<lambda>(kind, bs).
     Inr (\<lparr>revocation_key_hash = rh, remote_htlc_key = rk, local_htlc_key = lk,
           payment_hash = ph, htlc_kind = kind\<rparr>, bs)))))))"

definition enc_htlc_proof :: "bitcoin_ext \<Rightarrow> htlc_proof \<Rightarrow> bytes" where
  "enc_htlc_proof X pf = enc_pixel X (htlc_pixel pf) @ enc_htlc_data X (htlc_proof.htlc_data pf)"

definition dec_htlc_proof :: "bitcoin_ext \<Rightarrow> htlc_proof decoder" where
  "dec_htlc_proof X bs =
     bindE (dec_pixel X bs) (\<lambda>(p, bs).
     bindE (dec_htlc_data X bs) (\<lambda>(d, bs).
     Inr (\<lparr>htlc_pixel = p, htlc_data = d\<rparr>, bs)))"

definition P2WPKH_FLAG :: u8 where
  "P2WPKH_FLAG = 0"

definition MULTISIG_FLAG :: u8 where
  "MULTISIG_FLAG = 1"

definition LIGHTNING_FLAG :: u8 where
  "LIGHTNING_FLAG = 2"

definition LIGHTNING_HTLC_FLAG :: u8 where
  "LIGHTNING_HTLC_FLAG = 3"

definition EMPTY_PIXEL_FLAG :: u8 where
  "EMPTY_PIXEL_FLAG = 5"

definition P2WSH_FLAG :: u8 where
  "P2WSH_FLAG = 6"

lemmas proof_flags = P2WPKH_FLAG_def MULTISIG_FLAG_def LIGHTNING_FLAG_def LIGHTNING_HTLC_FLAG_def
  EMPTY_PIXEL_FLAG_def P2WSH_FLAG_def OFFERED_CONSENSUS_FLAG_def RECEIVED_CONSENSUS_FLAG_def

fun enc_proof :: "bitcoin_ext \<Rightarrow> pixel_proof \<Rightarrow> bytes" where
  "enc_proof X (Sig pf) = enc_u8 P2WPKH_FLAG @ enc_sig_proof X pf"
| "enc_proof X (P2WSH pf) = enc_u8 P2WSH_FLAG @ enc_p2wsh_proof X pf"
| "enc_proof X (EmptyPixel pf) = enc_u8 EMPTY_PIXEL_FLAG @ enc_empty_proof X pf"
| "enc_proof X (Multisig pf) = enc_u8 MULTISIG_FLAG @ enc_multisig_proof X pf"
| "enc_proof X (Lightning pf) = enc_u8 LIGHTNING_FLAG @ enc_lightning_proof X pf"
| "enc_proof X (LightningHtlc pf) = enc_u8 LIGHTNING_HTLC_FLAG @ enc_htlc_proof X pf"

definition dec_proof :: "bitcoin_ext \<Rightarrow> pixel_proof decoder" where
  "dec_proof X bs =
     bindE (dec_u8 bs) (\<lambda>(flag, bs).
       if flag = P2WPKH_FLAG then bindE (dec_sig_proof X bs) (\<lambda>(pf, bs). Inr (Sig pf, bs))
       else if flag = P2WSH_FLAG then bindE (dec_p2wsh_proof X bs) (\<lambda>(pf, bs). Inr (P2WSH pf, bs))
       else if flag = EMPTY_PIXEL_FLAG then
         bindE (dec_empty_proof X bs) (\<lambda>(pf, bs). Inr (EmptyPixel pf, bs))
       else if flag = MULTISIG_FLAG then
         bindE (dec_multisig_proof X bs) (\<lambda>(pf, bs). Inr (Multisig pf, bs))
       else if flag = LIGHTNING_FLAG then
         bindE (dec_lightning_proof X bs) (\<lambda>(pf, bs). Inr (Lightning pf, bs))
       else if flag = LIGHTNING_HTLC_FLAG then
         bindE (dec_htlc_proof X bs) (\<lambda>(pf, bs). Inr (LightningHtlc pf, bs))
       else Inl (ParseFailed ''Unknown pixel proof''))"

section \<open>Maps and options\<close>

definition enc_btree :: "('k \<Rightarrow> bytes) \<Rightarrow> ('v \<Rightarrow> bytes) \<Rightarrow> ('k, 'v) btree_map \<Rightarrow> bytes" where
  "enc_btree ek ev m =
     enc_u32 (of_nat (length m)) @ concat (map (\<lambda>(k, v). ek k @ ev v) m)"

primrec dec_btree_loop ::
  "nat \<Rightarrow> 'k::linorder decoder \<Rightarrow> 'v decoder \<Rightarrow> ('k, 'v) btree_map \<Rightarrow> ('k, 'v) btree_map decoder" where
  "dec_btree_loop 0 dk dv m bs = Inr (m, bs)"
| "dec_btree_loop (Suc n) dk dv m bs =
     bindE (dk bs) (\<lambda>(k, bs).
     bindE (dv bs) (\<lambda>(v, bs).
     dec_btree_loop n dk dv (bt_insert k v m) bs))"

definition dec_btree :: "'k::linorder decoder \<Rightarrow> 'v decoder \<Rightarrow> ('k, 'v) btree_map decoder" where
  "dec_btree dk dv bs =
     bindE (dec_u32 bs) (\<lambda>(len, bs). dec_btree_loop (unat len) dk dv [] bs)"

fun enc_option :: "('a \<Rightarrow> bytes) \<Rightarrow> 'a option \<Rightarrow> bytes" where
  "enc_option e (Some v) = enc_u8 1 @ e v"
| "enc_option e None = enc_u8 0"

definition dec_option :: "'a decoder \<Rightarrow> 'a option decoder" where
  "dec_option d bs =
     bindE (dec_u8 bs) (\<lambda>(value, bs).
       if value = 0 then Inr (None, bs)
       else bindE (d bs) (\<lambda>(v, bs). Inr (Some v, bs)))"

definition enc_proof_map :: "bitcoin_ext \<Rightarrow> proof_map \<Rightarrow> bytes" where
  "enc_proof_map X = enc_btree enc_u32 (enc_proof X)"

definition dec_proof_map :: "bitcoin_ext \<Rightarrow> proof_map decoder" where
  "dec_proof_map X = dec_btree dec_u32 (dec_proof X)"

section \<open>Transactions\<close>

definition enc_issue_announcement :: "bitcoin_ext \<Rightarrow> issue_announcement \<Rightarrow> bytes" where
  "enc_issue_announcement X a = any_to_bytes ISSUE_ANNOUNCEMENT_KIND (issue_to_data X a)"

definition dec_issue_announcement :: "bitcoin_ext \<Rightarrow> issue_announcement decoder" where
  "dec_issue_announcement X bs =
     bindE (read_exact (ISSUE_ANNOUNCEMENT_SIZE + ANNOUNCEMENT_MINIMAL_LENGTH) bs) (\<lambda>(b, bs).
     bindE (map_err (\<lambda>_. Io InvalidData) (any_from_bytes (issue_from_data X) b)) (\<lambda>a. Inr (a, bs)))"

definition enc_announcement :: "bitcoin_ext \<Rightarrow> announcement \<Rightarrow> bytes" where
  "enc_announcement X a = announcement_to_bytes X a"

text \<open>The decoder of an announcement reads to the end of its input.\<close>

definition dec_announcement :: "bitcoin_ext \<Rightarrow> announcement decoder" where
  "dec_announcement X bs =
     bindE (map_err (\<lambda>_. Io InvalidData) (announcement_from_bytes X bs)) (\<lambda>a. Inr (a, []))"

definition ISSUE_CONSENSUS_FLAG :: u8 where
  "ISSUE_CONSENSUS_FLAG = 0"

definition TRANSFER_CONSENSUS_FLAG :: u8 where
  "TRANSFER_CONSENSUS_FLAG = 1"

definition ANNOUNCEMENT_CONSENSUS_FLAG :: u8 where
  "ANNOUNCEMENT_CONSENSUS_FLAG = 2"

definition INVENTORY_YTX_FLAG :: u8 where
  "INVENTORY_YTX_FLAG = 0"

lemmas tx_flags = ISSUE_CONSENSUS_FLAG_def TRANSFER_CONSENSUS_FLAG_def
  ANNOUNCEMENT_CONSENSUS_FLAG_def INVENTORY_YTX_FLAG_def

fun enc_yuv_tx_type :: "bitcoin_ext \<Rightarrow> yuv_tx_type \<Rightarrow> bytes" where
  "enc_yuv_tx_type X (Issue outs ann) =
     enc_u8 ISSUE_CONSENSUS_FLAG @ enc_issue_announcement X ann @ enc_option (enc_proof_map X) outs"
| "enc_yuv_tx_type X (Transfer ins outs) =
     enc_u8 TRANSFER_CONSENSUS_FLAG @ enc_proof_map X ins @ enc_proof_map X outs"
| "enc_yuv_tx_type X (Announcement ann) =
     enc_u8 ANNOUNCEMENT_CONSENSUS_FLAG @ enc_announcement X ann"

definition dec_yuv_tx_type :: "bitcoin_ext \<Rightarrow> yuv_tx_type decoder" where
  "dec_yuv_tx_type X bs =
     bindE (dec_u8 bs) (\<lambda>(kind, bs).
       if kind = ISSUE_CONSENSUS_FLAG then
         bindE (dec_issue_announcement X bs) (\<lambda>(ann, bs).
         bindE (dec_option (dec_proof_map X) bs) (\<lambda>(outs, bs).
         Inr (Issue outs ann, bs)))
       else if kind = TRANSFER_CONSENSUS_FLAG then
         bindE (dec_proof_map X bs) (\<lambda>(ins, bs).
         bindE (dec_proof_map X bs) (\<lambda>(outs, bs).
         Inr (Transfer ins outs, bs)))
       else if kind = ANNOUNCEMENT_CONSENSUS_FLAG then
         bindE (dec_announcement X bs) (\<lambda>(ann, bs). Inr (Announcement ann, bs))
       else Inl (ParseFailed ''Unknown YUV tx type''))"

definition enc_yuv_tx :: "bitcoin_ext \<Rightarrow> yuv_transaction \<Rightarrow> bytes" where
  "enc_yuv_tx X tx = x_tx_encode X (bitcoin_tx tx) @ enc_yuv_tx_type X (tx_type tx)"

definition dec_yuv_tx :: "bitcoin_ext \<Rightarrow> yuv_transaction decoder" where
  "dec_yuv_tx X bs =
     bindE (x_tx_decode X bs) (\<lambda>(btx, bs).
     bindE (dec_yuv_tx_type X bs) (\<lambda>(ty, bs).
     Inr (\<lparr>bitcoin_tx = btx, tx_type = ty\<rparr>, bs)))"

definition enc_yuv_txs :: "bitcoin_ext \<Rightarrow> yuv_transaction list \<Rightarrow> bytes" where
  "enc_yuv_txs X txs = enc_u32 (of_nat (length txs)) @ concat (map (enc_yuv_tx X) txs)"

definition dec_yuv_txs :: "bitcoin_ext \<Rightarrow> yuv_transaction list decoder" where
  "dec_yuv_txs X bs =
     bindE (dec_u32 bs) (\<lambda>(len, bs). dec_times (unat len) (dec_yuv_tx X) bs)"

section \<open>Inventories\<close>

fun enc_inventory :: "inventory \<Rightarrow> bytes" where
  "enc_inventory (Ytx txid) = enc_u8 INVENTORY_YTX_FLAG @ txid"

definition dec_inventory :: "inventory decoder" where
  "dec_inventory bs =
     bindE (dec_u8 bs) (\<lambda>(flag, bs).
       if flag = INVENTORY_YTX_FLAG then bindE (read_exact 32 bs) (\<lambda>(t, bs). Inr (Ytx t, bs))
       else Inl (ParseFailed ''Unknown inventory type''))"

definition enc_inventories :: "inventory list \<Rightarrow> bytes" where
  "enc_inventories invs = enc_u32 (of_nat (length invs)) @ concat (map enc_inventory invs)"

definition dec_inventories :: "inventory list decoder" where
  "dec_inventories bs =
     bindE (dec_u32 bs) (\<lambda>(len, bs). dec_times (unat len) dec_inventory bs)"

section \<open>Values that are encoded\<close>

definition wf_script :: "bitcoin_ext \<Rightarrow> script \<Rightarrow> bool" where
  "wf_script X s \<longleftrightarrow> (\<forall>rest. x_script_decode X (x_script_encode X s @ rest) = Inr (s, rest))"

definition wf_tx :: "bitcoin_ext \<Rightarrow> transaction \<Rightarrow> bool" where
  "wf_tx X t \<longleftrightarrow> (\<forall>rest. x_tx_decode X (x_tx_encode X t @ rest) = Inr (t, rest))"

definition wf_hash160 :: "bitcoin_ext \<Rightarrow> bytes \<Rightarrow> bool" where
  "wf_hash160 X h \<longleftrightarrow> length h = 20 \<and> x_hash160_from_slice X h = Some h"

fun wf_proof :: "bitcoin_ext \<Rightarrow> pixel_proof \<Rightarrow> bool" where
  "wf_proof X (Sig pf) = (wf_pixel X (sig_pixel pf) \<and> wf_pubkey X (sig_inner_key pf))"
| "wf_proof X (EmptyPixel pf) = wf_pubkey X (empty_inner_key pf)"
| "wf_proof X (P2WSH pf) =
     (wf_pixel X (wsh_pixel pf) \<and> wf_pubkey X (wsh_inner_key pf) \<and> wf_script X (wsh_script pf))"
| "wf_proof X (Multisig pf) =
     (wf_pixel X (ms_pixel pf) \<and> list_all (wf_pubkey X) (ms_inner_keys pf) \<and>
      length (ms_inner_keys pf) < 2 ^ 32 \<and>
      sort_by (x_pubkey_le X) (ms_inner_keys pf) = ms_inner_keys pf)"
| "wf_proof X (Lightning pf) =
     (wf_pixel X (ln_pixel pf) \<and> wf_pubkey X (revocation_pubkey (ln_data pf)) \<and>
      wf_pubkey X (local_delayed_pubkey (ln_data pf)))"
| "wf_proof X (LightningHtlc pf) =
     (let d = htlc_proof.htlc_data pf in
      wf_pixel X (htlc_pixel pf) \<and> wf_hash160 X (revocation_key_hash d) \<and>
      wf_pubkey X (remote_htlc_key d) \<and> wf_pubkey X (local_htlc_key d) \<and>
      wf_hash160 X (payment_hash d))"

definition wf_proof_map :: "bitcoin_ext \<Rightarrow> proof_map \<Rightarrow> bool" where
  "wf_proof_map X m \<longleftrightarrow> bt_wf m \<and> length m < 2 ^ 32 \<and> list_all (wf_proof X) (map snd m)"

fun wf_yuv_tx_type :: "bitcoin_ext \<Rightarrow> yuv_tx_type \<Rightarrow> bool" where
  "wf_yuv_tx_type X (Issue outs ann) =
     (wf_issue_announcement X ann \<and> (\<forall>m \<in> set_option outs. wf_proof_map X m))"
| "wf_yuv_tx_type X (Transfer ins outs) = (wf_proof_map X ins \<and> wf_proof_map X outs)"
| "wf_yuv_tx_type X (Announcement ann) = wf_announcement X ann"

definition wf_yuv_tx :: "bitcoin_ext \<Rightarrow> yuv_transaction \<Rightarrow> bool" where
  "wf_yuv_tx X tx \<longleftrightarrow> wf_tx X (bitcoin_tx tx) \<and> wf_yuv_tx_type X (tx_type tx)"

section \<open>Round trips\<close>

lemma unat_of_nat_u32: "n < 2 ^ 32 \<Longrightarrow> unat (of_nat n :: u32) = n"
  by (simp add: unat_of_nat take_bit_eq_mod)

lemma dec_enc_pixel [codec_simps]:
  "wf_pixel X p \<Longrightarrow> dec_pixel X (enc_pixel X p @ rest) = Inr (p, rest)"
  using pixel_from_to_bytes_append [of X p "[]"]
  by (simp add: dec_pixel_def enc_pixel_def codec_simps pixel_sizes)

lemma dec_enc_pubkey [codec_simps]:
  "wf_pubkey X k \<Longrightarrow> dec_pubkey X msg (x_pubkey_serialize X k @ rest) = Inr (k, rest)"
  by (simp add: dec_pubkey_def wf_pubkey_def codec_simps)

interpretation multisig_key_codec: codec "x_pubkey_serialize X" "dec_multisig_key X" "wf_pubkey X"
  for X
  by unfold_locales (simp add: dec_multisig_key_def wf_pubkey_def codec_simps)

lemma dec_enc_htlc_kind [codec_simps]:
  "dec_htlc_kind (enc_htlc_kind k @ rest) = Inr (k, rest)"
  by (cases k) (simp_all add: dec_htlc_kind_def enc_u8_def codec_simps proof_flags)

lemma dec_enc_multisig_proof:
  assumes "wf_proof X (Multisig pf)"
  shows "dec_multisig_proof X (enc_multisig_proof X pf @ rest) = Inr (pf, rest)"
proof -
  have "dec_times (length (ms_inner_keys pf)) (dec_multisig_key X)
      (concat (map (x_pubkey_serialize X) (ms_inner_keys pf)) @ enc_u8 (ms_m pf) @ rest) =
      Inr (ms_inner_keys pf, enc_u8 (ms_m pf) @ rest)"
    using assms by (intro multisig_key_codec.dec_times_enc) (simp add: list_all_iff)
  with assms show ?thesis
    by (simp add: dec_multisig_proof_def enc_multisig_proof_def codec_simps unat_of_nat_u32
        enc_u8_def multisig_new_def)
qed

interpretation proof_codec: codec "enc_proof X" "dec_proof X" "wf_proof X" for X
proof
  fix pf rest assume wf: "wf_proof X pf"
  show "dec_proof X (enc_proof X pf @ rest) = Inr (pf, rest)"
  proof (cases pf)
    case (Multisig m)
    with wf dec_enc_multisig_proof [of X m rest] show ?thesis
      by (simp add: dec_proof_def enc_u8_def codec_simps proof_flags)
  qed (use wf in \<open>simp_all add: dec_proof_def enc_u8_def codec_simps proof_flags
        dec_sig_proof_def enc_sig_proof_def dec_empty_proof_def enc_empty_proof_def
        dec_p2wsh_proof_def enc_p2wsh_proof_def wf_script_def dec_lightning_proof_def
        enc_lightning_proof_def dec_htlc_proof_def enc_htlc_proof_def dec_htlc_data_def
        enc_htlc_data_def wf_hash160_def Let_def\<close>)
qed

lemma dec_btree_loop_enc:
  assumes "\<And>k rest. dk (ek k @ rest) = Inr (k, rest)" and "codec ev dv okv"
  shows "list_all okv (map snd es) \<Longrightarrow>
    dec_btree_loop (length es) dk dv m (concat (map (\<lambda>(k, v). ek k @ ev v) es) @ rest) =
    Inr (foldl (\<lambda>acc (k, v). bt_insert k v acc) m es, rest)"
proof (induction es arbitrary: m)
  case (Cons e es)
  obtain k v where "e = (k, v)" by (cases e)
  with Cons show ?case
    by (simp add: assms(1) codec.dec_enc [OF assms(2)])
qed simp

interpretation proof_map_codec: codec "enc_proof_map X" "dec_proof_map X" "wf_proof_map X" for X
proof
  fix m :: proof_map and rest assume "wf_proof_map X m"
  moreover have "codec (enc_proof X) (dec_proof X) (wf_proof X)"
    by (rule proof_codec.codec_axioms)
  ultimately show "dec_proof_map X (enc_proof_map X m @ rest) = Inr (m, rest)"
    by (simp add: dec_proof_map_def enc_proof_map_def dec_btree_def enc_btree_def codec_simps
        wf_proof_map_def unat_of_nat_u32 dec_btree_loop_enc foldl_bt_insert)
qed

lemma option_codec:
  assumes "codec e d ok"
  shows "codec (enc_option e) (dec_option d) (\<lambda>v. \<forall>x \<in> set_option v. ok x)"
proof
  fix v :: "'a option" and rest assume "\<forall>x \<in> set_option v. ok x"
  then show "dec_option d (enc_option e v @ rest) = Inr (v, rest)"
    by (cases v) (simp_all add: dec_option_def enc_u8_def codec_simps codec.dec_enc [OF assms])
qed

interpretation issue_codec: codec "enc_issue_announcement X" "dec_issue_announcement X"
  "wf_issue_announcement X" for X
proof
  fix a rest assume wf: "wf_issue_announcement X a"
  have "length (enc_issue_announcement X a) = ISSUE_ANNOUNCEMENT_SIZE + ANNOUNCEMENT_MINIMAL_LENGTH"
    using wf by (simp add: enc_issue_announcement_def any_to_bytes_def issue_to_data_def
        wf_issue_announcement_def ISSUE_ANNOUNCEMENT_SIZE_def CHROMA_SIZE_def announcement_consts
        announcement_kinds)
  then show "dec_issue_announcement X (enc_issue_announcement X a @ rest) = Inr (a, rest)"
    using issue_ann.from_to_bytes [OF wf]
    by (simp add: dec_issue_announcement_def codec_simps enc_issue_announcement_def)
qed

lemma dec_enc_tx_type:
  assumes "wf_yuv_tx_type X ty" and "\<not> is_announcement_tx ty"
  shows "dec_yuv_tx_type X (enc_yuv_tx_type X ty @ rest) = Inr (ty, rest)"
proof (cases ty)
  case (Issue outs ann)
  with assms show ?thesis
    by (simp add: dec_yuv_tx_type_def enc_u8_def codec_simps tx_flags issue_codec.dec_enc
        codec.dec_enc [OF option_codec [OF proof_map_codec.codec_axioms]])
next
  case (Transfer ins outs)
  with assms show ?thesis
    by (simp add: dec_yuv_tx_type_def enc_u8_def codec_simps tx_flags proof_map_codec.dec_enc)
qed (use assms in simp)

lemma dec_enc_announcement_type:
  assumes "wf_announcement X ann"
  shows "dec_yuv_tx_type X (enc_yuv_tx_type X (Announcement ann)) = Inr (Announcement ann, [])"
  using announcement_from_to_bytes [OF assms]
  by (simp add: dec_yuv_tx_type_def enc_u8_def codec_simps tx_flags dec_announcement_def
      enc_announcement_def)

interpretation yuv_tx_codec: codec "enc_yuv_tx X" "dec_yuv_tx X"
  "\<lambda>tx. wf_yuv_tx X tx \<and> \<not> is_announcement_tx (tx_type tx)" for X
  by unfold_locales (simp add: dec_yuv_tx_def enc_yuv_tx_def wf_yuv_tx_def wf_tx_def dec_enc_tx_type)

lemma dec_enc_yuv_tx:
  assumes "wf_yuv_tx X tx"
  shows "dec_yuv_tx X (enc_yuv_tx X tx) = Inr (tx, [])"
proof (cases "is_announcement_tx (tx_type tx)")
  case True
  then obtain ann where "tx_type tx = Announcement ann" by (cases "tx_type tx") simp_all
  with assms dec_enc_announcement_type [of X ann] show ?thesis
    by (simp add: dec_yuv_tx_def enc_yuv_tx_def wf_yuv_tx_def wf_tx_def)
next
  case False
  with assms show ?thesis by (simp add: yuv_tx_codec.dec_enc_nil)
qed

interpretation inventory_codec: codec enc_inventory dec_inventory "\<lambda>(Ytx t) \<Rightarrow> length t = 32"
proof
  fix i :: inventory and rest assume "case i of Ytx t \<Rightarrow> length t = 32"
  then show "dec_inventory (enc_inventory i @ rest) = Inr (i, rest)"
    by (cases i) (simp add: dec_inventory_def enc_u8_def codec_simps tx_flags)
qed

lemma dec_times_append:
  "dec_times (m + n) d bs =
     bindE (dec_times m d bs) (\<lambda>(xs, bs). bindE (dec_times n d bs) (\<lambda>(ys, bs). Inr (xs @ ys, bs)))"
proof (induction m arbitrary: bs)
  case (Suc m)
  show ?case by (auto simp: Suc bindE_def split: sum.splits)
qed (auto simp: bindE_def split: sum.splits)

lemma dec_batch_prefix:
  assumes "list_all (\<lambda>t. wf_yuv_tx X t \<and> \<not> is_announcement_tx (tx_type t)) txs"
  shows "dec_times (length txs + n) (dec_yuv_tx X) (concat (map (enc_yuv_tx X) txs) @ rest) =
    bindE (dec_times n (dec_yuv_tx X) rest) (\<lambda>(ys, bs). Inr (txs @ ys, bs))"
  using assms yuv_tx_codec.dec_times_enc [of txs X rest]
  by (simp add: dec_times_append list_all_iff)

lemma dec_yuv_txs_enc:
  "length txs < 2 ^ 32 \<Longrightarrow> dec_yuv_txs X (enc_yuv_txs X txs) =
     dec_times (length txs) (dec_yuv_tx X) (concat (map (enc_yuv_tx X) txs))"
  by (simp add: dec_yuv_txs_def enc_yuv_txs_def codec_simps unat_of_nat_u32)

lemma dec_enc_yuv_txs:
  assumes "list_all (wf_yuv_tx X) txs" and "length txs < 2 ^ 32"
    and "list_all (\<lambda>t. \<not> is_announcement_tx (tx_type t)) (butlast txs)"
  shows "dec_yuv_txs X (enc_yuv_txs X txs) = Inr (txs, [])"
proof (cases txs rule: rev_cases)
  case Nil
  then show ?thesis by (simp add: dec_yuv_txs_enc)
next
  case (snoc init t)
  have "dec_times (length init + 1) (dec_yuv_tx X)
      (concat (map (enc_yuv_tx X) init) @ enc_yuv_tx X t) = Inr (txs, [])"
    using assms dec_enc_yuv_tx [of X t] unfolding snoc
    by (subst dec_batch_prefix) (simp_all add: list_all_iff)
  then show ?thesis
    by (simp only: dec_yuv_txs_enc [OF assms(2)]) (simp add: snoc)
qed

text \<open>C15. A batch of transactions survives the wire when only its last transaction may be an
  announcement: the decoder returns exactly the transactions that were encoded.
\<close>

theorem yuv_txs_round_trip:
  assumes "list_all (wf_yuv_tx X) txs" and "length txs < 2 ^ 32"
    and "list_all (\<lambda>t. \<not> is_announcement_tx (tx_type t)) (butlast txs)"
  shows "dec_yuv_txs X (enc_yuv_txs X txs) = Inr (txs, [])"
  by (rule dec_enc_yuv_txs [OF assms])

lemma sample_wf_tx: "wf_tx sample_ext (sample_tx n)"
  by (simp add: wf_tx_def sample_ext_def sample_tx_def dec_u32_def codec_simps)

definition sample_transfer_tx :: yuv_transaction where
  "sample_transfer_tx = \<lparr>bitcoin_tx = sample_tx 1, tx_type = Transfer [] [(0, sample_sig)]\<rparr>"

definition sample_announcement_tx :: yuv_transaction where
  "sample_announcement_tx =
     \<lparr>bitcoin_tx = sample_tx 2, tx_type = Announcement (TransferOwnershipAnn sample_transfer)\<rparr>"

lemma sample_types:
  "\<not> is_announcement_tx (tx_type sample_transfer_tx)" "is_announcement_tx (tx_type sample_announcement_tx)"
  "bitcoin_tx sample_announcement_tx = sample_tx 2"
  by (simp_all add: sample_transfer_tx_def sample_announcement_tx_def)

lemma sample_wf_yuv_txs:
  "wf_yuv_tx sample_ext sample_transfer_tx" "wf_yuv_tx sample_ext sample_announcement_tx"
  by (simp_all add: sample_transfer_tx_def sample_announcement_tx_def wf_yuv_tx_def sample_wf_tx
      wf_proof_map_def bt_wf_def sample_sig_def sample_transfer_def wf_transfer_announcement_def
      wf_chroma_def transfer_sizes)

theorem yuv_txs_round_trip_witness:
  "dec_yuv_txs sample_ext
     (enc_yuv_txs sample_ext [sample_transfer_tx, sample_announcement_tx]) =
   Inr ([sample_transfer_tx, sample_announcement_tx], [])"
  using yuv_txs_round_trip [of sample_ext "[sample_transfer_tx, sample_announcement_tx]"]
  by (simp add: sample_wf_yuv_txs sample_types)

text \<open>A batch with an announcement before its end does not decode: the decoder of the
  announcement takes the rest of the message, and the batch fails for every choice of the
  transactions around it.
\<close>

lemma yuv_txs_announcement_breaks_batch:
  assumes pre: "list_all (\<lambda>t. wf_yuv_tx X t \<and> \<not> is_announcement_tx (tx_type t)) pre"
    and t: "wf_tx X (bitcoin_tx t)" "is_announcement_tx (tx_type t)"
    and post: "post \<noteq> []" and len: "length (pre @ t # post) < 2 ^ 32"
    and empty: "\<not> is_ok (x_tx_decode X [])"
  shows "\<not> is_ok (dec_yuv_txs X (enc_yuv_txs X (pre @ t # post)))"
proof -
  let ?rest = "concat (map (enc_yuv_tx X) (t # post))"
  obtain ann where ann: "tx_type t = Announcement ann" using t(2) by (cases "tx_type t") simp_all
  obtain n where n: "length post = Suc n" using post by (cases post) auto
  obtain e where e: "x_tx_decode X [] = Inl e" using empty by (cases "x_tx_decode X []") auto
  have "\<not> is_ok (dec_times (Suc (Suc n)) (dec_yuv_tx X) ?rest)"
  proof (cases "announcement_from_bytes X
      (announcement_to_bytes X ann @ concat (map (enc_yuv_tx X) post))")
    case (Inl err)
    then show ?thesis
      using t(1) by (simp add: dec_yuv_tx_def enc_yuv_tx_def wf_tx_def ann dec_yuv_tx_type_def
          enc_u8_def codec_simps tx_flags dec_announcement_def enc_announcement_def)
  next
    case (Inr a)
    then show ?thesis
      using t(1) by (simp add: dec_yuv_tx_def enc_yuv_tx_def wf_tx_def ann dec_yuv_tx_type_def
          enc_u8_def codec_simps tx_flags dec_announcement_def enc_announcement_def e)
  qed
  then have "\<not> is_ok (dec_times (length pre + Suc (Suc n)) (dec_yuv_tx X)
      (concat (map (enc_yuv_tx X) pre) @ ?rest))"
    unfolding dec_batch_prefix [OF pre]
    by (cases "dec_times (Suc (Suc n)) (dec_yuv_tx X) ?rest") simp_all
  then show ?thesis
    by (simp only: dec_yuv_txs_enc [OF len]) (simp add: n)
qed

lemma yuv_txs_announcement_breaks_batch_witness:
  "\<not> is_ok (dec_yuv_txs sample_ext
     (enc_yuv_txs sample_ext [sample_announcement_tx, sample_transfer_tx]))"
proof -
  have "\<not> is_ok (x_tx_decode sample_ext [])"
    by (simp add: sample_ext_def dec_u32_def read_exact_def)
  then show ?thesis
    using yuv_txs_announcement_breaks_batch [of sample_ext "[]" sample_announcement_tx
        "[sample_transfer_tx]"]
    by (simp add: sample_types sample_wf_tx)
qed

text \<open>An inventory survives the wire: the ids a peer decodes are the ids that were sent.
\<close>

lemma inventories_round_trip:
  assumes "length ids < 2 ^ 32" and "list_all (\<lambda>t. length t = 32) ids"
  shows "dec_inventories (enc_inventories (map Ytx ids)) = Inr (map Ytx ids, [])"
  using assms inventory_codec.dec_times_enc [of "map Ytx ids" "[]"]
  by (simp add: dec_inventories_def enc_inventories_def codec_simps unat_of_nat_u32 list_all_iff)

lemma inventories_round_trip_witness:
  "dec_inventories (enc_inventories (map Ytx [replicate 32 1, replicate 32 2])) =
   Inr (map Ytx [replicate 32 1, replicate 32 2], [])"
  using inventories_round_trip [of "[replicate 32 1, replicate 32 2]"] by simp

end
