(* ===== verification/Storage.thy ===== *)
theory Storage
  imports Consensus
begin

text \<open>
  The node's persistent state (\<open>storage/src/traits/\<close>). The stores of the services are
  records of typed maps (\<open>storage\<close>); below them the single byte-keyed database
  (\<open>KeyValueStorage\<close>) with the keys and prefixes the traits build. The keys never
  clash, so the database refines the record. CBOR (\<open>ciborium\<close>) and the database engine
  are parameters; a read or a write of the engine that fails is not modelled.
\<close>

section \<open>Entries\<close>

datatype mempool_status = Initialized | WaitingMined | Mined | Attaching | Pending

record mempool_entry =
  yuv_tx :: yuv_transaction
  status :: mempool_status
  sender :: "socket_addr option"

definition mempool_entry_of :: "yuv_transaction \<Rightarrow> mempool_entry" where
  "mempool_entry_of tx = \<lparr>yuv_tx = tx, status = Initialized, sender = None\<rparr>"

definition entry_txid :: "bitcoin_ext \<Rightarrow> mempool_entry \<Rightarrow> txid" where
  "entry_txid X e = yuv_txid X (yuv_tx e)"

record tx_freeze_entry =
  fe_txid :: txid
  fe_chroma :: chroma

section \<open>Typed maps\<close>

record storage =
  db_txs :: "(txid \<times> yuv_transaction) list"
  db_invalid :: "(txid \<times> yuv_transaction) list"
  db_inventory :: "txid list option"
  db_pages_number :: "u64 option"
  db_pages :: "(u64 \<times> txid list) list"
  db_indexed_block :: "block_hash option"
  db_is_indexed :: "unit option"
  db_frozen :: "(outpoint \<times> tx_freeze_entry) list"
  db_chroma :: "(chroma \<times> chroma_info) list"
  db_mempool :: "txid list option"
  db_entries :: "(txid \<times> mempool_entry) list"

definition empty_storage :: storage where
  "empty_storage =
     \<lparr>db_txs = [], db_invalid = [], db_inventory = None, db_pages_number = None, db_pages = [],
      db_indexed_block = None, db_is_indexed = None, db_frozen = [], db_chroma = [],
      db_mempool = None, db_entries = []\<rparr>"

definition get_yuv_tx :: "storage \<Rightarrow> txid \<Rightarrow> yuv_transaction option" where
  "get_yuv_tx s t = map_of (db_txs s) t"

definition put_yuv_tx :: "bitcoin_ext \<Rightarrow> yuv_transaction \<Rightarrow> storage \<Rightarrow> storage" where
  "put_yuv_tx X tx s = s\<lparr>db_txs := AList.update (yuv_txid X tx) tx (db_txs s)\<rparr>"

definition delete_yuv_tx :: "txid \<Rightarrow> storage \<Rightarrow> storage" where
  "delete_yuv_tx t s = s\<lparr>db_txs := AList.delete t (db_txs s)\<rparr>"

definition get_invalid_tx :: "storage \<Rightarrow> txid \<Rightarrow> yuv_transaction option" where
  "get_invalid_tx s t = map_of (db_invalid s) t"

definition put_invalid_tx :: "bitcoin_ext \<Rightarrow> yuv_transaction \<Rightarrow> storage \<Rightarrow> storage" where
  "put_invalid_tx X tx s = s\<lparr>db_invalid := AList.update (yuv_txid X tx) tx (db_invalid s)\<rparr>"

definition put_invalid_txs :: "bitcoin_ext \<Rightarrow> yuv_transaction list \<Rightarrow> storage \<Rightarrow> storage" where
  "put_invalid_txs X txs s = foldl (\<lambda>s tx. put_invalid_tx X tx s) s txs"

definition delete_invalid_tx :: "txid \<Rightarrow> storage \<Rightarrow> storage" where
  "delete_invalid_tx t s = s\<lparr>db_invalid := AList.delete t (db_invalid s)\<rparr>"

definition get_inventory :: "storage \<Rightarrow> txid list" where
  "get_inventory s = (case db_inventory s of None \<Rightarrow> [] | Some ids \<Rightarrow> ids)"

definition put_inventory :: "txid list \<Rightarrow> storage \<Rightarrow> storage" where
  "put_inventory ids s = s\<lparr>db_inventory := Some ids\<rparr>"

definition get_pages_number :: "storage \<Rightarrow> u64 option" where
  "get_pages_number s = db_pages_number s"

definition put_pages_number :: "u64 \<Rightarrow> storage \<Rightarrow> storage" where
  "put_pages_number n s = s\<lparr>db_pages_number := Some n\<rparr>"

definition get_page_by_num :: "storage \<Rightarrow> u64 \<Rightarrow> txid list option" where
  "get_page_by_num s n = map_of (db_pages s) n"

definition put_page :: "u64 \<Rightarrow> txid list \<Rightarrow> storage \<Rightarrow> storage" where
  "put_page n page s = s\<lparr>db_pages := AList.update n page (db_pages s)\<rparr>"

definition get_last_indexed_hash :: "storage \<Rightarrow> block_hash option" where
  "get_last_indexed_hash s = db_indexed_block s"

definition put_last_indexed_hash :: "block_hash \<Rightarrow> storage \<Rightarrow> storage" where
  "put_last_indexed_hash h s = s\<lparr>db_indexed_block := Some h\<rparr>"

definition get_is_indexed :: "storage \<Rightarrow> unit option" where
  "get_is_indexed s = db_is_indexed s"

definition put_is_indexed :: "storage \<Rightarrow> storage" where
  "put_is_indexed s = s\<lparr>db_is_indexed := Some ()\<rparr>"

definition get_frozen_tx :: "storage \<Rightarrow> outpoint \<Rightarrow> tx_freeze_entry option" where
  "get_frozen_tx s p = map_of (db_frozen s) p"

definition put_frozen_tx :: "outpoint \<Rightarrow> txid \<Rightarrow> chroma \<Rightarrow> storage \<Rightarrow> storage" where
  "put_frozen_tx p t c s =
     s\<lparr>db_frozen := AList.update p \<lparr>fe_txid = t, fe_chroma = c\<rparr> (db_frozen s)\<rparr>"

definition get_chroma_info :: "storage \<Rightarrow> chroma \<Rightarrow> chroma_info option" where
  "get_chroma_info s c = map_of (db_chroma s) c"

definition put_chroma_info ::
  "chroma \<Rightarrow> chroma_announcement option \<Rightarrow> u128 \<Rightarrow> script option \<Rightarrow> storage \<Rightarrow> storage" where
  "put_chroma_info c ann supply owner s =
     s\<lparr>db_chroma := AList.update c
         \<lparr>ci_announcement = ann, ci_total_supply = supply, ci_owner = owner\<rparr> (db_chroma s)\<rparr>"

definition get_mempool :: "storage \<Rightarrow> txid list option" where
  "get_mempool s = db_mempool s"

definition put_mempool :: "txid list \<Rightarrow> storage \<Rightarrow> storage" where
  "put_mempool ids s = s\<lparr>db_mempool := Some ids\<rparr>"

definition get_mempool_entry :: "storage \<Rightarrow> txid \<Rightarrow> mempool_entry option" where
  "get_mempool_entry s t = map_of (db_entries s) t"

definition put_mempool_entry :: "bitcoin_ext \<Rightarrow> mempool_entry \<Rightarrow> storage \<Rightarrow> storage" where
  "put_mempool_entry X e s = s\<lparr>db_entries := AList.update (entry_txid X e) e (db_entries s)\<rparr>"

definition delete_mempool_entry :: "txid \<Rightarrow> storage \<Rightarrow> storage" where
  "delete_mempool_entry t s = s\<lparr>db_entries := AList.delete t (db_entries s)\<rparr>"

lemmas storage_reads = get_yuv_tx_def get_invalid_tx_def get_inventory_def get_pages_number_def
  get_page_by_num_def get_last_indexed_hash_def get_is_indexed_def get_frozen_tx_def
  get_chroma_info_def get_mempool_def get_mempool_entry_def

lemmas storage_writes = put_yuv_tx_def delete_yuv_tx_def put_invalid_tx_def delete_invalid_tx_def
  put_inventory_def put_pages_number_def put_page_def put_last_indexed_hash_def put_is_indexed_def
  put_frozen_tx_def put_chroma_info_def put_mempool_def put_mempool_entry_def
  delete_mempool_entry_def

section \<open>The database below\<close>

type_synonym raw_db = "(bytes \<times> bytes) list"

datatype db_value =
    VTx yuv_transaction
  | VTxids "txid list"
  | VNumber u64
  | VHash block_hash
  | VUnit unit
  | VFreeze tx_freeze_entry
  | VChroma chroma_info
  | VEntry mempool_entry

datatype db_type = TTx | TTxids | TNumber | THash | TUnit | TFreeze | TChroma | TEntry

fun type_of_value :: "db_value \<Rightarrow> db_type" where
  "type_of_value (VTx _) = TTx"
| "type_of_value (VTxids _) = TTxids"
| "type_of_value (VNumber _) = TNumber"
| "type_of_value (VHash _) = THash"
| "type_of_value (VUnit _) = TUnit"
| "type_of_value (VFreeze _) = TFreeze"
| "type_of_value (VChroma _) = TChroma"
| "type_of_value (VEntry _) = TEntry"

text \<open>
  CBOR: \<open>ByteArray\<close> keys are written as a byte string, \<open>[u8; N]\<close> keys as an array of
  numbers; a value is written by its type and read at the type the caller asks for.
\<close>

record cbor_ext =
  c_byte_array :: "bytes \<Rightarrow> bytes"
  c_array :: "bytes \<Rightarrow> bytes"
  c_value :: "db_value \<Rightarrow> bytes"
  c_decode :: "db_type \<Rightarrow> bytes \<Rightarrow> ext_error + db_value"

datatype key_value_error = Decoding ext_error

definition kv_put :: "cbor_ext \<Rightarrow> bytes \<Rightarrow> db_value \<Rightarrow> raw_db \<Rightarrow> raw_db" where
  "kv_put C key v db = AList.update key (c_value C v) db"

definition kv_get :: "cbor_ext \<Rightarrow> bytes \<Rightarrow> db_type \<Rightarrow> raw_db \<Rightarrow> key_value_error + db_value option" where
  "kv_get C key ty db =
     (case map_of db key of
        None \<Rightarrow> Inr None
      | Some value \<Rightarrow> bindE (map_err Decoding (c_decode C ty value)) (\<lambda>v. Inr (Some v)))"

definition kv_delete :: "bytes \<Rightarrow> raw_db \<Rightarrow> raw_db" where
  "kv_delete key db = AList.delete key db"

section \<open>Keys\<close>

definition ascii :: "string \<Rightarrow> bytes" where
  "ascii str = map of_char str"

definition tx_storage_key :: "txid \<Rightarrow> bytes" where
  "tx_storage_key t = ascii ''txs-'' @ t"

definition invalid_txs_storage_key :: "txid \<Rightarrow> bytes" where
  "invalid_txs_storage_key t = ascii ''inv-'' @ t"

definition INVENTORY_KEY :: bytes where
  "INVENTORY_KEY = ascii ''inventory''"

definition PAGES_NUMBER_KEY :: bytes where
  "PAGES_NUMBER_KEY = ascii ''pages-number''"

definition page_key :: "u64 \<Rightarrow> bytes" where
  "page_key n = ascii ''page-'' @ to_be_bytes 8 n"

definition INDEXED_BLOCK_KEY :: bytes where
  "INDEXED_BLOCK_KEY = ascii ''indexed_block''"

definition IS_INDEXED_KEY :: bytes where
  "IS_INDEXED_KEY = ascii ''07-22-2024-bugfix''"

definition frozen_tx_storage_key :: "outpoint \<Rightarrow> bytes" where
  "frozen_tx_storage_key p = ascii ''frz-'' @ op_txid p @ to_be_bytes 4 (op_vout p)"

definition chroma_storage_key :: "bitcoin_ext \<Rightarrow> chroma \<Rightarrow> bytes" where
  "chroma_storage_key X c = ascii ''chrm-'' @ chroma_to_bytes X c"

definition MEMPOOL_KEY :: bytes where
  "MEMPOOL_KEY = ascii ''mempool-''"

definition mempool_entry_key :: "txid \<Rightarrow> bytes" where
  "mempool_entry_key t = MEMPOOL_KEY @ t"

text \<open>The record a trait method reads or writes, its key and the type of its value.\<close>

datatype db_key =
    KTx txid
  | KInvalid txid
  | KInventory
  | KPagesNumber
  | KPage u64
  | KIndexedBlock
  | KIsIndexed
  | KFrozen outpoint
  | KChroma chroma
  | KMempool
  | KEntry txid

fun raw_key :: "cbor_ext \<Rightarrow> bitcoin_ext \<Rightarrow> db_key \<Rightarrow> bytes" where
  "raw_key C X (KTx t) = c_byte_array C (tx_storage_key t)"
| "raw_key C X (KInvalid t) = c_byte_array C (invalid_txs_storage_key t)"
| "raw_key C X KInventory = c_array C INVENTORY_KEY"
| "raw_key C X KPagesNumber = c_array C PAGES_NUMBER_KEY"
| "raw_key C X (KPage n) = c_array C (page_key n)"
| "raw_key C X KIndexedBlock = c_array C INDEXED_BLOCK_KEY"
| "raw_key C X KIsIndexed = c_array C IS_INDEXED_KEY"
| "raw_key C X (KFrozen p) = c_byte_array C (frozen_tx_storage_key p)"
| "raw_key C X (KChroma c) = c_byte_array C (chroma_storage_key X c)"
| "raw_key C X KMempool = c_array C MEMPOOL_KEY"
| "raw_key C X (KEntry t) = c_byte_array C (mempool_entry_key t)"

fun key_type :: "db_key \<Rightarrow> db_type" where
  "key_type (KTx _) = TTx"
| "key_type (KInvalid _) = TTx"
| "key_type KInventory = TTxids"
| "key_type KPagesNumber = TNumber"
| "key_type (KPage _) = TTxids"
| "key_type KIndexedBlock = THash"
| "key_type KIsIndexed = TUnit"
| "key_type (KFrozen _) = TFreeze"
| "key_type (KChroma _) = TChroma"
| "key_type KMempool = TTxids"
| "key_type (KEntry _) = TEntry"

fun lookup :: "storage \<Rightarrow> db_key \<Rightarrow> db_value option" where
  "lookup s (KTx t) = map_option VTx (get_yuv_tx s t)"
| "lookup s (KInvalid t) = map_option VTx (get_invalid_tx s t)"
| "lookup s KInventory = map_option VTxids (db_inventory s)"
| "lookup s KPagesNumber = map_option VNumber (get_pages_number s)"
| "lookup s (KPage n) = map_option VTxids (get_page_by_num s n)"
| "lookup s KIndexedBlock = map_option VHash (get_last_indexed_hash s)"
| "lookup s KIsIndexed = map_option VUnit (get_is_indexed s)"
| "lookup s (KFrozen p) = map_option VFreeze (get_frozen_tx s p)"
| "lookup s (KChroma c) = map_option VChroma (get_chroma_info s c)"
| "lookup s KMempool = map_option VTxids (get_mempool s)"
| "lookup s (KEntry t) = map_option VEntry (get_mempool_entry s t)"

fun wf_key :: "bitcoin_ext \<Rightarrow> db_key \<Rightarrow> bool" where
  "wf_key X (KTx t) = (length t = 32)"
| "wf_key X (KInvalid t) = (length t = 32)"
| "wf_key X (KFrozen p) = wf_outpoint p"
| "wf_key X (KChroma c) = wf_chroma X c"
| "wf_key X (KEntry t) = (length t = 32)"
| "wf_key X _ = True"

text \<open>What the node relies on of CBOR: distinct keys stay distinct, values read back.\<close>

definition cbor_laws :: "cbor_ext \<Rightarrow> bool" where
  "cbor_laws C \<longleftrightarrow>
     inj (c_byte_array C) \<and> inj (c_array C) \<and>
     (\<forall>a b. c_byte_array C a \<noteq> c_array C b)"

definition cbor_round_trips :: "cbor_ext \<Rightarrow> db_value \<Rightarrow> bool" where
  "cbor_round_trips C v \<longleftrightarrow> c_decode C (type_of_value v) (c_value C v) = Inr v"

section \<open>Keys never clash\<close>

lemma to_be_bytes_u64_inj: "to_be_bytes 8 (v :: u64) = to_be_bytes 8 w \<longleftrightarrow> v = w"
  using to_be_bytes_inj [of 8 v w] by auto

lemma to_be_bytes_u32_inj: "to_be_bytes 4 (v :: u32) = to_be_bytes 4 w \<longleftrightarrow> v = w"
  using to_be_bytes_inj [of 4 v w] by auto

lemma ascii_keys:
  "ascii ''txs-'' = [116, 120, 115, 45]" "ascii ''inv-'' = [105, 110, 118, 45]"
  "ascii ''frz-'' = [102, 114, 122, 45]" "ascii ''chrm-'' = [99, 104, 114, 109, 45]"
  "ascii ''mempool-'' = [109, 101, 109, 112, 111, 111, 108, 45]"
  "ascii ''page-'' = [112, 97, 103, 101, 45]"
  "ascii ''pages-number'' = [112, 97, 103, 101, 115, 45, 110, 117, 109, 98, 101, 114]"
  "ascii ''inventory'' = [105, 110, 118, 101, 110, 116, 111, 114, 121]"
  "ascii ''indexed_block'' = [105, 110, 100, 101, 120, 101, 100, 95, 98, 108, 111, 99, 107]"
  "ascii ''07-22-2024-bugfix'' =
     [48, 55, 45, 50, 50, 45, 50, 48, 50, 52, 45, 98, 117, 103, 102, 105, 120]"
  by (simp_all add: ascii_def of_char_def)

lemmas key_defs = tx_storage_key_def invalid_txs_storage_key_def INVENTORY_KEY_def
  PAGES_NUMBER_KEY_def page_key_def INDEXED_BLOCK_KEY_def IS_INDEXED_KEY_def
  frozen_tx_storage_key_def chroma_storage_key_def MEMPOOL_KEY_def mempool_entry_key_def ascii_keys

lemma chroma_to_bytes_inj:
  assumes "wf_chroma X c" and "wf_chroma X d" and "chroma_to_bytes X c = chroma_to_bytes X d"
  shows "c = d"
  using assms by (metis chroma_from_to_bytes sum.inject(2))

lemma frozen_key_inj:
  assumes "wf_outpoint p" and "wf_outpoint q" and "frozen_tx_storage_key p = frozen_tx_storage_key q"
  shows "p = q"
  using assms by (cases p; cases q) (simp add: key_defs wf_outpoint_def to_be_bytes_u32_inj)

text \<open>The constructor of a key can be read off its bytes.\<close>

fun key_index :: "db_key \<Rightarrow> nat" where
  "key_index (KTx _) = 0"
| "key_index (KInvalid _) = 1"
| "key_index (KFrozen _) = 2"
| "key_index (KChroma _) = 3"
| "key_index (KEntry _) = 4"
| "key_index KInventory = 5"
| "key_index KPagesNumber = 6"
| "key_index (KPage _) = 7"
| "key_index KIndexedBlock = 8"
| "key_index KIsIndexed = 9"
| "key_index KMempool = 10"

fun plain_key :: "bitcoin_ext \<Rightarrow> db_key \<Rightarrow> bytes" where
  "plain_key X (KTx t) = tx_storage_key t"
| "plain_key X (KInvalid t) = invalid_txs_storage_key t"
| "plain_key X KInventory = INVENTORY_KEY"
| "plain_key X KPagesNumber = PAGES_NUMBER_KEY"
| "plain_key X (KPage n) = page_key n"
| "plain_key X KIndexedBlock = INDEXED_BLOCK_KEY"
| "plain_key X KIsIndexed = IS_INDEXED_KEY"
| "plain_key X (KFrozen p) = frozen_tx_storage_key p"
| "plain_key X (KChroma c) = chroma_storage_key X c"
| "plain_key X KMempool = MEMPOOL_KEY"
| "plain_key X (KEntry t) = mempool_entry_key t"

definition byte_array_index :: "bytes \<Rightarrow> nat" where
  "byte_array_index b =
     (if b ! 0 = 116 then 0 else if b ! 0 = 105 then 1 else if b ! 0 = 102 then 2
      else if b ! 0 = 99 then 3 else 4)"

definition array_index :: "bytes \<Rightarrow> nat" where
  "array_index b =
     (if b ! 0 = 105 \<and> b ! 2 = 118 then 5 else if b ! 0 = 112 \<and> b ! 4 = 115 then 6
      else if b ! 0 = 112 then 7 else if b ! 0 = 105 then 8 else if b ! 0 = 48 then 9 else 10)"

lemma raw_key_plain:
  "raw_key C X k = (if key_index k < 5 then c_byte_array C (plain_key X k)
     else c_array C (plain_key X k))"
  by (cases k) simp_all

lemma key_index_plain:
  "key_index k = (if key_index k < 5 then byte_array_index (plain_key X k)
     else array_index (plain_key X k))"
  by (cases k) (simp_all add: key_defs byte_array_index_def array_index_def)

lemma same_index:
  "key_index j = key_index (KTx t) \<Longrightarrow> \<exists>u. j = KTx u"
  "key_index j = key_index (KInvalid t) \<Longrightarrow> \<exists>u. j = KInvalid u"
  "key_index j = key_index (KEntry t) \<Longrightarrow> \<exists>u. j = KEntry u"
  "key_index j = key_index (KFrozen p) \<Longrightarrow> \<exists>q. j = KFrozen q"
  "key_index j = key_index (KChroma c) \<Longrightarrow> \<exists>d. j = KChroma d"
  "key_index j = key_index (KPage n) \<Longrightarrow> \<exists>m. j = KPage m"
  "key_index j = key_index KInventory \<Longrightarrow> j = KInventory"
  "key_index j = key_index KPagesNumber \<Longrightarrow> j = KPagesNumber"
  "key_index j = key_index KIndexedBlock \<Longrightarrow> j = KIndexedBlock"
  "key_index j = key_index KIsIndexed \<Longrightarrow> j = KIsIndexed"
  "key_index j = key_index KMempool \<Longrightarrow> j = KMempool"
  by (cases j; simp)+

lemma plain_key_inj:
  assumes idx: "key_index j = key_index k" and wf: "wf_key X j" "wf_key X k"
    and eq: "plain_key X j = plain_key X k"
  shows "j = k"
proof (cases k)
  case (KFrozen p)
  with same_index(4) idx obtain q where "j = KFrozen q" by metis
  with KFrozen wf eq show ?thesis by (simp add: frozen_key_inj)
next
  case (KChroma c)
  with same_index(5) idx obtain d where j: "j = KChroma d" by metis
  have "d = c"
    by (rule chroma_to_bytes_inj [of X]) (use KChroma j wf eq in \<open>simp_all add: chroma_storage_key_def\<close>)
  with KChroma j show ?thesis by simp
next
  case (KPage n)
  with same_index(6) idx obtain m where "j = KPage m" by metis
  with KPage eq show ?thesis by (simp add: page_key_def to_be_bytes_u64_inj)
next
  case (KTx t)
  with same_index(1) idx obtain u where "j = KTx u" by metis
  with KTx eq show ?thesis by (simp add: tx_storage_key_def)
next
  case (KInvalid t)
  with same_index(2) idx obtain u where "j = KInvalid u" by metis
  with KInvalid eq show ?thesis by (simp add: invalid_txs_storage_key_def)
next
  case (KEntry t)
  with same_index(3) idx obtain u where "j = KEntry u" by metis
  with KEntry eq show ?thesis by (simp add: mempool_entry_key_def)
qed (use idx same_index(7-11) in simp_all)

lemma raw_key_inj:
  assumes laws: "cbor_laws C" and "wf_key X j" and "wf_key X k" and eq: "raw_key C X j = raw_key C X k"
  shows "j = k"
proof -
  have inj: "c_byte_array C a = c_byte_array C b \<longleftrightarrow> a = b" "c_array C a = c_array C b \<longleftrightarrow> a = b"
    "c_byte_array C a \<noteq> c_array C b" "c_array C b \<noteq> c_byte_array C a" for a b
    using laws by (simp_all add: cbor_laws_def inj_eq not_sym)
  from eq [unfolded raw_key_plain] have side: "key_index j < 5 \<longleftrightarrow> key_index k < 5"
    by (cases "key_index j < 5"; cases "key_index k < 5") (simp_all add: inj)
  with eq [unfolded raw_key_plain] have plain: "plain_key X j = plain_key X k"
    by (cases "key_index k < 5") (simp_all add: inj)
  have "key_index j = key_index k"
  proof (cases "key_index k < 5")
    case True
    with side have "key_index j < 5" by simp
    then show ?thesis
      using True plain by (metis key_index_plain)
  next
    case False
    with side have "\<not> key_index j < 5" by simp
    then show ?thesis
      using False plain by (metis key_index_plain)
  qed
  then show ?thesis using assms(2,3) plain by (rule plain_key_inj)
qed

section \<open>The database refines the record\<close>

datatype storage_op =
    PutTx yuv_transaction
  | DeleteTx txid
  | PutInvalid yuv_transaction
  | DeleteInvalid txid
  | PutInventory "txid list"
  | PutPagesNumber u64
  | PutPage u64 "txid list"
  | PutIndexedHash block_hash
  | PutIsIndexed
  | PutFrozen outpoint txid chroma
  | PutChroma chroma "chroma_announcement option" u128 "script option"
  | PutMempool "txid list"
  | PutEntry mempool_entry
  | DeleteEntry txid

fun apply_op :: "bitcoin_ext \<Rightarrow> storage_op \<Rightarrow> storage \<Rightarrow> storage" where
  "apply_op X (PutTx tx) = put_yuv_tx X tx"
| "apply_op X (DeleteTx t) = delete_yuv_tx t"
| "apply_op X (PutInvalid tx) = put_invalid_tx X tx"
| "apply_op X (DeleteInvalid t) = delete_invalid_tx t"
| "apply_op X (PutInventory ids) = put_inventory ids"
| "apply_op X (PutPagesNumber n) = put_pages_number n"
| "apply_op X (PutPage n page) = put_page n page"
| "apply_op X (PutIndexedHash h) = put_last_indexed_hash h"
| "apply_op X PutIsIndexed = put_is_indexed"
| "apply_op X (PutFrozen p t c) = put_frozen_tx p t c"
| "apply_op X (PutChroma c ann supply owner) = put_chroma_info c ann supply owner"
| "apply_op X (PutMempool ids) = put_mempool ids"
| "apply_op X (PutEntry e) = put_mempool_entry X e"
| "apply_op X (DeleteEntry t) = delete_mempool_entry t"

text \<open>The key each write touches and what it leaves there, \<open>None\<close> for a delete.\<close>

fun op_effect :: "bitcoin_ext \<Rightarrow> storage_op \<Rightarrow> db_key \<times> db_value option" where
  "op_effect X (PutTx tx) = (KTx (yuv_txid X tx), Some (VTx tx))"
| "op_effect X (DeleteTx t) = (KTx t, None)"
| "op_effect X (PutInvalid tx) = (KInvalid (yuv_txid X tx), Some (VTx tx))"
| "op_effect X (DeleteInvalid t) = (KInvalid t, None)"
| "op_effect X (PutInventory ids) = (KInventory, Some (VTxids ids))"
| "op_effect X (PutPagesNumber n) = (KPagesNumber, Some (VNumber n))"
| "op_effect X (PutPage n page) = (KPage n, Some (VTxids page))"
| "op_effect X (PutIndexedHash h) = (KIndexedBlock, Some (VHash h))"
| "op_effect X PutIsIndexed = (KIsIndexed, Some (VUnit ()))"
| "op_effect X (PutFrozen p t c) = (KFrozen p, Some (VFreeze \<lparr>fe_txid = t, fe_chroma = c\<rparr>))"
| "op_effect X (PutChroma c ann supply owner) =
     (KChroma c, Some (VChroma \<lparr>ci_announcement = ann, ci_total_supply = supply, ci_owner = owner\<rparr>))"
| "op_effect X (PutMempool ids) = (KMempool, Some (VTxids ids))"
| "op_effect X (PutEntry e) = (KEntry (entry_txid X e), Some (VEntry e))"
| "op_effect X (DeleteEntry t) = (KEntry t, None)"

definition raw_apply :: "cbor_ext \<Rightarrow> bitcoin_ext \<Rightarrow> storage_op \<Rightarrow> raw_db \<Rightarrow> raw_db" where
  "raw_apply C X op db =
     (case op_effect X op of
        (k, Some v) \<Rightarrow> kv_put C (raw_key C X k) v db
      | (k, None) \<Rightarrow> kv_delete (raw_key C X k) db)"

definition raw_lookup :: "cbor_ext \<Rightarrow> bitcoin_ext \<Rightarrow> db_key \<Rightarrow> raw_db \<Rightarrow> key_value_error + db_value option" where
  "raw_lookup C X k db = kv_get C (raw_key C X k) (key_type k) db"

definition represents :: "cbor_ext \<Rightarrow> bitcoin_ext \<Rightarrow> raw_db \<Rightarrow> storage \<Rightarrow> bool" where
  "represents C X db s \<longleftrightarrow> (\<forall>k. wf_key X k \<longrightarrow> raw_lookup C X k db = Inr (lookup s k))"

definition wf_op :: "cbor_ext \<Rightarrow> bitcoin_ext \<Rightarrow> storage_op \<Rightarrow> bool" where
  "wf_op C X op \<longleftrightarrow>
     wf_key X (fst (op_effect X op)) \<and>
     (\<forall>v \<in> set_option (snd (op_effect X op)). cbor_round_trips C v)"

lemma lookup_apply_op: "lookup (apply_op X op s) = (lookup s)(fst (op_effect X op) := snd (op_effect X op))"
proof
  fix k show "lookup (apply_op X op s) k = ((lookup s)(fst (op_effect X op) := snd (op_effect X op))) k"
    by (cases op; cases k) (auto simp: storage_reads storage_writes hash_map.get_put hash_map.get_del)
qed

lemma op_effect_typed: "snd (op_effect X op) = Some v \<Longrightarrow> key_type (fst (op_effect X op)) = type_of_value v"
  by (cases op) auto

lemma raw_lookup_put:
  assumes "cbor_laws C" and "wf_key X j" and "wf_key X k" and "key_type k = type_of_value v" and "cbor_round_trips C v"
  shows "raw_lookup C X j (kv_put C (raw_key C X k) v db) =
    (if j = k then Inr (Some v) else raw_lookup C X j db)"
  using assms raw_key_inj [OF assms(1-3)]
  by (auto simp: raw_lookup_def kv_get_def kv_put_def hash_map.get_put cbor_round_trips_def)

lemma raw_lookup_delete:
  assumes "cbor_laws C" and "wf_key X j" and "wf_key X k"
  shows "raw_lookup C X j (kv_delete (raw_key C X k) db) =
    (if j = k then Inr None else raw_lookup C X j db)"
  using raw_key_inj [OF assms]
  by (auto simp: raw_lookup_def kv_get_def kv_delete_def hash_map.get_del)

lemma represents_apply:
  assumes laws: "cbor_laws C" and rep: "represents C X db s" and wf: "wf_op C X op"
  shows "represents C X (raw_apply C X op db) (apply_op X op s)"
proof -
  obtain k v where kv: "op_effect X op = (k, v)" by (cases "op_effect X op")
  have "raw_lookup C X j (raw_apply C X op db) = Inr (((lookup s)(k := v)) j)" if "wf_key X j" for j
    using rep wf that op_effect_typed [of X op]
    by (cases v) (auto simp: wf_op_def raw_apply_def kv represents_def raw_lookup_put [OF laws]
        raw_lookup_delete [OF laws])
  then show ?thesis by (simp add: represents_def lookup_apply_op kv)
qed

text \<open>C5. The byte-keyed database implements the typed stores: starting from the empty
  database, after any sequence of the storage traits' writes every read through its key
  returns what the typed record holds, so records of different kinds never overwrite
  each other.
\<close>

theorem storage_refines_record:
  assumes "cbor_laws C" and "\<forall>op \<in> set ops. wf_op C X op"
  shows "represents C X (foldl (\<lambda>db op. raw_apply C X op db) [] ops)
           (foldl (\<lambda>s op. apply_op X op s) empty_storage ops)"
proof -
  have start: "represents C X [] empty_storage"
    unfolding represents_def
  proof (intro allI impI)
    fix k show "raw_lookup C X k [] = Inr (lookup empty_storage k)"
      by (cases k) (simp_all add: raw_lookup_def kv_get_def empty_storage_def storage_reads)
  qed
  have "represents C X db s \<Longrightarrow> \<forall>op \<in> set ops. wf_op C X op \<Longrightarrow>
      represents C X (foldl (\<lambda>db op. raw_apply C X op db) db ops)
        (foldl (\<lambda>s op. apply_op X op s) s ops)" for db s ops
    by (induction ops arbitrary: db s) (simp_all add: represents_apply [OF assms(1)])
  with start assms(2) show ?thesis by blast
qed

definition sample_cbor :: cbor_ext where
  "sample_cbor =
     \<lparr>c_byte_array = Cons 1, c_array = Cons 2,
      c_value = (\<lambda>v. case v of VTxids ids \<Rightarrow> concat ids | VNumber n \<Rightarrow> to_be_bytes 8 n | _ \<Rightarrow> []),
      c_decode = (\<lambda>ty b. case ty of TTxids \<Rightarrow> Inr (VTxids [b]) | TNumber \<Rightarrow> Inr (VNumber (from_be_bytes b))
                  | _ \<Rightarrow> Inl ''unsupported'')\<rparr>"

definition sample_ops :: "storage_op list" where
  "sample_ops = [PutMempool [replicate 32 1], PutPagesNumber 5, PutPage 0 [replicate 32 2],
     DeleteTx (replicate 32 1)]"

theorem storage_refines_record_witness:
  "represents sample_cbor sample_ext (foldl (\<lambda>db op. raw_apply sample_cbor sample_ext op db) [] sample_ops)
     (foldl (\<lambda>s op. apply_op sample_ext op s) empty_storage sample_ops)"
proof (rule storage_refines_record)
  show "cbor_laws sample_cbor"
    by (simp add: cbor_laws_def sample_cbor_def inj_def)
  show "\<forall>op \<in> set sample_ops. wf_op sample_cbor sample_ext op"
    using from_to_be_bytes [of 8 "5 :: u64"]
    by (simp add: sample_ops_def wf_op_def cbor_round_trips_def sample_cbor_def)
qed

end
