(* ===== verification/Event_Bus.thy ===== *)
theory Event_Bus
  imports Transactions
begin

text \<open>
  The event bus between the services (\<open>event-bus/src/event_bus.rs\<close>, \<open>receiver.rs\<close>). A bus maps
  the type of an event to the sending and the receiving end of a channel; the buses of the
  services are extracted from one bus and share its channels, so the channels are a store
  indexed by their number. The channels of \<open>flume\<close> are first-in first-out queues with an
  optional capacity. Closing a channel is not modelled: the node keeps the full bus.
\<close>

section \<open>Events and channels\<close>

datatype bus_message =
    ToController controller_message
  | ToTxChecker tx_checker_message
  | ToGraphBuilder graph_builder_message
  | ToTxConfirm tx_confirm_message
  | ToIndexer indexer_message

datatype type_id = TidController | TidTxChecker | TidGraphBuilder | TidTxConfirm | TidIndexer

fun type_of_event :: "bus_message \<Rightarrow> type_id" where
  "type_of_event (ToController _) = TidController"
| "type_of_event (ToTxChecker _) = TidTxChecker"
| "type_of_event (ToGraphBuilder _) = TidGraphBuilder"
| "type_of_event (ToTxConfirm _) = TidTxConfirm"
| "type_of_event (ToIndexer _) = TidIndexer"

record channel =
  ch_size :: "nat option"
  ch_queue :: "bus_message list"

type_synonym channels = "channel list"

record event_bus =
  bus_txs :: "(type_id \<times> nat) list"
  bus_rxs :: "(type_id \<times> nat) list"

datatype bus_error = ChannelForTypeIdDoesntExist

definition default_bus :: event_bus where
  "default_bus = \<lparr>bus_txs = [], bus_rxs = []\<rparr>"

section \<open>Operations\<close>

definition register ::
  "type_id \<Rightarrow> nat option \<Rightarrow> event_bus \<Rightarrow> channels \<Rightarrow> bool \<times> event_bus \<times> channels" where
  "register e sz b chs =
     (if map_of (bus_txs b) e \<noteq> None then (True, b, chs)
      else (False,
            \<lparr>bus_txs = AList.update e (length chs) (bus_txs b),
             bus_rxs = AList.update e (length chs) (bus_rxs b)\<rparr>,
            chs @ [\<lparr>ch_size = sz, ch_queue = []\<rparr>]))"

fun new_hashmap_with ::
  "(type_id \<times> nat) list \<Rightarrow> (type_id \<times> nat) list \<Rightarrow> type_id list \<Rightarrow> bus_error + (type_id \<times> nat) list" where
  "new_hashmap_with src acc [] = Inr acc"
| "new_hashmap_with src acc (e # es) =
     bindE (ok_or ChannelForTypeIdDoesntExist (map_of src e)) (\<lambda>ch.
       new_hashmap_with src (AList.update e ch acc) es)"

definition extract_bus :: "event_bus \<Rightarrow> type_id list \<Rightarrow> type_id list \<Rightarrow> bus_error + event_bus" where
  "extract_bus b tx_ids rx_ids =
     bindE (new_hashmap_with (bus_txs b) [] tx_ids) (\<lambda>txs.
     bindE (new_hashmap_with (bus_rxs b) [] rx_ids) (\<lambda>rxs.
       Inr \<lparr>bus_txs = txs, bus_rxs = rxs\<rparr>))"

definition try_subscribe :: "event_bus \<Rightarrow> type_id \<Rightarrow> bus_error + nat" where
  "try_subscribe b e = ok_or ChannelForTypeIdDoesntExist (map_of (bus_rxs b) e)"

text \<open>A send to a full channel waits: the result \<open>Inr None\<close>.\<close>

definition channel_full :: "channel \<Rightarrow> bool" where
  "channel_full ch = (case ch_size ch of None \<Rightarrow> False | Some n \<Rightarrow> n \<le> length (ch_queue ch))"

definition try_send :: "event_bus \<Rightarrow> bus_message \<Rightarrow> channels \<Rightarrow> bus_error + channels option" where
  "try_send b ev chs =
     bindE (ok_or ChannelForTypeIdDoesntExist (map_of (bus_txs b) (type_of_event ev))) (\<lambda>i.
       Inr (if channel_full (chs ! i) then None
            else Some (chs[i := (chs ! i)\<lparr>ch_queue := ch_queue (chs ! i) @ [ev]\<rparr>])))"

text \<open>
  \<open>Receiver<E>::recv\<close> takes the oldest event and casts it to the type the receiver was made
  for; the cast panics on an event of another type.
\<close>

datatype received = Waits | Received bus_message channels | InvalidEventType

definition recv :: "type_id \<Rightarrow> nat \<Rightarrow> channels \<Rightarrow> received" where
  "recv e i chs =
     (case ch_queue (chs ! i) of
        [] \<Rightarrow> Waits
      | ev # evs \<Rightarrow>
          if type_of_event ev = e then Received ev (chs[i := (chs ! i)\<lparr>ch_queue := evs\<rparr>])
          else InvalidEventType)"

section \<open>Typed channels\<close>

text \<open>
  A store typing gives the event type of every channel. Every end in a bus leads to a
  channel of its type, and a channel holds events of its type.
\<close>

definition ends_typed :: "type_id list \<Rightarrow> (type_id \<times> nat) list \<Rightarrow> bool" where
  "ends_typed ts m \<longleftrightarrow> (\<forall>e i. map_of m e = Some i \<longrightarrow> i < length ts \<and> ts ! i = e)"

definition bus_typed :: "type_id list \<Rightarrow> event_bus \<Rightarrow> bool" where
  "bus_typed ts b \<longleftrightarrow> ends_typed ts (bus_txs b) \<and> ends_typed ts (bus_rxs b)"

definition channels_typed :: "type_id list \<Rightarrow> channels \<Rightarrow> bool" where
  "channels_typed ts chs \<longleftrightarrow>
     length chs = length ts \<and>
     (\<forall>i < length ts. \<forall>ev \<in> set (ch_queue (chs ! i)). type_of_event ev = ts ! i)"

lemma new_hashmap_with_typed:
  "ends_typed ts src \<Longrightarrow> ends_typed ts acc \<Longrightarrow> new_hashmap_with src acc es = Inr m \<Longrightarrow>
     ends_typed ts m"
proof (induction src acc es rule: new_hashmap_with.induct)
  case (2 src acc e es)
  then obtain ch where ch: "map_of src e = Some ch"
    and rest: "new_hashmap_with src (AList.update e ch acc) es = Inr m"
    by (auto simp: result_simps)
  have "ends_typed ts (AList.update e ch acc)"
    using 2(2,3) ch by (auto simp: ends_typed_def hash_map.get_put)
  with 2 ch rest show ?case by blast
qed simp

lemma extract_typed:
  assumes "bus_typed ts b" and "extract_bus b tx_ids rx_ids = Inr c"
  shows "bus_typed ts c"
proof -
  have empty: "ends_typed ts []" by (simp add: ends_typed_def)
  obtain txs rxs where txs: "new_hashmap_with (bus_txs b) [] tx_ids = Inr txs"
    and rxs: "new_hashmap_with (bus_rxs b) [] rx_ids = Inr rxs"
    and c: "c = \<lparr>bus_txs = txs, bus_rxs = rxs\<rparr>"
    using assms(2) by (auto simp: extract_bus_def result_simps)
  show ?thesis
    using assms(1) new_hashmap_with_typed [OF _ empty txs] new_hashmap_with_typed [OF _ empty rxs]
    by (simp add: bus_typed_def c)
qed

lemma register_typed:
  assumes "bus_typed ts b" and "channels_typed ts chs" and "register e sz b chs = (r, b', chs')"
  shows "\<exists>ts'. bus_typed ts' b' \<and> channels_typed ts' chs'"
proof (cases "map_of (bus_txs b) e")
  case None
  have len: "length chs = length ts" using assms(2) by (simp add: channels_typed_def)
  have "ends_typed (ts @ [e]) (AList.update e (length chs) m)" if "ends_typed ts m" for m
    using that len by (fastforce simp: ends_typed_def hash_map.get_put nth_append)
  moreover have "channels_typed (ts @ [e]) chs'"
    using assms(2,3) None by (auto simp: channels_typed_def register_def nth_append less_Suc_eq)
  ultimately show ?thesis
    using assms(1,3) None by (auto simp: register_def bus_typed_def intro!: exI [of _ "ts @ [e]"])
next
  case (Some i)
  with assms show ?thesis by (auto simp: register_def)
qed

lemma try_send_typed:
  assumes "bus_typed ts b" and "channels_typed ts chs" and "try_send b ev chs = Inr (Some chs')"
  shows "channels_typed ts chs'"
proof -
  obtain i where i: "map_of (bus_txs b) (type_of_event ev) = Some i"
    and chs': "chs' = chs[i := (chs ! i)\<lparr>ch_queue := ch_queue (chs ! i) @ [ev]\<rparr>]"
    using assms(3) by (auto simp: try_send_def result_simps split: if_splits)
  have "i < length ts" and "ts ! i = type_of_event ev"
    using assms(1) i by (auto simp: bus_typed_def ends_typed_def)
  then show ?thesis
    using assms(2) chs' by (auto simp: channels_typed_def nth_list_update)
qed

lemma recv_typed:
  assumes "bus_typed ts b" and "channels_typed ts chs" and "try_subscribe b e = Inr i"
  shows "recv e i chs \<noteq> InvalidEventType"
    and "recv e i chs = Received ev chs' \<Longrightarrow> channels_typed ts chs'"
proof -
  have i: "i < length ts" "ts ! i = e"
    using assms(1,3) by (auto simp: try_subscribe_def result_simps bus_typed_def ends_typed_def)
  then have "\<forall>x \<in> set (ch_queue (chs ! i)). type_of_event x = e"
    using assms(2) by (simp add: channels_typed_def)
  then show "recv e i chs \<noteq> InvalidEventType"
    by (auto simp: recv_def split: list.splits)
  show "channels_typed ts chs'" if "recv e i chs = Received ev chs'"
    using that assms(2) i
    by (auto simp: recv_def channels_typed_def nth_list_update split: list.splits if_splits)
qed

section \<open>Runs of the bus\<close>

text \<open>
  The full bus and its channels after any sequence of registrations, and of sends and
  receives through extracted buses.
\<close>

inductive bus_run :: "event_bus \<Rightarrow> channels \<Rightarrow> bool" where
  start: "bus_run default_bus []"
| registered: "bus_run b chs \<Longrightarrow> register e sz b chs = (r, b', chs') \<Longrightarrow> bus_run b' chs'"
| sent: "bus_run b chs \<Longrightarrow> extract_bus b tx_ids rx_ids = Inr c \<Longrightarrow>
    try_send c ev chs = Inr (Some chs') \<Longrightarrow> bus_run b chs'"
| got: "bus_run b chs \<Longrightarrow> extract_bus b tx_ids rx_ids = Inr c \<Longrightarrow> try_subscribe c e = Inr i \<Longrightarrow>
    recv e i chs = Received ev chs' \<Longrightarrow> bus_run b chs'"

lemma bus_run_typed: "bus_run b chs \<Longrightarrow> \<exists>ts. bus_typed ts b \<and> channels_typed ts chs"
proof (induction rule: bus_run.induct)
  case start
  show ?case
    by (auto simp: default_bus_def bus_typed_def ends_typed_def channels_typed_def)
next
  case (registered b chs e sz r b' chs')
  then show ?case by (auto dest: register_typed)
next
  case (sent b chs tx_ids rx_ids c ev chs')
  then show ?case by (meson extract_typed try_send_typed)
next
  case (got b chs tx_ids rx_ids c e i ev chs')
  then show ?case by (meson extract_typed recv_typed(2))
qed

text \<open>C29. However the services register, extract, send and receive, the cast in
  \<open>Receiver::recv\<close> never panics: a receiver of an extracted bus finds only events of its
  own type in its channel.
\<close>

theorem recv_never_panics:
  assumes "bus_run b chs" and "extract_bus b tx_ids rx_ids = Inr c" and "try_subscribe c e = Inr i"
  shows "recv e i chs \<noteq> InvalidEventType"
proof -
  obtain ts where "bus_typed ts b" and typed: "channels_typed ts chs"
    using bus_run_typed [OF assms(1)] by blast
  then show ?thesis
    using extract_typed [OF _ assms(2)] recv_typed(1) [OF _ typed assms(3)] by blast
qed

definition sample_event :: bus_message where
  "sample_event = ToIndexer (IndexerReorganization 7)"

definition sample_bus :: event_bus where
  "sample_bus = \<lparr>bus_txs = [(TidIndexer, 0)], bus_rxs = [(TidIndexer, 0)]\<rparr>"

theorem recv_never_panics_witness:
  "recv TidIndexer 0 [\<lparr>ch_size = Some 1, ch_queue = [sample_event]\<rparr>] \<noteq> InvalidEventType"
proof (rule recv_never_panics)
  have "bus_run sample_bus [\<lparr>ch_size = Some 1, ch_queue = []\<rparr>]"
    by (rule bus_run.registered [OF bus_run.start, where e = TidIndexer and sz = "Some 1" and r = False])
       (simp add: register_def default_bus_def sample_bus_def)
  then show "bus_run sample_bus [\<lparr>ch_size = Some 1, ch_queue = [sample_event]\<rparr>]"
    by (rule bus_run.sent [where ev = sample_event and tx_ids = "[TidIndexer]" and rx_ids = "[]"
        and c = "\<lparr>bus_txs = [(TidIndexer, 0)], bus_rxs = []\<rparr>"])
       (simp_all add: extract_bus_def sample_bus_def try_send_def sample_event_def channel_full_def)
  show "extract_bus sample_bus [] [TidIndexer] = Inr \<lparr>bus_txs = [], bus_rxs = [(TidIndexer, 0)]\<rparr>"
    by (simp add: extract_bus_def sample_bus_def)
  show "try_subscribe \<lparr>bus_txs = [], bus_rxs = [(TidIndexer, 0)]\<rparr> TidIndexer = Inr 0"
    by (simp add: try_subscribe_def)
qed

end
