(* ===== verification/Services.thy ===== *)
theory Services
  imports Storage Event_Bus
begin

text \<open>
  What the services of the node have in common: a service reads and writes the stores and
  sends events on the bus. Its methods are computations on a record that extends
  \<open>service\<close>; \<open>svc_sent\<close> is the sequence of events it has sent. Each store trait is
  implemented by one of the two databases of the node only, so one record holds them both.
\<close>

record service =
  svc_storage :: storage
  svc_sent :: "bus_message list"

definition getS :: "(storage \<Rightarrow> 'a) \<Rightarrow> ('z service_scheme, 'e, 'a) run" where
  "getS g = getR (\<lambda>s. g (svc_storage s))"

definition modS :: "(storage \<Rightarrow> storage) \<Rightarrow> ('z service_scheme, 'e, unit) run" where
  "modS g = modR (\<lambda>s. s\<lparr>svc_storage := g (svc_storage s)\<rparr>)"

definition sendR :: "bus_message \<Rightarrow> ('z service_scheme, 'e, unit) run" where
  "sendR ev = modR (\<lambda>s. s\<lparr>svc_sent := svc_sent s @ [ev]\<rparr>)"

definition whenR :: "bool \<Rightarrow> ('s, 'e, unit) run \<Rightarrow> ('s, 'e, unit) run" where
  "whenR b m = (if b then m else retR ())"

lemma service_eqs:
  "getS g s = (Inr (g (svc_storage s)), s)"
  "modS h s = (Inr (), s\<lparr>svc_storage := h (svc_storage s)\<rparr>)"
  "sendR ev s = (Inr (), s\<lparr>svc_sent := svc_sent s @ [ev]\<rparr>)"
  by (simp_all add: getS_def modS_def sendR_def getR_def modR_def)

lemmas service_defs = getS_def modS_def sendR_def whenR_def

text \<open>
  An invariant of the store as an invariant of a service: reads and sends keep it, a write
  keeps it when the operation of the store does.
\<close>

definition on_storage :: "(storage \<Rightarrow> bool) \<Rightarrow> 'z service_scheme \<Rightarrow> bool" where
  "on_storage P s \<longleftrightarrow> P (svc_storage s)"

lemma keepsR_getS [keeps_intros]: "keepsR P (getS g)"
  by (simp add: getS_def keepsR_get)

lemma keepsR_sendR [keeps_intros]: "keepsR (on_storage P) (sendR ev)"
  unfolding sendR_def by (rule keepsR_mod) (simp add: on_storage_def)

lemma keepsR_whenR [keeps_intros]: "keepsR P m \<Longrightarrow> keepsR P (whenR b m)"
  by (simp add: whenR_def keepsR_ret)

lemma keepsR_case_prod [keeps_intros]:
  "(\<And>a b. keepsR P (f a b)) \<Longrightarrow> keepsR P (case x of (a, b) \<Rightarrow> f a b)"
  by (cases x) simp

lemma keepsR_modS: "(\<And>st. P st \<Longrightarrow> P (g st)) \<Longrightarrow> keepsR (on_storage P) (modS g)"
  unfolding modS_def by (rule keepsR_mod) (simp add: on_storage_def)

section \<open>Interfaces of the stores\<close>

lemmas store_defs = storage_reads storage_writes

definition insert_tx :: "txid \<Rightarrow> yuv_transaction \<Rightarrow> storage \<Rightarrow> storage" where
  "insert_tx t tx s = s\<lparr>db_txs := AList.update t tx (db_txs s)\<rparr>"

definition insert_invalid :: "txid \<Rightarrow> yuv_transaction \<Rightarrow> storage \<Rightarrow> storage" where
  "insert_invalid t tx s = s\<lparr>db_invalid := AList.update t tx (db_invalid s)\<rparr>"

definition insert_entry :: "txid \<Rightarrow> mempool_entry \<Rightarrow> storage \<Rightarrow> storage" where
  "insert_entry t e s = s\<lparr>db_entries := AList.update t e (db_entries s)\<rparr>"

interpretation txs_store: keyed_store get_yuv_tx insert_tx delete_yuv_tx
  by unfold_locales
     (simp_all add: store_defs insert_tx_def hash_map.get_put hash_map.get_del)

interpretation invalid_store: keyed_store get_invalid_tx insert_invalid delete_invalid_tx
  by unfold_locales
     (simp_all add: store_defs insert_invalid_def hash_map.get_put hash_map.get_del)

interpretation entries_store: keyed_store get_mempool_entry insert_entry delete_mempool_entry
  by unfold_locales
     (simp_all add: store_defs insert_entry_def hash_map.get_put hash_map.get_del)

lemma put_as_insert:
  "put_yuv_tx X tx = insert_tx (yuv_txid X tx) tx"
  "put_invalid_tx X tx = insert_invalid (yuv_txid X tx) tx"
  "put_mempool_entry X e = insert_entry (entry_txid X e) e"
  by (simp_all add: fun_eq_iff put_yuv_tx_def put_invalid_tx_def put_mempool_entry_def
      insert_tx_def insert_invalid_def insert_entry_def)

lemma put_invalid_txs_fold:
  "put_invalid_txs X txs s = foldl (\<lambda>acc tx. insert_invalid (yuv_txid X tx) tx acc) s txs"
  by (simp add: put_invalid_txs_def put_as_insert)

lemma get_yuv_tx_put: "get_yuv_tx (put_yuv_tx X tx s) t =
    (if t = yuv_txid X tx then Some tx else get_yuv_tx s t)"
  by (simp add: put_as_insert txs_store.get_put)

lemma get_mempool_entry_put: "get_mempool_entry (put_mempool_entry X e s) t =
    (if t = entry_txid X e then Some e else get_mempool_entry s t)"
  by (simp add: put_as_insert entries_store.get_put)

lemma get_chroma_info_put: "get_chroma_info (put_chroma_info c ann n ow s) d =
    (if d = c then Some \<lparr>ci_announcement = ann, ci_total_supply = n, ci_owner = ow\<rparr>
     else get_chroma_info s d)"
  by (simp add: store_defs hash_map.get_put)

lemma get_frozen_tx_put: "get_frozen_tx (put_frozen_tx p t c s) q =
    (if q = p then Some \<lparr>fe_txid = t, fe_chroma = c\<rparr> else get_frozen_tx s q)"
  by (simp add: store_defs hash_map.get_put)

lemma get_page_by_num_put: "get_page_by_num (put_page n page s) k =
    (if k = n then Some page else get_page_by_num s k)"
  by (simp add: store_defs hash_map.get_put)

lemmas store_gets = get_yuv_tx_put get_mempool_entry_put get_chroma_info_put get_frozen_tx_put
  get_page_by_num_put txs_store.get_del invalid_store.get_del entries_store.get_del

lemma empty_storage_reads [simp]:
  "get_yuv_tx empty_storage t = None" "get_chroma_info empty_storage c = None"
  "get_frozen_tx empty_storage p = None" "get_invalid_tx empty_storage t = None"
  "get_mempool_entry empty_storage t = None" "get_inventory empty_storage = []"
  "get_mempool empty_storage = None" "get_pages_number empty_storage = None"
  "get_page_by_num empty_storage n = None"
  by (simp_all add: storage_reads empty_storage_def)

end
