(* ===== verification/Isolated_Checks.thy ===== *)
theory Isolated_Checks
  imports Storage
begin

text \<open>
  The checks of a transaction that need no state (\<open>tx-check/src/isolated_checks.rs\<close>,
  \<open>tx-check/src/script_parser.rs\<close>): proofs against inputs and outputs, conservation of
  the amounts of every chroma, and the search for the owner of a chroma among the inputs.
  Amounts are \<open>u128\<close>; the sums wrap around, as they do in the release build. The items
  behind the feature \<open>bulletproof\<close> are left out.
\<close>

section \<open>Errors\<close>

datatype script_parse_error =
    UnsupportedScript
  | InvalidInstructionError ext_error
  | NotDataPush
  | InsufficientInstructions nat
  | MissingWitnessRedeemScript
  | WitnessIndexPanic

datatype check_error =
    InvalidProof pixel_proof u32 pixel_proof_error
  | NotEnoughProofs nat nat
  | CheckInvalidWitness
  | NotSameChroma
  | InvalidKey ext_error
  | InvalidSignatureError ext_error
  | ConservationRulesViolated
  | IssuerNotOwner
  | EmptyOutputs
  | EmptyInputs
  | InputNotFound
  | OutputNotFound
  | ProofMappedToNotExistingInputOutput
  | MixedBulletproofsAndNonBulletproofs
  | AtLeastOneCommitment
  | InvalidVerifier
  | TxNotFound txid
  | InvalidPublicKeyError
  | PublicKeyNotFound
  | MessageKeyNotFound
  | AnnouncedAmountDoesNotMatch u128 u128
  | IssueAnnouncementMismatch
  | IssueAnnouncementNotProvided
  | BurntTokensSpending

section \<open>Gathering proofs\<close>

record 'a proof_for_check =
  pfc_statement :: 'a
  pfc_vout :: u32
  pfc_inner :: pixel_proof

definition extract_from_iterable_by_proof_map ::
  "proof_map \<Rightarrow> 'a list \<Rightarrow> check_error + 'a proof_for_check list" where
  "extract_from_iterable_by_proof_map proofs items =
     mapE (\<lambda>(vout, pf).
       if unat vout < length items
       then Inr \<lparr>pfc_statement = items ! unat vout, pfc_vout = vout, pfc_inner = pf\<rparr>
       else Inl ProofMappedToNotExistingInputOutput) proofs"

definition check_number_of_proofs :: "bitcoin_ext \<Rightarrow> transaction \<Rightarrow> proof_map \<Rightarrow> check_error + unit" where
  "check_number_of_proofs X tx proofs =
     failIf (length (filter (\<lambda>out. \<not> x_is_op_return X (script_pubkey out)) (tx_output tx)) \<noteq>
             length proofs)
       (NotEnoughProofs (length proofs) (length (tx_output tx)))"

section \<open>Conservation\<close>

definition sum_amount_by_chroma ::
  "bitcoin_ext \<Rightarrow> 'a proof_for_check list \<Rightarrow> (chroma \<times> u128) list" where
  "sum_amount_by_chroma X proofs =
     foldl (\<lambda>chromas p.
       let px = pixel_of_proof X (pfc_inner p) in
       if is_empty_pixelproof (pfc_inner p) \<or> amount (luma px) = 0 then chromas
       else
         let chroma_sum = (case map_of chromas (chroma px) of None \<Rightarrow> 0 | Some n \<Rightarrow> n) in
         AList.update (chroma px) (chroma_sum + amount (luma px)) chromas)
     [] proofs"

text \<open>\<open>PartialEq for HashMap\<close>\<close>

definition hash_map_eq :: "('k \<times> 'v) list \<Rightarrow> ('k \<times> 'v) list \<Rightarrow> bool" where
  "hash_map_eq m n \<longleftrightarrow> length m = length n \<and> list_all (\<lambda>(k, v). map_of n k = Some v) m"

definition check_transfer_conservation_rules ::
  "bitcoin_ext \<Rightarrow> txin proof_for_check list \<Rightarrow> txout proof_for_check list \<Rightarrow> check_error + unit" where
  "check_transfer_conservation_rules X ins outs =
     failIf (\<not> hash_map_eq (sum_amount_by_chroma X ins) (sum_amount_by_chroma X outs))
       ConservationRulesViolated"

section \<open>Transfers\<close>

definition check_input_proof :: "bitcoin_ext \<Rightarrow> txin proof_for_check \<Rightarrow> check_error + unit" where
  "check_input_proof X p =
     bindE (failIf (is_burn X (pfc_inner p)) BurntTokensSpending) (\<lambda>_.
     map_err (InvalidProof (pfc_inner p) (pfc_vout p))
       (checked_check_by_input X (pfc_inner p) (pfc_statement p)))"

definition check_output_proof :: "bitcoin_ext \<Rightarrow> txout proof_for_check \<Rightarrow> check_error + unit" where
  "check_output_proof X p =
     map_err (InvalidProof (pfc_inner p) (pfc_vout p))
       (checked_check_by_output X (pfc_inner p) (pfc_statement p))"

definition check_transfer_isolated ::
  "bitcoin_ext \<Rightarrow> transaction \<Rightarrow> proof_map \<Rightarrow> proof_map \<Rightarrow> check_error + unit" where
  "check_transfer_isolated X tx inputs outputs =
     bindE (check_number_of_proofs X tx outputs) (\<lambda>_.
     bindE (extract_from_iterable_by_proof_map inputs (tx_input tx)) (\<lambda>gathered_inputs.
     bindE (extract_from_iterable_by_proof_map outputs (tx_output tx)) (\<lambda>gathered_outputs.
     bindE (forE (check_input_proof X) gathered_inputs) (\<lambda>_.
     bindE (forE (check_output_proof X) gathered_outputs) (\<lambda>_.
     check_transfer_conservation_rules X gathered_inputs gathered_outputs)))))"

section \<open>Issues\<close>

fun find_issue_announcement ::
  "bitcoin_ext \<Rightarrow> issue_announcement \<Rightarrow> txout list \<Rightarrow> check_error + u128" where
  "find_issue_announcement X provided [] = Inl IssueAnnouncementNotProvided"
| "find_issue_announcement X provided (out # outs) =
     (case issue_from_script X (script_pubkey out) of
        Inr found \<Rightarrow>
          if found \<noteq> provided then Inl IssueAnnouncementMismatch else Inr (ia_amount found)
      | Inl _ \<Rightarrow> find_issue_announcement X provided outs)"

definition check_issue_announcement_isolated ::
  "bitcoin_ext \<Rightarrow> transaction \<Rightarrow> issue_announcement \<Rightarrow> check_error + u128" where
  "check_issue_announcement_isolated X tx provided = find_issue_announcement X provided (tx_output tx)"

definition check_same_chroma_proofs ::
  "bitcoin_ext \<Rightarrow> pixel_proof list \<Rightarrow> issue_announcement \<Rightarrow> check_error + unit" where
  "check_same_chroma_proofs X proofs ann =
     (case filter (\<lambda>pf. \<not> is_empty_pixelproof pf) proofs of
        [] \<Rightarrow> Inr ()
      | first_proof # others \<Rightarrow>
          if chroma (pixel_of_proof X first_proof) \<noteq> ia_chroma ann then Inl IssueAnnouncementMismatch
          else failIf (\<not> list_all (\<lambda>pf. chroma (pixel_of_proof X pf) = chroma (pixel_of_proof X first_proof))
                         (first_proof # others))
                 NotSameChroma)"

definition check_issue_output :: "bitcoin_ext \<Rightarrow> txout proof_for_check \<Rightarrow> check_error + unit" where
  "check_issue_output X p =
     (if x_is_op_return X (script_pubkey (pfc_statement p)) then Inr ()
      else map_err (InvalidProof (pfc_inner p) (pfc_vout p))
             (checked_check_by_output X (pfc_inner p) (pfc_statement p)))"

definition check_issue_isolated ::
  "bitcoin_ext \<Rightarrow> transaction \<Rightarrow> proof_map option \<Rightarrow> issue_announcement \<Rightarrow> check_error + unit" where
  "check_issue_isolated X tx output_proofs_opt ann =
     (case output_proofs_opt of
        None \<Rightarrow> Inl (NotEnoughProofs 0 (length (tx_output tx)))
      | Some outs \<Rightarrow>
          bindE (check_issue_announcement_isolated X tx ann) (\<lambda>announced_amount.
          bindE (check_number_of_proofs X tx outs) (\<lambda>_.
          bindE (check_same_chroma_proofs X (map snd outs) ann) (\<lambda>_.
          bindE (extract_from_iterable_by_proof_map outs (tx_output tx)) (\<lambda>gathered_outputs.
          bindE (forE (check_issue_output X) gathered_outputs) (\<lambda>_.
          let total_amount = sum_u128 (map (\<lambda>pf. amount (luma (pixel_of_proof X pf))) (map snd outs)) in
          failIf (total_amount \<noteq> announced_amount)
            (AnnouncedAmountDoesNotMatch announced_amount total_amount)))))))"

definition check_transaction :: "bitcoin_ext \<Rightarrow> yuv_transaction \<Rightarrow> check_error + unit" where
  "check_transaction X tx =
     (case tx_type tx of
        Issue outs ann \<Rightarrow> check_issue_isolated X (bitcoin_tx tx) outs ann
      | Transfer ins outs \<Rightarrow> check_transfer_isolated X (bitcoin_tx tx) ins outs
      | Announcement _ \<Rightarrow> Inr ())"

section \<open>The owner among the inputs\<close>

definition handle_p2wpkh_input :: "bitcoin_ext \<Rightarrow> witness \<Rightarrow> chroma \<Rightarrow> pixel_key_error + bool" where
  "handle_p2wpkh_input X w c =
     (case p2wpkh_from_witness X w of
        Inl _ \<Rightarrow> Inr False
      | Inr (_, pk) \<Rightarrow>
          let (xo, _) = x_x_only_public_key X pk in
          bindE (pixel_key_new X (pixel_hash X (pixel_empty X)) (chroma_public_key X c)) (\<lambda>pxk.
          let (pixel_pubkey, _) = x_x_only_public_key X (even_public_key X pxk) in
          Inr (xo = chroma_xonly c \<or> xo = pixel_pubkey)))"

definition script_to_address_type :: "bitcoin_ext \<Rightarrow> script \<Rightarrow> address_type" where
  "script_to_address_type X s =
     (if x_is_p2pkh X s then P2pkh
      else if x_is_p2sh X s then P2sh
      else if x_is_v0_p2wpkh X s then P2wpkh
      else if x_is_v0_p2wsh X s then P2wsh
      else P2tr)"

datatype spending_condition =
    ScP2PKH script
  | ScP2SH script
  | ScP2WPKH script
  | ScP2WSH script

definition pubkey_hash_from_witness :: "bitcoin_ext \<Rightarrow> witness \<Rightarrow> script_parse_error + script" where
  "pubkey_hash_from_witness X w =
     (if length w < 2 then Inl WitnessIndexPanic
      else Inr (x_new_v0_p2wpkh X (x_hash160 X (w ! 1))))"

definition pubkey_hash_from_script_sig :: "bitcoin_ext \<Rightarrow> bytes \<Rightarrow> script_parse_error + script" where
  "pubkey_hash_from_script_sig X b = Inr (x_new_p2pkh X (x_hash160 X b))"

definition script_hash_from_witness :: "bitcoin_ext \<Rightarrow> witness \<Rightarrow> script_parse_error + script" where
  "script_hash_from_witness X w =
     (if w = [] then Inl MissingWitnessRedeemScript
      else Inr (x_new_v0_p2wsh X (x_sha256 X (last w))))"

definition script_hash_from_script_sig :: "bitcoin_ext \<Rightarrow> bytes \<Rightarrow> script_parse_error + script" where
  "script_hash_from_script_sig X b = Inr (x_new_p2sh X (x_hash160 X b))"

definition handle_legacy_address_type ::
  "bitcoin_ext \<Rightarrow> txin \<Rightarrow> address_type \<Rightarrow> script_parse_error + spending_condition" where
  "handle_legacy_address_type X i ty =
     (let instrs = x_instructions X (script_sig i) in
      if instrs = [] then Inl (InsufficientInstructions 0)
      else bindE (map_err InvalidInstructionError (last instrs)) (\<lambda>last_instruction.
        case last_instruction of
          Op _ \<Rightarrow> Inl NotDataPush
        | PushBytes b \<Rightarrow>
            (case ty of
               P2pkh \<Rightarrow> bindE (pubkey_hash_from_script_sig X b) (\<lambda>s. Inr (ScP2PKH s))
             | P2sh \<Rightarrow> bindE (script_hash_from_script_sig X b) (\<lambda>s. Inr (ScP2SH s))
             | _ \<Rightarrow> Inl UnsupportedScript)))"

definition spending_condition_from_txin ::
  "bitcoin_ext \<Rightarrow> txin \<Rightarrow> address_type \<Rightarrow> script_parse_error + spending_condition" where
  "spending_condition_from_txin X i ty =
     (case ty of
        P2wpkh \<Rightarrow> bindE (pubkey_hash_from_witness X (txin_witness i)) (\<lambda>s. Inr (ScP2WPKH s))
      | P2wsh \<Rightarrow> bindE (script_hash_from_witness X (txin_witness i)) (\<lambda>s. Inr (ScP2WSH s))
      | P2tr \<Rightarrow> Inl UnsupportedScript
      | _ \<Rightarrow> handle_legacy_address_type X i ty)"

fun into_script :: "spending_condition \<Rightarrow> script" where
  "into_script (ScP2PKH s) = s"
| "into_script (ScP2WPKH s) = s"
| "into_script (ScP2SH s) = s"
| "into_script (ScP2WSH s) = s"

datatype find_owner_error = ScriptParse script_parse_error | KeyShouldTweak pixel_key_error

fun find_owner_loop ::
  "bitcoin_ext \<Rightarrow> chroma \<Rightarrow> script option \<Rightarrow> txin list \<Rightarrow> find_owner_error + txin option" where
  "find_owner_loop X c owner [] = Inr None"
| "find_owner_loop X c owner (i # is) =
     (case owner of
        None \<Rightarrow>
          bindE (map_err KeyShouldTweak (handle_p2wpkh_input X (txin_witness i) c)) (\<lambda>found.
          if found then Inr (Some i) else find_owner_loop X c owner is)
      | Some owner_script \<Rightarrow>
          bindE (map_err ScriptParse
                   (spending_condition_from_txin X i (script_to_address_type X owner_script))) (\<lambda>sc.
          if into_script sc = owner_script then Inr (Some i) else find_owner_loop X c owner is))"

definition find_owner_in_txinputs ::
  "bitcoin_ext \<Rightarrow> txin list \<Rightarrow> chroma \<Rightarrow> chroma_info option \<Rightarrow> find_owner_error + txin option" where
  "find_owner_in_txinputs X is c info =
     find_owner_loop X c (Option.bind info ci_owner) is"

section \<open>Totals per chroma\<close>

definition amount_of :: "bitcoin_ext \<Rightarrow> pixel_proof \<Rightarrow> u128" where
  "amount_of X pf = amount (luma (pixel_of_proof X pf))"

definition counted :: "bitcoin_ext \<Rightarrow> chroma \<Rightarrow> pixel_proof \<Rightarrow> bool" where
  "counted X c pf \<longleftrightarrow>
     \<not> is_empty_pixelproof pf \<and> amount_of X pf \<noteq> 0 \<and> chroma (pixel_of_proof X pf) = c"

text \<open>The amount of a chroma in a list of proofs, in \<open>u128\<close> and as a number.\<close>

definition chroma_total :: "bitcoin_ext \<Rightarrow> chroma \<Rightarrow> pixel_proof list \<Rightarrow> u128" where
  "chroma_total X c pfs = sum_list (map (amount_of X) (filter (counted X c) pfs))"

definition chroma_total_nat :: "bitcoin_ext \<Rightarrow> chroma \<Rightarrow> pixel_proof list \<Rightarrow> nat" where
  "chroma_total_nat X c pfs = sum_list (map (\<lambda>pf. unat (amount_of X pf)) (filter (counted X c) pfs))"

lemma chroma_total_mod: "unat (chroma_total X c pfs) = chroma_total_nat X c pfs mod 2 ^ 128"
  using unat_sum_list_mod [of "map (amount_of X) (filter (counted X c) pfs)"]
  by (simp add: chroma_total_def chroma_total_nat_def comp_def)

definition sum_step :: "bitcoin_ext \<Rightarrow> (chroma \<times> u128) list \<Rightarrow> pixel_proof \<Rightarrow> (chroma \<times> u128) list" where
  "sum_step X chromas pf =
     (let px = pixel_of_proof X pf in
      if is_empty_pixelproof pf \<or> amount (luma px) = 0 then chromas
      else
        let chroma_sum = (case map_of chromas (chroma px) of None \<Rightarrow> 0 | Some n \<Rightarrow> n) in
        AList.update (chroma px) (chroma_sum + amount (luma px)) chromas)"

lemma sum_amount_by_chroma_step:
  "sum_amount_by_chroma X ps = foldl (sum_step X) [] (map pfc_inner ps)"
  by (simp add: sum_amount_by_chroma_def sum_step_def foldl_map)

lemma map_of_sum_step:
  "map_of (sum_step X m pf) c =
     (if counted X c pf
      then Some ((case map_of m c of None \<Rightarrow> 0 | Some n \<Rightarrow> n) + amount_of X pf) else map_of m c)"
  by (auto simp: sum_step_def counted_def amount_of_def Let_def hash_map.get_put)

lemma distinct_sum_step: "distinct (map fst m) \<Longrightarrow> distinct (map fst (sum_step X m pf))"
  by (simp add: sum_step_def Let_def distinct_update)

lemma distinct_foldl_sum_step: "distinct (map fst (foldl (sum_step X) [] pfs))"
  by (induction pfs rule: rev_induct) (simp_all add: distinct_sum_step)

lemma map_of_foldl_sum_step:
  "map_of (foldl (sum_step X) [] pfs) c =
     (if list_ex (counted X c) pfs then Some (chroma_total X c pfs) else None)"
proof (induction pfs rule: rev_induct)
  case Nil
  then show ?case by simp
next
  case (snoc pf pfs)
  have "\<not> list_ex (counted X c) pfs \<Longrightarrow> chroma_total X c pfs = 0"
    by (simp add: chroma_total_def list_ex_iff filter_empty_conv)
  with snoc show ?case
    by (auto simp: map_of_sum_step chroma_total_def add.commute)
qed

lemma hash_map_eq_iff:
  assumes "distinct (map fst m)" and "distinct (map fst n)"
  shows "hash_map_eq m n \<longleftrightarrow> map_of m = map_of n"
proof
  assume eq: "hash_map_eq m n"
  then have le: "map_of m \<subseteq>\<^sub>m map_of n"
    by (fastforce simp: hash_map_eq_def list_all_iff map_le_def dest: map_of_SomeD)
  have "card (dom (map_of m)) = card (dom (map_of n))"
    using eq assms by (simp add: hash_map_eq_def dom_map_of_conv_image_fst
        distinct_card [of "map fst _", simplified])
  with map_le_implies_dom_le [OF le] have "dom (map_of m) = dom (map_of n)"
    by (simp add: card_subset_eq finite_dom_map_of)
  with le show "map_of m = map_of n"
    by (metis map_le_antisym map_le_def)
next
  assume eq: "map_of m = map_of n"
  then have "dom (map_of m) = dom (map_of n)" by simp
  then have "length m = length n"
    using assms by (metis distinct_card dom_map_of_conv_image_fst length_map set_map)
  moreover have "list_all (\<lambda>(k, v). map_of n k = Some v) m"
    using assms(1) by (auto simp: eq [symmetric] list_all_iff)
  ultimately show "hash_map_eq m n"
    by (simp add: hash_map_eq_def)
qed

lemma conservation_iff:
  "check_transfer_conservation_rules X ins outs = Inr () \<longleftrightarrow>
     (\<forall>c. (list_ex (counted X c) (map pfc_inner ins) \<longleftrightarrow> list_ex (counted X c) (map pfc_inner outs)) \<and>
          chroma_total X c (map pfc_inner ins) = chroma_total X c (map pfc_inner outs))"
proof -
  have zero: "\<not> list_ex (counted X c) pfs \<Longrightarrow> chroma_total X c pfs = 0" for c pfs
    by (simp add: chroma_total_def list_ex_iff filter_empty_conv)
  show ?thesis
    unfolding check_transfer_conservation_rules_def sum_amount_by_chroma_step failIf_eq_Inr_iff
      hash_map_eq_iff [OF distinct_foldl_sum_step distinct_foldl_sum_step] fun_eq_iff
      map_of_foldl_sum_step
    using zero by (auto split: if_splits) metis+
qed

section \<open>What an accepted transfer satisfies\<close>

definition gather :: "'a list \<Rightarrow> proof_map \<Rightarrow> 'a proof_for_check list" where
  "gather items m = map (\<lambda>(v, pf). \<lparr>pfc_statement = items ! unat v, pfc_vout = v, pfc_inner = pf\<rparr>) m"

lemma extract_ok:
  "extract_from_iterable_by_proof_map m items = Inr g \<longleftrightarrow>
     list_all (\<lambda>(v, pf). unat v < length items) m \<and> g = gather items m"
  unfolding extract_from_iterable_by_proof_map_def mapE_eq_Inr_iff gather_def
  by (induction m arbitrary: g) (auto simp: list_all2_Cons1 split: if_splits)

lemma map_inner_gather [simp]: "map pfc_inner (gather items m) = map snd m"
  by (simp add: gather_def comp_def split_def)

lemma gather_all:
  "(\<forall>p \<in> set (gather items m). P (pfc_inner p) (pfc_statement p)) \<longleftrightarrow>
     list_all (\<lambda>(v, pf). P pf (items ! unat v)) m"
  by (auto simp: gather_def list_all_iff)

lemma check_input_proof_ok:
  "check_input_proof X p = Inr () \<longleftrightarrow>
     \<not> is_burn X (pfc_inner p) \<and> check_by_input X (pfc_inner p) (pfc_statement p)"
  by (auto simp: check_input_proof_def check_by_input_Inr result_simps)

lemma check_output_proof_ok:
  "check_output_proof X p = Inr () \<longleftrightarrow> check_by_output X (pfc_inner p) (pfc_statement p)"
  by (auto simp: check_output_proof_def check_by_output_Inr result_simps)

text \<open>The proofs of a transaction's inputs and outputs hold.\<close>

definition inputs_proved :: "bitcoin_ext \<Rightarrow> transaction \<Rightarrow> proof_map \<Rightarrow> bool" where
  "inputs_proved X tx ins \<longleftrightarrow>
     list_all (\<lambda>(v, pf). unat v < length (tx_input tx) \<and> \<not> is_burn X pf \<and>
        check_by_input X pf (tx_input tx ! unat v)) ins"

definition outputs_proved :: "bitcoin_ext \<Rightarrow> transaction \<Rightarrow> proof_map \<Rightarrow> bool" where
  "outputs_proved X tx outs \<longleftrightarrow>
     list_all (\<lambda>(v, pf). unat v < length (tx_output tx) \<and>
        check_by_output X pf (tx_output tx ! unat v)) outs"

definition conserves :: "bitcoin_ext \<Rightarrow> proof_map \<Rightarrow> proof_map \<Rightarrow> bool" where
  "conserves X ins outs \<longleftrightarrow>
     (\<forall>c. (list_ex (counted X c) (map snd ins) \<longleftrightarrow> list_ex (counted X c) (map snd outs)) \<and>
          chroma_total X c (map snd ins) = chroma_total X c (map snd outs))"

lemma transfer_check_spec:
  "check_transfer_isolated X tx ins outs = Inr () \<longleftrightarrow>
     length (filter (\<lambda>out. \<not> x_is_op_return X (script_pubkey out)) (tx_output tx)) = length outs \<and>
     inputs_proved X tx ins \<and> outputs_proved X tx outs \<and> conserves X ins outs"
proof -
  have "check_transfer_isolated X tx ins outs = Inr () \<longleftrightarrow>
     length (filter (\<lambda>out. \<not> x_is_op_return X (script_pubkey out)) (tx_output tx)) = length outs \<and>
     list_all (\<lambda>(v, pf). unat v < length (tx_input tx)) ins \<and>
     list_all (\<lambda>(v, pf). unat v < length (tx_output tx)) outs \<and>
     list_all (\<lambda>(v, pf). \<not> is_burn X pf \<and> check_by_input X pf (tx_input tx ! unat v)) ins \<and>
     list_all (\<lambda>(v, pf). check_by_output X pf (tx_output tx ! unat v)) outs \<and>
     conserves X ins outs"
    by (auto simp: check_transfer_isolated_def check_number_of_proofs_def result_simps extract_ok
        check_input_proof_ok check_output_proof_ok conservation_iff conserves_def
        gather_all [of _ _ "\<lambda>pf i. \<not> is_burn X pf \<and> check_by_input X pf i"]
        gather_all [of _ _ "check_by_output X"])
  then show ?thesis
    by (auto simp: inputs_proved_def outputs_proved_def list_all_iff)
qed

text \<open>C1. The isolated check of a transfer decides its specification: it passes exactly when
  there is one proof per output that is not an \<open>OP_RETURN\<close>, every proof points at an
  existing input or output and holds for it, no input spends the burn key, and every
  chroma has the same total, modulo \<open>2^128\<close>, on both sides.
\<close>

theorem check_transfer_isolated_iff:
  "check_transfer_isolated X tx ins outs = Inr () \<longleftrightarrow>
     length (filter (\<lambda>out. \<not> x_is_op_return X (script_pubkey out)) (tx_output tx)) = length outs \<and>
     inputs_proved X tx ins \<and> outputs_proved X tx outs \<and> conserves X ins outs"
  by (rule transfer_check_spec)

lemma conserves_nat:
  "conserves X ins outs \<longleftrightarrow>
     (\<forall>c. (list_ex (counted X c) (map snd ins) \<longleftrightarrow> list_ex (counted X c) (map snd outs)) \<and>
          chroma_total_nat X c (map snd ins) mod 2 ^ 128 = chroma_total_nat X c (map snd outs) mod 2 ^ 128)"
  by (simp add: conserves_def word_unat_eq_iff chroma_total_mod)

text \<open>C2. A transfer that passes the isolated check neither creates nor destroys tokens, as
  long as no sum leaves the range of \<open>u128\<close>: for every chroma the amounts of the inputs add
  up to the amounts of the outputs.
\<close>

theorem transfer_conserves_amounts:
  assumes "check_transfer_isolated X tx ins outs = Inr ()"
    and "chroma_total_nat X c (map snd ins) < 2 ^ 128"
    and "chroma_total_nat X c (map snd outs) < 2 ^ 128"
  shows "chroma_total_nat X c (map snd ins) = chroma_total_nat X c (map snd outs)"
  using assms unfolding transfer_check_spec conserves_nat by (metis mod_less)

definition sample_proof :: "u128 \<Rightarrow> byte \<Rightarrow> pixel_proof" where
  "sample_proof n k = Sig \<lparr>sig_pixel = sample_pixel n 1, sig_inner_key = sample_public k\<rparr>"

definition sample_txout :: "byte \<Rightarrow> txout" where
  "sample_txout k = \<lparr>txout_value = 1000, script_pubkey = sample_wsh (sample_hash160 (sample_public k))\<rparr>"

definition sample_spend :: "txout list \<Rightarrow> transaction" where
  "sample_spend outs = \<lparr>tx_version = 2, tx_lock_time = 7, tx_input = [sample_in], tx_output = outs\<rparr>"

lemma sample_pixel_hash:
  "pixel_hash sample_ext (sample_pixel n a) =
     replicate 31 0 @ [sum_list (luma_to_bytes (luma_of_amount n)) + a]"
  by (simp add: pixel_hash_def sample_pixel_def pixel_new_def sample_ext_def sample_hash_def
      sample_xonly_def sum_list_replicate)

lemma sample_key_new:
  "k \<le> 128 \<Longrightarrow> pixel_key_new sample_ext (replicate 31 0 @ [h]) (sample_public k) =
     Inr (sample_public (k + (h + (2 + k))))"
  by (simp add: pixel_key_new_def pixel_hash_pubkey_scalar_def pixelhash_pubkey_hash_def
      sample_ext_def sample_hash_def sample_public_def sample_secret_of_def sum_list_replicate
      result_simps)

lemma replicate_numeral: "replicate (numeral n) x = x # replicate (pred_numeral n) x"
  by (simp add: numeral_eq_Suc)

lemma of_nat_mod_byte: "of_nat (k mod 256) = (of_nat k :: byte)"
  unfolding word_of_nat_eq_iff take_bit_eq_mod by simp

lemma nat_to_le_numeral:
  "nat_to_le (numeral n) k = of_nat (k mod 256) # nat_to_le (pred_numeral n) (k div 256)"
  by (simp only: numeral_eq_Suc [of n] nat_to_le.simps of_nat_mod_byte)

lemma sample_lumas:
  "sum_list (luma_to_bytes (luma_of_amount 5)) = 5"
  "sum_list (luma_to_bytes (luma_of_amount 170141183460469231731687303715884105728)) = 128"
  by (simp_all add: luma_to_bytes_def luma_of_amount_def to_be_bytes_def to_le_bytes_def
      pixel_sizes nat_to_le_numeral sum_list_replicate)

lemma sample_keys:
  "pixel_key_new sample_ext (pixel_hash sample_ext (sample_pixel 5 1)) (sample_public 7) =
     Inr (sample_public 22)"
  "pixel_key_new sample_ext (pixel_hash sample_ext (sample_pixel 5 1)) (sample_public 9) =
     Inr (sample_public 26)"
  "pixel_key_new sample_ext
     (pixel_hash sample_ext (sample_pixel 170141183460469231731687303715884105728 1)) (sample_public 9) =
     Inr (sample_public 149)"
  by (simp_all add: sample_pixel_hash sample_key_new sample_lumas)

lemma sample_output_proved:
  "pixel_key_new sample_ext (pixel_hash sample_ext (sample_pixel n 1)) (sample_public k) =
     Inr (sample_public k') \<Longrightarrow> check_by_output sample_ext (sample_proof n k) (sample_txout k')"
  by (simp add: check_by_output_Inr sample_proof_def sample_txout_def sig_check_by_output_def
      p2wpkh_check_by_script_ok pixel_key_to_p2wpkh_def sample_fields result_simps)

lemma sample_input_proved: "check_by_input sample_ext (sample_proof 5 7) sample_in"
  by (simp add: check_by_input_Inr sample_proof_def sample_in_def sig_check_by_input_def
      p2wpkh_from_witness_def sample_fields p2wpkh_check_by_key_ok sample_keys result_simps)

lemma sample_not_burn: "\<not> is_burn sample_ext (sample_proof n 7)"
  by (simp add: sample_proof_def ZERO_PUBLIC_KEY_def sample_ext_def ZERO_PUBKEY_BYTES_def
      sample_public_def replicate_numeral)

lemma sample_counted [simp]:
  "counted sample_ext c (sample_proof n k) \<longleftrightarrow> n \<noteq> 0 \<and> c = Chroma (sample_xonly 1)"
  "amount_of sample_ext (sample_proof n k) = n"
  by (auto simp: counted_def amount_of_def sample_proof_def sample_pixel_def pixel_new_def
      luma_of_amount_def)

lemma sample_not_op_return: "\<not> x_is_op_return sample_ext (script_pubkey (sample_txout k))"
  by (simp add: sample_fields sample_txout_def sample_wsh_def sample_push_def)

lemma sample_pay_ok:
  "check_transfer_isolated sample_ext (sample_spend [sample_txout 26]) [(0, sample_proof 5 7)]
     [(0, sample_proof 5 9)] = Inr ()"
  by (simp add: transfer_check_spec inputs_proved_def outputs_proved_def sample_spend_def
      sample_input_proved sample_output_proved sample_keys sample_not_burn sample_not_op_return
      conserves_def chroma_total_def)

theorem transfer_conserves_amounts_witness:
  "chroma_total_nat sample_ext (Chroma (sample_xonly 1)) (map snd [(0 :: u32, sample_proof 5 7)]) =
   chroma_total_nat sample_ext (Chroma (sample_xonly 1)) (map snd [(0 :: u32, sample_proof 5 9)])"
  by (rule transfer_conserves_amounts [OF sample_pay_ok]) (simp_all add: chroma_total_nat_def)

text \<open>The isolated check cannot tell totals that differ by a multiple of \<open>2^128\<close> apart: a
  transfer whose proofs hold and whose totals agree modulo \<open>2^128\<close> for every chroma
  passes. The witness turns 5 tokens into \<open>2^128 + 5\<close>.
\<close>

lemma transfer_accepts_wrapped_totals:
  assumes "length (filter (\<lambda>out. \<not> x_is_op_return X (script_pubkey out)) (tx_output tx)) = length outs"
    and "inputs_proved X tx ins" and "outputs_proved X tx outs"
    and "\<forall>c. (list_ex (counted X c) (map snd ins) \<longleftrightarrow> list_ex (counted X c) (map snd outs)) \<and>
      chroma_total_nat X c (map snd ins) mod 2 ^ 128 = chroma_total_nat X c (map snd outs) mod 2 ^ 128"
  shows "check_transfer_isolated X tx ins outs = Inr ()"
  using assms by (simp add: transfer_check_spec conserves_nat)

definition sample_inflated :: proof_map where
  "sample_inflated = [(0, sample_proof 170141183460469231731687303715884105728 9),
     (1, sample_proof 170141183460469231731687303715884105728 9), (2, sample_proof 5 9)]"

lemma transfer_accepts_wrapped_totals_witness:
  "check_transfer_isolated sample_ext (sample_spend [sample_txout 149, sample_txout 149, sample_txout 26])
     [(0, sample_proof 5 7)] sample_inflated = Inr () \<and>
   chroma_total_nat sample_ext (Chroma (sample_xonly 1)) (map snd [(0 :: u32, sample_proof 5 7)]) = 5 \<and>
   chroma_total_nat sample_ext (Chroma (sample_xonly 1)) (map snd sample_inflated) = 2 ^ 128 + 5"
proof (intro conjI)
  show "check_transfer_isolated sample_ext (sample_spend [sample_txout 149, sample_txout 149, sample_txout 26])
     [(0, sample_proof 5 7)] sample_inflated = Inr ()"
    by (rule transfer_accepts_wrapped_totals)
       (simp_all add: inputs_proved_def outputs_proved_def sample_spend_def sample_inflated_def
          sample_input_proved sample_output_proved [OF sample_keys(2)] sample_output_proved [OF sample_keys(3)]
          sample_not_burn sample_not_op_return chroma_total_nat_def)
qed (simp_all add: chroma_total_nat_def sample_inflated_def)

end
