(* ===== verification/Tx_Checker.thy ===== *)
theory Tx_Checker
  imports Services Isolated_Checks "HOL-Library.List_Lexorder"
begin

text \<open>
  The transaction checker (\<open>tx-check/src/service.rs\<close>, \<open>tx-check/src/announcements.rs\<close>): the full
  checks of a transaction against the stores, which also apply the announcements to them,
  and the two events the service handles. A batch is checked in order and each transaction
  sees what the ones before it wrote. Transaction ids are ordered byte by byte, as the
  hashes of the \<open>bitcoin\<close> crate are; the iteration order of a \<open>HashMap\<close> is the argument \<open>it\<close>.
\<close>

datatype tx_checker_error = CheckErr check_error | OwnerErr find_owner_error

type_synonym ('z, 'a) tx_check = "('z service_scheme, tx_checker_error, 'a) run"

section \<open>Applying announcements\<close>

definition add_chroma_announcements :: "chroma_announcement \<Rightarrow> ('z, unit) tx_check" where
  "add_chroma_announcements ann =
     bindR (getS (\<lambda>s. get_chroma_info s (ca_chroma ann))) (\<lambda>info.
       case info of
         None \<Rightarrow> modS (put_chroma_info (ca_chroma ann) (Some ann) 0 None)
       | Some ci \<Rightarrow>
           if ci_announcement ci \<noteq> None then retR ()
           else modS (put_chroma_info (ca_chroma ann) (Some ann) (ci_total_supply ci) (ci_owner ci)))"

definition update_freezes :: "txid \<Rightarrow> freeze_announcement \<Rightarrow> ('z, unit) tx_check" where
  "update_freezes t fa =
     bindR (getS (\<lambda>s. get_frozen_tx s (fa_outpoint fa))) (\<lambda>entry.
       if entry \<noteq> None then retR ()
       else modS (put_frozen_tx (fa_outpoint fa) t (fa_chroma fa)))"

definition update_supply :: "issue_announcement \<Rightarrow> ('z, unit) tx_check" where
  "update_supply ia =
     bindR (getS (\<lambda>s. get_chroma_info s (ia_chroma ia))) (\<lambda>info.
       case info of
         None \<Rightarrow> modS (put_chroma_info (ia_chroma ia) None (ia_amount ia) None)
       | Some ci \<Rightarrow>
           modS (put_chroma_info (ia_chroma ia) (ci_announcement ci)
             (ci_total_supply ci + ia_amount ia) (ci_owner ci)))"

definition update_owner :: "transfer_ownership_announcement \<Rightarrow> ('z, unit) tx_check" where
  "update_owner ta =
     bindR (getS (\<lambda>s. get_chroma_info s (to_chroma ta))) (\<lambda>info.
       let (ann, supply) =
         (case info of None \<Rightarrow> (None, 0) | Some ci \<Rightarrow> (ci_announcement ci, ci_total_supply ci))
       in modS (put_chroma_info (to_chroma ta) ann supply (Some (to_new_owner ta))))"

section \<open>Checking announcements\<close>

definition find_owner_in_state :: "bitcoin_ext \<Rightarrow> txin list \<Rightarrow> chroma \<Rightarrow> ('z, txin option) tx_check" where
  "find_owner_in_state X ins c =
     bindR (getS (\<lambda>s. get_chroma_info s c)) (\<lambda>info.
       liftR (map_err OwnerErr (find_owner_in_txinputs X ins c info)))"

definition check_chroma_announcement ::
  "bitcoin_ext \<Rightarrow> yuv_transaction \<Rightarrow> chroma_announcement \<Rightarrow> ('z, bool) tx_check" where
  "check_chroma_announcement X tx ann =
     bindR (find_owner_in_state X (tx_input (bitcoin_tx tx)) (ca_chroma ann)) (\<lambda>owner_input.
       if owner_input = None then retR False
       else bindR (getS (\<lambda>s. get_chroma_info s (ca_chroma ann))) (\<lambda>info.
         if (case info of None \<Rightarrow> False
             | Some ci \<Rightarrow> ca_max_supply ann \<noteq> 0 \<and> ca_max_supply ann < ci_total_supply ci)
         then retR False
         else thenR (add_chroma_announcements ann) (retR True)))"

definition freezes_forbidden :: "chroma_info option \<Rightarrow> bool" where
  "freezes_forbidden info =
     (case info of None \<Rightarrow> False
      | Some ci \<Rightarrow> (case ci_announcement ci of None \<Rightarrow> False | Some ann \<Rightarrow> \<not> ca_is_freezable ann))"

definition check_freeze_announcement ::
  "bitcoin_ext \<Rightarrow> yuv_transaction \<Rightarrow> freeze_announcement \<Rightarrow> ('z, bool) tx_check" where
  "check_freeze_announcement X tx fa =
     bindR (getS (\<lambda>s. get_chroma_info s (fa_chroma fa))) (\<lambda>info.
       if freezes_forbidden info then retR False
       else bindR (find_owner_in_state X (tx_input (bitcoin_tx tx)) (fa_chroma fa)) (\<lambda>owner_input.
         if owner_input = None then retR False
         else thenR (update_freezes (yuv_txid X tx) fa) (retR True)))"

definition check_issue_announcement ::
  "bitcoin_ext \<Rightarrow> yuv_transaction \<Rightarrow> issue_announcement \<Rightarrow> ('z, bool) tx_check" where
  "check_issue_announcement X tx ia =
     bindR (getS (\<lambda>s. get_yuv_tx s (yuv_txid X tx))) (\<lambda>known.
       if known \<noteq> None then retR True
       else bindR (find_owner_in_state X (tx_input (bitcoin_tx tx)) (ia_chroma ia)) (\<lambda>owner_input.
         if owner_input = None then retR False
         else bindR (getS (\<lambda>s. get_chroma_info s (ia_chroma ia))) (\<lambda>info.
           if (case info of None \<Rightarrow> False
               | Some ci \<Rightarrow> (case ci_announcement ci of None \<Rightarrow> False
                   | Some ann \<Rightarrow> ca_max_supply ann \<noteq> 0 \<and>
                       ca_max_supply ann < ci_total_supply ci + ia_amount ia))
           then retR False
           else thenR (update_supply ia) (retR True))))"

definition check_transfer_ownership_announcement ::
  "bitcoin_ext \<Rightarrow> yuv_transaction \<Rightarrow> transfer_ownership_announcement \<Rightarrow> ('z, bool) tx_check" where
  "check_transfer_ownership_announcement X tx ta =
     bindR (find_owner_in_state X (tx_input (bitcoin_tx tx)) (to_chroma ta)) (\<lambda>owner_input.
       if owner_input = None then retR False
       else thenR (update_owner ta) (retR True))"

fun check_announcements ::
  "bitcoin_ext \<Rightarrow> yuv_transaction \<Rightarrow> announcement \<Rightarrow> ('z, bool) tx_check" where
  "check_announcements X tx (ChromaAnn ann) = check_chroma_announcement X tx ann"
| "check_announcements X tx (FreezeAnn fa) = check_freeze_announcement X tx fa"
| "check_announcements X tx (IssueAnn ia) = check_issue_announcement X tx ia"
| "check_announcements X tx (TransferOwnershipAnn ta) = check_transfer_ownership_announcement X tx ta"

section \<open>Issues and transfers\<close>

definition check_issuance :: "bitcoin_ext \<Rightarrow> yuv_transaction \<Rightarrow> issue_announcement \<Rightarrow> ('z, bool) tx_check" where
  "check_issuance X tx ia =
     bindR (check_issue_announcement X tx ia) (\<lambda>ok.
       if \<not> ok then retR False
       else thenR (modS (put_yuv_tx X tx)) (retR True))"

definition is_output_frozen :: "bitcoin_ext \<Rightarrow> outpoint \<Rightarrow> pixel_proof \<Rightarrow> ('z, bool) tx_check" where
  "is_output_frozen X p pf =
     (let c = chroma (pixel_of_proof X pf) in
      bindR (getS (\<lambda>s. get_chroma_info s c)) (\<lambda>info.
        if freezes_forbidden info then retR False
        else bindR (getS (\<lambda>s. get_frozen_tx s p)) (\<lambda>entry.
          case entry of
            None \<Rightarrow> retR False
          | Some fe \<Rightarrow>
              if fe_chroma fe \<noteq> c then thenR (modS (delete_yuv_tx (fe_txid fe))) (retR False)
              else retR True)))"

type_synonym missing_parents = "(socket_addr \<times> txid list) list"

definition push_missing :: "socket_addr \<Rightarrow> txid \<Rightarrow> missing_parents \<Rightarrow> missing_parents" where
  "push_missing a t m =
     AList.update a ((case map_of m a of None \<Rightarrow> [] | Some ts \<Rightarrow> ts) @ [t]) m"

fun check_transfer_inputs ::
  "bitcoin_ext \<Rightarrow> yuv_transaction \<Rightarrow> socket_addr option \<Rightarrow> (txid, yuv_transaction) btree_map \<Rightarrow>
   missing_parents \<Rightarrow> (u32 \<times> pixel_proof) list \<Rightarrow> ('z, bool \<times> missing_parents) tx_check" where
  "check_transfer_inputs X tx sndr checked m [] = retR (True, m)"
| "check_transfer_inputs X tx sndr checked m ((i, pf) # rest) =
     (if length (tx_input (bitcoin_tx tx)) \<le> unat i then failR (CheckErr InputNotFound)
      else let parent = previous_output (tx_input (bitcoin_tx tx) ! unat i) in
      bindR (is_output_frozen X parent pf) (\<lambda>frozen.
        if frozen then retR (False, m)
        else bindR (getS (\<lambda>s. get_yuv_tx s (op_txid parent))) (\<lambda>stored.
          check_transfer_inputs X tx sndr checked
            (if stored = None \<and> map_of checked (op_txid parent) = None
             then (case sndr of None \<Rightarrow> m | Some a \<Rightarrow> push_missing a (op_txid parent) m)
             else m) rest)))"

definition check_transfer ::
  "bitcoin_ext \<Rightarrow> yuv_transaction \<Rightarrow> socket_addr option \<Rightarrow> proof_map \<Rightarrow>
   (txid, yuv_transaction) btree_map \<Rightarrow> missing_parents \<Rightarrow> ('z, bool \<times> missing_parents) tx_check" where
  "check_transfer X tx sndr ins checked m = check_transfer_inputs X tx sndr checked m ins"

definition check_transaction_full ::
  "bitcoin_ext \<Rightarrow> yuv_transaction \<Rightarrow> socket_addr option \<Rightarrow>
   (txid, yuv_transaction) btree_map \<Rightarrow> missing_parents \<Rightarrow> ('z, bool \<times> missing_parents) tx_check" where
  "check_transaction_full X tx sndr checked m =
     (case tx_type tx of
        Issue _ ia \<Rightarrow> bindR (check_issuance X tx ia) (\<lambda>ok. retR (ok, m))
      | Announcement ann \<Rightarrow> bindR (check_announcements X tx ann) (\<lambda>ok. retR (ok, m))
      | Transfer ins _ \<Rightarrow> check_transfer X tx sndr ins checked m)"

section \<open>Events\<close>

definition handle_invalid_txs_checker :: "bitcoin_ext \<Rightarrow> yuv_transaction list \<Rightarrow> ('z, unit) tx_check" where
  "handle_invalid_txs_checker X invalid =
     (if invalid = [] then retR ()
      else thenR (sendR (ToController (InvalidTxs (map (yuv_txid X) invalid))))
             (modS (put_invalid_txs X invalid)))"

fun check_full_loop ::
  "bitcoin_ext \<Rightarrow> (txid, yuv_transaction) btree_map \<Rightarrow> yuv_transaction list \<Rightarrow> missing_parents \<Rightarrow>
   (yuv_transaction \<times> socket_addr option) list \<Rightarrow>
   ('z, (txid, yuv_transaction) btree_map \<times> yuv_transaction list \<times> missing_parents) tx_check" where
  "check_full_loop X checked invalid m [] = retR (checked, invalid, m)"
| "check_full_loop X checked invalid m ((tx, sndr) # rest) =
     bindR (check_transaction_full X tx sndr checked m) (\<lambda>(ok, m).
       if \<not> ok then check_full_loop X checked (invalid @ [tx]) m rest
       else check_full_loop X (bt_insert (yuv_txid X tx) tx checked) invalid m rest)"

definition check_txs_full ::
  "bitcoin_ext \<Rightarrow> (missing_parents \<Rightarrow> missing_parents) \<Rightarrow>
   (yuv_transaction \<times> socket_addr option) list \<Rightarrow> ('z, unit) tx_check" where
  "check_txs_full X it txs =
     bindR (check_full_loop X [] [] [] txs) (\<lambda>(checked, invalid, m).
       thenR (whenR (checked \<noteq> []) (sendR (ToController (FullyCheckedTxs (map snd checked)))))
         (thenR (handle_invalid_txs_checker X invalid)
           (forR (\<lambda>(a, ts). sendR (ToController (GetData (map Ytx ts) a))) (it m))))"

definition check_txs_isolated :: "bitcoin_ext \<Rightarrow> yuv_transaction list \<Rightarrow> ('z, unit) tx_check" where
  "check_txs_isolated X txs =
     (let checked = map (yuv_txid X) (filter (\<lambda>tx. is_ok (check_transaction X tx)) txs);
          invalid = filter (\<lambda>tx. \<not> is_ok (check_transaction X tx)) txs
      in thenR (whenR (checked \<noteq> []) (sendR (ToController (PartiallyCheckedTxs checked))))
           (handle_invalid_txs_checker X invalid))"

fun handle_checker_event ::
  "bitcoin_ext \<Rightarrow> (missing_parents \<Rightarrow> missing_parents) \<Rightarrow> tx_checker_message \<Rightarrow> ('z, unit) tx_check" where
  "handle_checker_event X it (FullCheck txs) = check_txs_full X it txs"
| "handle_checker_event X it (IsolatedCheck txs) = check_txs_isolated X txs"

section \<open>Supplies stay within their bounds\<close>

definition supply_bounded :: "storage \<Rightarrow> bool" where
  "supply_bounded st \<longleftrightarrow>
     (\<forall>c ci ann. get_chroma_info st c = Some ci \<longrightarrow> ci_announcement ci = Some ann \<longrightarrow>
        ca_max_supply ann \<noteq> 0 \<longrightarrow> ci_total_supply ci \<le> ca_max_supply ann)"

lemma supply_bounded_put:
  assumes "supply_bounded st"
    and "\<And>a. ann = Some a \<Longrightarrow> ca_max_supply a \<noteq> 0 \<Longrightarrow> n \<le> ca_max_supply a"
  shows "supply_bounded (put_chroma_info c ann n ow st)"
  using assms by (auto simp: supply_bounded_def get_chroma_info_put)

lemma supply_bounded_frame:
  "supply_bounded (put_yuv_tx X tx st) = supply_bounded st"
  "supply_bounded (delete_yuv_tx t st) = supply_bounded st"
  "supply_bounded (put_frozen_tx p t c st) = supply_bounded st"
  "supply_bounded (put_invalid_tx X tx st) = supply_bounded st"
  by (simp_all add: supply_bounded_def store_defs)

lemma supply_bounded_invalid: "supply_bounded (put_invalid_txs X txs st) = supply_bounded st"
  by (induction txs arbitrary: st) (simp_all add: put_invalid_txs_def supply_bounded_frame)

abbreviation keeps_supply :: "('z, 'a) tx_check \<Rightarrow> bool" where
  "keeps_supply \<equiv> keepsR (on_storage supply_bounded)"

lemma keeps_supply_owner [keeps_intros]: "keeps_supply (find_owner_in_state X ins c)"
  unfolding find_owner_in_state_def by (intro keeps_intros)

lemma find_owner_in_state_eq:
  "find_owner_in_state X ins c s =
     (map_err OwnerErr (find_owner_in_txinputs X ins c (get_chroma_info (svc_storage s) c)), s)"
  by (simp add: find_owner_in_state_def run_defs service_defs)

lemma keeps_supply_add [keeps_intros]: "keeps_supply (check_chroma_announcement X tx ann)"
proof (rule keepsR_I)
  fix s :: "'z service_scheme"
  assume "on_storage supply_bounded s"
  then show "on_storage supply_bounded (snd (check_chroma_announcement X tx ann s))"
    by (auto simp: check_chroma_announcement_def add_chroma_announcements_def on_storage_def run_defs
        service_defs find_owner_in_state_eq not_less intro!: supply_bounded_put
        split: sum.splits option.splits if_splits)
qed

lemma keeps_supply_issue [keeps_intros]: "keeps_supply (check_issue_announcement X tx ia)"
proof (rule keepsR_I)
  fix s :: "'z service_scheme"
  assume "on_storage supply_bounded s"
  then show "on_storage supply_bounded (snd (check_issue_announcement X tx ia s))"
    by (auto simp: check_issue_announcement_def update_supply_def on_storage_def run_defs
        service_defs find_owner_in_state_eq not_less intro!: supply_bounded_put
        split: sum.splits option.splits if_splits)
qed

lemma keeps_supply_owner_change [keeps_intros]:
  "keeps_supply (check_transfer_ownership_announcement X tx ta)"
proof (rule keepsR_I)
  fix s :: "'z service_scheme"
  assume "on_storage supply_bounded s"
  then show "on_storage supply_bounded (snd (check_transfer_ownership_announcement X tx ta s))"
    by (auto simp: check_transfer_ownership_announcement_def update_owner_def on_storage_def run_defs
        service_defs find_owner_in_state_eq supply_bounded_def get_chroma_info_put
        split: sum.splits option.splits if_splits)
qed

lemma keeps_supply_freeze [keeps_intros]: "keeps_supply (check_freeze_announcement X tx fa)"
  unfolding check_freeze_announcement_def update_freezes_def
  by (intro keeps_intros keepsR_modS) (simp add: supply_bounded_frame)

lemma keeps_supply_issuance [keeps_intros]: "keeps_supply (check_issuance X tx ia)"
  unfolding check_issuance_def
  by (intro keeps_intros keepsR_modS) (simp add: supply_bounded_frame)

lemma keeps_supply_frozen [keeps_intros]: "keeps_supply (is_output_frozen X p pf)"
  unfolding is_output_frozen_def Let_def
  by (intro keeps_intros keepsR_modS) (simp add: supply_bounded_frame)

lemma keeps_supply_inputs [keeps_intros]:
  "keeps_supply (check_transfer_inputs X tx sndr checked m ins)"
  by (induction X tx sndr checked m ins rule: check_transfer_inputs.induct)
     (simp_all add: Let_def keeps_intros)

lemma keeps_supply_check [keeps_intros]:
  "keeps_supply (check_transaction_full X tx sndr checked m)"
proof -
  have "keeps_supply (check_announcements X tx ann)" for ann
    by (cases ann) (simp_all add: keeps_intros)
  then show ?thesis
    by (cases "tx_type tx")
       (auto simp: check_transaction_full_def check_transfer_def intro!: keeps_intros)
qed

lemma keeps_supply_loop [keeps_intros]: "keeps_supply (check_full_loop X checked invalid m txs)"
  by (induction X checked invalid m txs rule: check_full_loop.induct)
     (auto intro!: keeps_intros)

lemma keeps_supply_invalid [keeps_intros]: "keeps_supply (handle_invalid_txs_checker X invalid)"
  unfolding handle_invalid_txs_checker_def
  by (intro keeps_intros keepsR_modS) (simp add: supply_bounded_invalid)

text \<open>C3. No event the checker handles lets the stored supply of a chroma exceed the maximum its
  announcement set, on every path, those that end in an error included: not by issues, not
  by an announcement that comes after issues, not by a change of owner.
\<close>

theorem checker_keeps_supply_bounded:
  assumes "supply_bounded (svc_storage s)"
  shows "supply_bounded (svc_storage (snd (handle_checker_event X it ev s)))"
proof -
  have "keeps_supply (handle_checker_event X it ev)"
    by (cases ev)
       (auto simp: check_txs_full_def check_txs_isolated_def Let_def intro!: keeps_intros)
  with assms show ?thesis by (auto simp: on_storage_def dest: keepsR_D)
qed

section \<open>What the checks leave alone\<close>

text \<open>
  The interface between the checks and the rest of the service: a predicate on the state
  that survives the four writes the checks make survives the checks of a batch. \<open>T\<close> bounds
  the transactions of the batch, the only ones stored.
\<close>

locale checker_frame =
  fixes P :: "'z service_scheme \<Rightarrow> bool" and T :: "yuv_transaction \<Rightarrow> bool" and X :: bitcoin_ext
  assumes frame_delete: "keepsR P (modS (delete_yuv_tx t) :: ('z, unit) tx_check)"
    and frame_frozen: "keepsR P (modS (put_frozen_tx p t c) :: ('z, unit) tx_check)"
    and frame_chroma: "keepsR P (modS (put_chroma_info c ann n ow) :: ('z, unit) tx_check)"
    and frame_put: "T tx \<Longrightarrow> keepsR P (modS (put_yuv_tx X tx) :: ('z, unit) tx_check)"
begin

lemmas frame_intros = keeps_intros frame_delete frame_frozen frame_chroma frame_put

lemma keeps_announcements: "keepsR P (check_announcements X tx ann :: ('z, bool) tx_check)"
  by (cases ann)
     (auto simp: check_chroma_announcement_def add_chroma_announcements_def
        check_freeze_announcement_def update_freezes_def check_issue_announcement_def
        update_supply_def check_transfer_ownership_announcement_def update_owner_def
        find_owner_in_state_def Let_def intro!: frame_intros)

lemma keeps_issuance: "T tx \<Longrightarrow> keepsR P (check_issuance X tx ia :: ('z, bool) tx_check)"
  unfolding check_issuance_def
  by (intro frame_intros keeps_announcements [of tx "IssueAnn ia", simplified])

lemma keeps_inputs:
  "keepsR P (check_transfer_inputs X tx sndr checked m ins :: ('z, bool \<times> missing_parents) tx_check)"
  by (induction ins arbitrary: m)
     (auto simp: Let_def is_output_frozen_def intro!: frame_intros)

lemma keeps_check:
  "T tx \<Longrightarrow>
   keepsR P (check_transaction_full X tx sndr checked m :: ('z, bool \<times> missing_parents) tx_check)"
  by (cases "tx_type tx")
     (auto simp: check_transaction_full_def check_transfer_def
        intro!: frame_intros keeps_issuance keeps_announcements keeps_inputs)

lemma keeps_loop:
  "\<forall>(tx, _) \<in> set txs. T tx \<Longrightarrow> keepsR P (check_full_loop X checked invalid m txs ::
     ('z, (txid, yuv_transaction) btree_map \<times> yuv_transaction list \<times> missing_parents) tx_check)"
  by (induction txs arbitrary: checked invalid m)
     (auto intro!: frame_intros keeps_check)

end

interpretation sent_frame: checker_frame "\<lambda>s. svc_sent s = L" "\<lambda>_. True" X for L X
  by unfold_locales (simp_all add: keepsR_def modS_def modR_def)

interpretation unknown_frame:
  checker_frame "on_storage (\<lambda>st. get_yuv_tx st t = None)" "\<lambda>tx. yuv_txid X tx \<noteq> t" X for t X
  by unfold_locales
     (auto intro!: keepsR_modS simp: txs_store.get_del get_yuv_tx_put, simp_all add: store_defs)

section \<open>Frozen outputs\<close>

definition frozen_in :: "bitcoin_ext \<Rightarrow> storage \<Rightarrow> outpoint \<Rightarrow> pixel_proof \<Rightarrow> bool" where
  "frozen_in X st p pf \<longleftrightarrow>
     \<not> freezes_forbidden (get_chroma_info st (chroma (pixel_of_proof X pf))) \<and>
     map_option fe_chroma (get_frozen_tx st p) = Some (chroma (pixel_of_proof X pf))"

definition spent_output :: "yuv_transaction \<Rightarrow> u32 \<Rightarrow> outpoint" where
  "spent_output tx i = previous_output (tx_input (bitcoin_tx tx) ! unat i)"

definition same_freezes :: "storage \<Rightarrow> storage \<Rightarrow> bool" where
  "same_freezes st st' \<longleftrightarrow> db_chroma st' = db_chroma st \<and> db_frozen st' = db_frozen st"

lemma frozen_in_same: "same_freezes st st' \<Longrightarrow> frozen_in X st' p pf = frozen_in X st p pf"
  by (simp add: same_freezes_def frozen_in_def storage_reads)

lemma is_output_frozen_eq:
  "\<exists>s'. is_output_frozen X p pf s = (Inr (frozen_in X (svc_storage s) p pf), s') \<and>
     same_freezes (svc_storage s) (svc_storage s')"
  by (auto simp: is_output_frozen_def frozen_in_def same_freezes_def Let_def run_defs service_defs
      delete_yuv_tx_def split: option.splits)

lemma check_transfer_inputs_eq:
  "\<forall>(i, pf) \<in> set ins. unat i < length (tx_input (bitcoin_tx tx)) \<Longrightarrow>
   \<exists>m' s'. check_transfer_inputs X tx sndr checked m ins s =
     (Inr (\<forall>(i, pf) \<in> set ins. \<not> frozen_in X (svc_storage s) (spent_output tx i) pf, m'), s')"
proof (induction ins arbitrary: m s)
  case Nil
  then show ?case by (simp add: retR_def)
next
  case (Cons e ins)
  obtain i pf where e: "e = (i, pf)" by (cases e)
  obtain s1 where s1: "is_output_frozen X (spent_output tx i) pf s =
      (Inr (frozen_in X (svc_storage s) (spent_output tx i) pf), s1)"
    and same: "same_freezes (svc_storage s) (svc_storage s1)"
    using is_output_frozen_eq by blast
  from Cons.prems e have i: "unat i < length (tx_input (bitcoin_tx tx))" by simp
  show ?case
  proof (cases "frozen_in X (svc_storage s) (spent_output tx i) pf")
    case True
    then show ?thesis
      using s1 i by (simp add: e Let_def spent_output_def [symmetric] run_defs)
  next
    case False
    have "\<exists>m' s'. check_transfer_inputs X tx sndr checked m1 ins s1 =
        (Inr (\<forall>(i, pf) \<in> set ins. \<not> frozen_in X (svc_storage s1) (spent_output tx i) pf, m'), s')" for m1
      using Cons.IH Cons.prems by simp
    with False s1 i show ?thesis
      by (simp add: e Let_def spent_output_def [symmetric] run_defs service_defs
          frozen_in_same [OF same])
  qed
qed

lemma isolated_input_range:
  "check_transfer_isolated X (bitcoin_tx tx) ins outs = Inr () \<Longrightarrow>
   \<forall>(i, pf) \<in> set ins. unat i < length (tx_input (bitcoin_tx tx))"
  by (simp add: transfer_check_spec inputs_proved_def list_all_iff case_prod_beta)

text \<open>For a transfer that has passed the isolated check, the full check returns without an
  error, and its verdict is that none of the outputs the transfer spends is frozen: neither
  the missing parents nor the removal of mismatched freeze transactions change it.
\<close>

lemma check_transfer_verdict:
  assumes "check_transfer_isolated X (bitcoin_tx tx) ins outs = Inr ()"
  shows "\<exists>m' s'. check_transfer X tx sndr ins checked m s =
    (Inr (\<forall>(i, pf) \<in> set ins. \<not> frozen_in X (svc_storage s) (spent_output tx i) pf, m'), s')"
  unfolding check_transfer_def
  by (rule check_transfer_inputs_eq [OF isolated_input_range [OF assms]])

lemma check_transfer_rejects:
  assumes "check_transfer_isolated X (bitcoin_tx tx) ins outs = Inr ()"
    and "(i, pf) \<in> set ins" and "frozen_in X (svc_storage s) (spent_output tx i) pf"
  shows "\<exists>m' s'. check_transfer X tx sndr ins checked m s = (Inr (False, m'), s')"
proof -
  obtain m' s' where "check_transfer_inputs X tx sndr checked m ins s =
      (Inr (\<forall>(i, pf) \<in> set ins. \<not> frozen_in X (svc_storage s) (spent_output tx i) pf, m'), s')"
    using check_transfer_inputs_eq [OF isolated_input_range [OF assms(1)]] by blast
  moreover have "\<not> (\<forall>(i, pf) \<in> set ins. \<not> frozen_in X (svc_storage s) (spent_output tx i) pf)"
    using assms(2,3) by blast
  ultimately show ?thesis by (simp only: check_transfer_def) blast
qed

lemma check_freeze_announcement_True:
  "check_freeze_announcement X ftx fa s = (Inr True, s') \<longleftrightarrow>
     \<not> freezes_forbidden (get_chroma_info (svc_storage s) (fa_chroma fa)) \<and>
     (\<exists>i. find_owner_in_txinputs X (tx_input (bitcoin_tx ftx)) (fa_chroma fa)
        (get_chroma_info (svc_storage s) (fa_chroma fa)) = Inr (Some i)) \<and>
     s' = (if get_frozen_tx (svc_storage s) (fa_outpoint fa) \<noteq> None then s
           else s\<lparr>svc_storage :=
             put_frozen_tx (fa_outpoint fa) (yuv_txid X ftx) (fa_chroma fa) (svc_storage s)\<rparr>)"
  by (auto simp: check_freeze_announcement_def update_freezes_def find_owner_in_state_eq run_defs
      service_defs map_err_def split: sum.splits)

text \<open>C6. Once a freeze announcement for an output has been accepted, and the output had no
  freeze entry before, the full check rejects every transfer that passes the isolated check and
  spends the output with an input proof of the frozen chroma.
\<close>

theorem freeze_blocks_spending:
  assumes "check_freeze_announcement X ftx fa s = (Inr True, s')"
    and "get_frozen_tx (svc_storage s) (fa_outpoint fa) = None"
    and "check_transfer_isolated X (bitcoin_tx tx) ins outs = Inr ()"
    and "(i, pf) \<in> set ins" and "spent_output tx i = fa_outpoint fa"
    and "chroma (pixel_of_proof X pf) = fa_chroma fa"
  shows "\<exists>m' s''. check_transfer X tx sndr ins checked m s' = (Inr (False, m'), s'')"
proof (rule check_transfer_rejects [OF assms(3,4)])
  have "get_chroma_info (put_frozen_tx p t c st) d = get_chroma_info st d" for p t c st d
    by (simp add: store_defs)
  then show "frozen_in X (svc_storage s') (spent_output tx i) pf"
    using assms by (simp add: check_freeze_announcement_True frozen_in_def get_frozen_tx_put)
qed

text \<open>C27. The first freeze entry of an output shields it: when the output already has an entry of
  another chroma, which any chroma owner can make because the output is not looked up, the
  freeze announced by the owner of the output's own chroma is accepted and the output stays
  spendable.
\<close>

theorem foreign_freeze_shields_output:
  assumes "get_frozen_tx (svc_storage s) (fa_outpoint fa) = Some fe" and "fe_chroma fe \<noteq> fa_chroma fa"
    and "check_freeze_announcement X ftx fa s = (Inr True, s')"
    and "chroma (pixel_of_proof X pf) = fa_chroma fa"
  shows "\<exists>s''. is_output_frozen X (fa_outpoint fa) pf s' = (Inr False, s'')"
proof -
  have "\<not> frozen_in X (svc_storage s') (fa_outpoint fa) pf"
    using assms by (simp add: check_freeze_announcement_True frozen_in_def)
  then show ?thesis using is_output_frozen_eq [of X "fa_outpoint fa" pf s'] by auto
qed

section \<open>Issues\<close>

lemma put_yuv_tx_idem: "put_yuv_tx X tx (put_yuv_tx X tx st) = put_yuv_tx X tx st"
proof -
  have "AList.update k v (AList.update k v l) = AList.update k v l" for k :: txid and v and l
    by (induction l) auto
  then show ?thesis by (simp add: put_yuv_tx_def)
qed

lemma check_issue_announcement_known:
  "get_yuv_tx (svc_storage s) (yuv_txid X tx) = Some tx' \<Longrightarrow>
   check_issue_announcement X tx ia s = (Inr True, s)"
  by (simp add: check_issue_announcement_def run_defs service_defs)

lemma check_issue_announcement_new:
  assumes "get_yuv_tx (svc_storage s) (yuv_txid X tx) = None"
    and "find_owner_in_txinputs X (tx_input (bitcoin_tx tx)) (ia_chroma ia)
      (get_chroma_info (svc_storage s) (ia_chroma ia)) = Inr (Some i)"
    and "\<And>ci ann. get_chroma_info (svc_storage s) (ia_chroma ia) = Some ci \<Longrightarrow>
      ci_announcement ci = Some ann \<Longrightarrow> ca_max_supply ann \<noteq> 0 \<Longrightarrow>
      ci_total_supply ci + ia_amount ia \<le> ca_max_supply ann"
  shows "check_issue_announcement X tx ia s = (Inr True, snd (update_supply ia s))"
proof -
  obtain s1 where "update_supply ia s = (Inr (), s1)"
    by (cases "get_chroma_info (svc_storage s) (ia_chroma ia)")
       (simp_all add: update_supply_def run_defs service_defs)
  with assms show ?thesis
    by (auto simp: check_issue_announcement_def run_defs service_defs find_owner_in_state_eq not_less
        split: option.splits)
qed

lemma update_supply_eq:
  "svc_storage (snd (update_supply ia s)) =
     (case get_chroma_info (svc_storage s) (ia_chroma ia) of
        None \<Rightarrow> put_chroma_info (ia_chroma ia) None (ia_amount ia) None (svc_storage s)
      | Some ci \<Rightarrow> put_chroma_info (ia_chroma ia) (ci_announcement ci)
          (ci_total_supply ci + ia_amount ia) (ci_owner ci) (svc_storage s))"
  by (simp add: update_supply_def run_defs service_defs split: option.splits)

text \<open>An issue is counted once: when the check of an issue transaction has succeeded, checking
  the transaction again succeeds and changes nothing, neither the supply nor the stores.
\<close>

lemma issuance_counted_once:
  assumes "check_issuance X tx ia s = (Inr True, s')"
  shows "check_issuance X tx ia s' = (Inr True, s')"
proof -
  obtain s1 where s': "s' = s1\<lparr>svc_storage := put_yuv_tx X tx (svc_storage s1)\<rparr>"
    using assms
    by (auto simp: check_issuance_def run_defs service_defs split: prod.splits sum.splits if_splits)
  then have "check_issue_announcement X tx ia s' = (Inr True, s')"
    by (intro check_issue_announcement_known [where tx' = tx]) (simp add: get_yuv_tx_put)
  then show ?thesis
    by (simp add: check_issuance_def run_defs service_defs s' put_yuv_tx_idem)
qed

text \<open>Iterating over a \<open>HashMap\<close> yields every entry once, in any order.\<close>

definition iterates :: "(missing_parents \<Rightarrow> missing_parents) \<Rightarrow> bool" where
  "iterates it \<longleftrightarrow> (\<forall>m. mset (it m) = mset m)"

lemma iterates_set: "iterates it \<Longrightarrow> set (it m) = set m"
  unfolding iterates_def by (metis set_mset_mset)

lemma iterates_Nil: "iterates it \<Longrightarrow> it [] = []"
  using iterates_set [of it "[]"] by simp

lemma full_check_single:
  assumes "iterates it" and "check_transaction_full X tx a [] [] s = (Inr (True, []), s1)"
  shows "handle_checker_event X it (FullCheck [(tx, a)]) s =
    (Inr (), s1\<lparr>svc_sent := svc_sent s1 @ [ToController (FullyCheckedTxs [tx])]\<rparr>)"
  using assms
  by (simp add: check_txs_full_def handle_invalid_txs_checker_def run_defs service_defs iterates_Nil)

text \<open>An issue announcement without proofs is not counted once. Until the controller has
  stored it, every full check of the same announcement adds its amount again: two checks
  of one announcement of a new chroma leave twice the announced amount as the supply.
\<close>

lemma announcement_counted_twice:
  assumes "iterates it" and "tx_type tx = Announcement (IssueAnn ia)"
    and "get_yuv_tx (svc_storage s) (yuv_txid X tx) = None"
    and "get_chroma_info (svc_storage s) (ia_chroma ia) = None"
    and "find_owner_in_txinputs X (tx_input (bitcoin_tx tx)) (ia_chroma ia) None = Inr (Some i)"
  shows "\<exists>s'. thenR (handle_checker_event X it (FullCheck [(tx, a)]))
       (handle_checker_event X it (FullCheck [(tx, b)])) s = (Inr (), s') \<and>
     map_option ci_total_supply (get_chroma_info (svc_storage s') (ia_chroma ia)) =
       Some (2 * ia_amount ia)"
proof -
  have check: "check_transaction_full X tx c [] [] u = (Inr (True, []), snd (update_supply ia u))"
    if "check_issue_announcement X tx ia u = (Inr True, snd (update_supply ia u))"
    for c and u :: "'b service_scheme"
    using that assms(2) by (simp add: check_transaction_full_def run_defs)
  let ?s1 = "snd (update_supply ia s)"
  let ?s2 = "?s1\<lparr>svc_sent := svc_sent ?s1 @ [ToController (FullyCheckedTxs [tx])]\<rparr>"
  have "check_issue_announcement X tx ia s = (Inr True, ?s1)"
    using assms by (intro check_issue_announcement_new) auto
  then have first: "handle_checker_event X it (FullCheck [(tx, a)]) s = (Inr (), ?s2)"
    by (intro full_check_single [OF assms(1)] check)
  have st2: "svc_storage ?s2 = put_chroma_info (ia_chroma ia) None (ia_amount ia) None (svc_storage s)"
    using assms(4) by (simp add: update_supply_eq)
  then have info: "get_chroma_info (svc_storage ?s2) (ia_chroma ia) =
      Some \<lparr>ci_announcement = None, ci_total_supply = ia_amount ia, ci_owner = None\<rparr>"
    by (simp only: get_chroma_info_put) simp
  moreover have "get_yuv_tx (svc_storage ?s2) t = get_yuv_tx (svc_storage s) t" for t
    using st2 by (simp only:) (simp add: store_defs)
  moreover have "find_owner_in_txinputs X ins c (Some \<lparr>ci_announcement = None,
      ci_total_supply = n, ci_owner = None\<rparr>) = find_owner_in_txinputs X ins c None" for ins c n
    by (simp add: find_owner_in_txinputs_def)
  ultimately have "check_issue_announcement X tx ia ?s2 = (Inr True, snd (update_supply ia ?s2))"
    using assms(3,5) by (intro check_issue_announcement_new) auto
  then have "\<exists>s'. handle_checker_event X it (FullCheck [(tx, b)]) ?s2 = (Inr (), s') \<and>
      svc_storage s' = svc_storage (snd (update_supply ia ?s2))"
    using full_check_single [OF assms(1) check] by fastforce
  then obtain s' where second: "handle_checker_event X it (FullCheck [(tx, b)]) ?s2 = (Inr (), s')"
    and st: "svc_storage s' = svc_storage (snd (update_supply ia ?s2))"
    by blast
  have "map_option ci_total_supply (get_chroma_info (svc_storage s') (ia_chroma ia)) =
      Some (2 * ia_amount ia)"
    by (simp only: st update_supply_eq info) (simp add: get_chroma_info_put)
  with first second show ?thesis by (simp add: thenR_def bindR_def)
qed

text \<open>The supply wraps around: an issue whose amount takes the supply past the range of
  \<open>u128\<close> is accepted although the chroma is announced with a smaller maximum, and the stored
  supply becomes smaller than it was.
\<close>

lemma issue_wraps_supply:
  assumes "get_yuv_tx (svc_storage s) (yuv_txid X tx) = None"
    and "get_chroma_info (svc_storage s) (ia_chroma ia) = Some ci"
    and "find_owner_in_txinputs X (tx_input (bitcoin_tx tx)) (ia_chroma ia) (Some ci) = Inr (Some i)"
    and "ci_announcement ci = Some ann"
    and "2 ^ 128 \<le> unat (ci_total_supply ci) + unat (ia_amount ia)"
    and "unat (ci_total_supply ci) + unat (ia_amount ia) - 2 ^ 128 \<le> unat (ca_max_supply ann)"
  shows "\<exists>s' ci'. check_issue_announcement X tx ia s = (Inr True, s') \<and>
    get_chroma_info (svc_storage s') (ia_chroma ia) = Some ci' \<and>
    ci_total_supply ci' < ci_total_supply ci"
proof -
  let ?n = "ci_total_supply ci + ia_amount ia"
  have "unat (ci_total_supply ci) < 2 ^ 128" and amt: "unat (ia_amount ia) < 2 ^ 128"
    using unat_bound [of "ci_total_supply ci"] unat_bound [of "ia_amount ia"] by simp_all
  then have n: "unat ?n = unat (ci_total_supply ci) + unat (ia_amount ia) - 2 ^ 128"
    using assms(5) by (simp add: unat_word_ariths mod_if)
  have bound: "?n \<le> ca_max_supply ann" and less: "?n < ci_total_supply ci"
    using n assms(5,6) amt by (simp_all add: word_le_nat_alt word_less_nat_alt)
  have "check_issue_announcement X tx ia s = (Inr True, snd (update_supply ia s))"
    using assms bound by (intro check_issue_announcement_new) auto
  then show ?thesis
    using less assms(2) by (simp add: update_supply_eq get_chroma_info_put)
qed

section \<open>Batches\<close>

text \<open>The events sent between two states, and how the batch ends up in them.\<close>

definition new_events :: "'z service_scheme \<Rightarrow> 'z service_scheme \<Rightarrow> bus_message set" where
  "new_events s s' = set (drop (length (svc_sent s)) (svc_sent s'))"

definition reported_valid :: "'z service_scheme \<Rightarrow> 'z service_scheme \<Rightarrow> yuv_transaction \<Rightarrow> bool" where
  "reported_valid s s' tx \<longleftrightarrow>
     (\<exists>vs. ToController (FullyCheckedTxs vs) \<in> new_events s s' \<and> tx \<in> set vs)"

definition reported_invalid :: "'z service_scheme \<Rightarrow> 'z service_scheme \<Rightarrow> txid \<Rightarrow> bool" where
  "reported_invalid s s' t \<longleftrightarrow>
     (\<exists>ts. ToController (InvalidTxs ts) \<in> new_events s s' \<and> t \<in> set ts)"

definition requested :: "'z service_scheme \<Rightarrow> 'z service_scheme \<Rightarrow> socket_addr \<Rightarrow> txid \<Rightarrow> bool" where
  "requested s s' a t \<longleftrightarrow>
     (\<exists>items. ToController (GetData items a) \<in> new_events s s' \<and> Ytx t \<in> set items)"

lemma bt_insert_snd:
  "k \<notin> fst ` set m \<Longrightarrow> snd ` set (bt_insert k v m) = insert v (snd ` set m)"
  by (induction k v m rule: bt_insert.induct) auto

lemma check_full_loop_verdicts:
  "check_full_loop X checked invalid m txs s = (Inr (checked', invalid', m'), s') \<Longrightarrow>
   distinct (map (\<lambda>(tx, _). yuv_txid X tx) txs) \<Longrightarrow>
   \<forall>(tx, _) \<in> set txs. yuv_txid X tx \<notin> fst ` set checked \<Longrightarrow>
   \<exists>ok. snd ` set checked' = snd ` set checked \<union> {tx \<in> fst ` set txs. ok tx} \<and>
        set invalid' = set invalid \<union> {tx \<in> fst ` set txs. \<not> ok tx}"
proof (induction txs arbitrary: checked invalid m s)
  case Nil
  then show ?case by (simp add: retR_def)
next
  case (Cons e txs)
  obtain tx sndr where e: "e = (tx, sndr)" by (cases e)
  have fresh: "tx \<notin> fst ` set txs" "yuv_txid X tx \<notin> fst ` set checked"
    using Cons.prems(2,3) by (auto simp: e)
  from Cons.prems(1) obtain b m1 s1 where step: "check_transaction_full X tx sndr checked m s = (Inr (b, m1), s1)"
    and rest: "(if \<not> b then check_full_loop X checked (invalid @ [tx]) m1 txs
       else check_full_loop X (bt_insert (yuv_txid X tx) tx checked) invalid m1 txs) s1 =
       (Inr (checked', invalid', m'), s')"
    by (auto simp: e result_simps)
  have tl: "distinct (map (\<lambda>(tx, _). yuv_txid X tx) txs)"
    "\<forall>(t, _) \<in> set txs. yuv_txid X t \<noteq> yuv_txid X tx \<and> yuv_txid X t \<notin> fst ` set checked"
    using Cons.prems(2,3) by (auto simp: e image_iff)
  have "\<exists>ok. snd ` set checked' = snd ` (set checked) \<union> (if b then {tx} else {}) \<union> {t \<in> fst ` set txs. ok t} \<and>
      set invalid' = set invalid \<union> (if b then {} else {tx}) \<union> {t \<in> fst ` set txs. \<not> ok t}"
  proof (cases b)
    case True
    have "\<forall>(t, _) \<in> set txs. yuv_txid X t \<notin> fst ` set (bt_insert (yuv_txid X tx) tx checked)"
      using tl(2) by (auto simp: fst_set_bt_insert)
    then show ?thesis
      using Cons.IH [of "bt_insert (yuv_txid X tx) tx checked" invalid m1 s1] rest True tl(1)
      by (simp add: bt_insert_snd [OF fresh(2)])
  next
    case False
    have "\<forall>(t, _) \<in> set txs. yuv_txid X t \<notin> fst ` set checked" using tl(2) by auto
    then show ?thesis
      using Cons.IH [of checked "invalid @ [tx]" m1 s1] rest False tl(1) by simp
  qed
  then obtain ok where ok: "snd ` set checked' = snd ` (set checked) \<union> (if b then {tx} else {}) \<union> {t \<in> fst ` set txs. ok t}"
      "set invalid' = set invalid \<union> (if b then {} else {tx}) \<union> {t \<in> fst ` set txs. \<not> ok t}"
    by blast
  have "{t \<in> fst ` set (e # txs). (ok(tx := b)) t} =
      (if b then {tx} else {}) \<union> {t \<in> fst ` set txs. ok t}"
    "{t \<in> fst ` set (e # txs). \<not> (ok(tx := b)) t} =
      (if b then {} else {tx}) \<union> {t \<in> fst ` set txs. \<not> ok t}"
    using fresh(1) by (auto simp: e)
  with ok show ?case by (intro exI [of _ "ok(tx := b)"]) (simp add: Un_assoc)
qed

definition batch_events ::
  "bitcoin_ext \<Rightarrow> (txid, yuv_transaction) btree_map \<Rightarrow> yuv_transaction list \<Rightarrow> missing_parents \<Rightarrow> bus_message list" where
  "batch_events X checked invalid m =
     (if checked = [] then [] else [ToController (FullyCheckedTxs (map snd checked))]) @
     (if invalid = [] then [] else [ToController (InvalidTxs (map (yuv_txid X) invalid))]) @
     map (\<lambda>(a, ts). ToController (GetData (map Ytx ts) a)) m"

lemma forR_send:
  "forR (\<lambda>(a, ts). sendR (f a ts)) xs s =
     (Inr (), s\<lparr>svc_sent := svc_sent s @ map (\<lambda>(a, ts). f a ts) xs\<rparr>)"
  by (induction xs arbitrary: s) (auto simp: run_defs service_eqs)

lemma check_txs_full_eq:
  "check_full_loop X [] [] [] txs s = (Inr (checked, invalid, m), s1) \<Longrightarrow>
   check_txs_full X it txs s =
     (Inr (), s1\<lparr>svc_storage := put_invalid_txs X invalid (svc_storage s1),
        svc_sent := svc_sent s1 @ batch_events X checked invalid (it m)\<rparr>)"
  by (cases "checked = []"; cases "invalid = []")
     (simp_all add: check_txs_full_def batch_events_def handle_invalid_txs_checker_def run_defs
        forR_send whenR_def service_eqs put_invalid_txs_def)

lemma check_txs_full_cases:
  assumes "check_txs_full X it txs s = (Inr (), s')"
  obtains checked invalid m s1 where
    "check_full_loop X [] [] [] txs s = (Inr (checked, invalid, m), s1)"
    and "svc_storage s' = put_invalid_txs X invalid (svc_storage s1)"
    and "new_events s s' = set (batch_events X checked invalid (it m))"
proof -
  obtain checked invalid m s1 where loop: "check_full_loop X [] [] [] txs s = (Inr (checked, invalid, m), s1)"
    using assms by (auto simp: check_txs_full_def result_simps)
  have "keepsR (\<lambda>u. svc_sent u = svc_sent s) (check_full_loop X [] [] [] txs)"
    by (rule sent_frame.keeps_loop) simp
  from keepsR_D [OF this, of s] loop have "svc_sent s1 = svc_sent s" by simp
  with loop show thesis
    using assms by (intro that) (auto simp: check_txs_full_eq [OF loop] new_events_def)
qed

lemma batch_events_iff:
  "ToController (FullyCheckedTxs vs) \<in> set (batch_events X checked invalid m) \<longleftrightarrow>
     checked \<noteq> [] \<and> vs = map snd checked"
  "ToController (InvalidTxs ts) \<in> set (batch_events X checked invalid m) \<longleftrightarrow>
     invalid \<noteq> [] \<and> ts = map (yuv_txid X) invalid"
  "ToController (GetData items a) \<in> set (batch_events X checked invalid m) \<longleftrightarrow>
     (\<exists>ts. (a, ts) \<in> set m \<and> items = map Ytx ts)"
  by (auto simp: batch_events_def)

lemma reported_cases:
  assumes "new_events s s' = set (batch_events X checked invalid m)"
  shows "reported_valid s s' tx \<longleftrightarrow> tx \<in> snd ` set checked"
    and "reported_invalid s s' t \<longleftrightarrow> t \<in> yuv_txid X ` set invalid"
    and "requested s s' a t \<longleftrightarrow> (\<exists>ts. (a, ts) \<in> set m \<and> t \<in> set ts)"
proof -
  show "reported_valid s s' tx \<longleftrightarrow> tx \<in> snd ` set checked"
    unfolding reported_valid_def assms batch_events_iff by (cases checked) simp_all
  show "reported_invalid s s' t \<longleftrightarrow> t \<in> yuv_txid X ` set invalid"
    unfolding reported_invalid_def assms batch_events_iff by (cases invalid) simp_all
  have "Ytx t \<in> set (map Ytx ts) \<longleftrightarrow> t \<in> set ts" for ts by auto
  then show "requested s s' a t \<longleftrightarrow> (\<exists>ts. (a, ts) \<in> set m \<and> t \<in> set ts)"
    unfolding requested_def assms batch_events_iff by blast
qed

text \<open>Every transaction of a batch that is checked to the end is reported exactly once: either
  among the checked transactions, or as invalid and then it is kept in the store of invalid
  transactions.
\<close>

lemma full_check_reports_once:
  assumes "check_txs_full X it txs s = (Inr (), s')"
    and "distinct (map (\<lambda>(tx, _). yuv_txid X tx) txs)" and "tx \<in> fst ` set txs"
  shows "reported_valid s s' tx \<and> \<not> reported_invalid s s' (yuv_txid X tx) \<or>
    reported_invalid s s' (yuv_txid X tx) \<and> \<not> reported_valid s s' tx \<and>
      get_invalid_tx (svc_storage s') (yuv_txid X tx) = Some tx"
proof -
  obtain checked invalid m s1 where loop: "check_full_loop X [] [] [] txs s = (Inr (checked, invalid, m), s1)"
    and st: "svc_storage s' = put_invalid_txs X invalid (svc_storage s1)"
    and new: "new_events s s' = set (batch_events X checked invalid (it m))"
    by (rule check_txs_full_cases [OF assms(1)])
  obtain ok where ok: "snd ` set checked = {tx \<in> fst ` set txs. ok tx}"
    and bad: "set invalid = {tx \<in> fst ` set txs. \<not> ok tx}"
    using check_full_loop_verdicts [OF loop assms(2)] by (simp add: case_prod_beta) blast
  have inj: "inj_on (yuv_txid X) (fst ` set txs)"
    using assms(2) by (intro inj_on_imageI) (simp add: distinct_map comp_def split_def)
  have stored: "get_invalid_tx (svc_storage s') (yuv_txid X tx) = Some tx" if "tx \<in> set invalid"
    unfolding st put_invalid_txs_fold
  proof (rule invalid_store.get_puts_member [OF that])
    show "inj_on (yuv_txid X) (set invalid)"
      using bad by (intro inj_on_subset [OF inj]) simp
  qed
  have mem: "yuv_txid X tx \<in> yuv_txid X ` set invalid \<longleftrightarrow> tx \<in> set invalid"
    using bad by (intro inj_on_image_mem_iff [OF inj assms(3)]) simp
  show ?thesis
  proof (cases "ok tx")
    case True
    with assms(3) ok bad have "tx \<in> snd ` set checked" and "tx \<notin> set invalid" by simp_all
    then show ?thesis by (simp add: reported_cases [OF new] mem)
  next
    case False
    with assms(3) ok bad have "tx \<notin> snd ` set checked" and "tx \<in> set invalid" by simp_all
    then show ?thesis by (simp add: reported_cases [OF new] mem stored)
  qed
qed

text \<open>Which parents a map of missing parents asks which peer for.\<close>

definition asked :: "missing_parents \<Rightarrow> socket_addr \<Rightarrow> txid \<Rightarrow> bool" where
  "asked m a t \<longleftrightarrow> (\<exists>ts. map_of m a = Some ts \<and> t \<in> set ts)"

lemma asked_push: "asked (push_missing a t m) b u \<longleftrightarrow> b = a \<and> u = t \<or> asked m b u"
  by (auto simp: asked_def push_missing_def hash_map.get_put split: option.splits)

lemma check_transfer_inputs_asks:
  "check_transfer_inputs X tx sndr checked m ins s = (Inr (ok, m'), s') \<Longrightarrow>
   (asked m a t \<longrightarrow> asked m' a t) \<and>
   (ok \<longrightarrow> sndr = Some a \<longrightarrow> get_yuv_tx (svc_storage s) t = None \<longrightarrow> map_of checked t = None \<longrightarrow>
     (\<exists>(i, pf) \<in> set ins. t = op_txid (spent_output tx i)) \<longrightarrow> asked m' a t)"
proof (induction ins arbitrary: m s)
  case Nil
  then show ?case by (simp add: retR_def)
next
  case (Cons e ins)
  obtain i pf where e: "e = (i, pf)" by (cases e)
  let ?p = "op_txid (spent_output tx i)"
  from Cons.prems obtain frozen s1 where fr: "is_output_frozen X (spent_output tx i) pf s = (Inr frozen, s1)"
    and rest: "(if frozen then retR (False, m)
      else bindR (getS (\<lambda>s. get_yuv_tx s ?p)) (\<lambda>stored.
          check_transfer_inputs X tx sndr checked
            (if stored = None \<and> map_of checked ?p = None
             then (case sndr of None \<Rightarrow> m | Some a \<Rightarrow> push_missing a ?p m)
             else m) ins)) s1 = (Inr (ok, m'), s')"
    by (auto simp: e Let_def spent_output_def [symmetric] failR_def result_simps split: if_splits)
  have unk: "get_yuv_tx (svc_storage s1) t = None" if "get_yuv_tx (svc_storage s) t = None" for t
    using fr that
    by (auto simp: is_output_frozen_def Let_def run_defs service_eqs txs_store.get_del
        split: if_splits option.splits)
  show ?case
  proof (cases frozen)
    case True
    with rest show ?thesis by (simp add: retR_def)
  next
    case False
    define m1 where "m1 = (if get_yuv_tx (svc_storage s1) ?p = None \<and> map_of checked ?p = None
       then (case sndr of None \<Rightarrow> m | Some a \<Rightarrow> push_missing a ?p m) else m)"
    from rest False have "check_transfer_inputs X tx sndr checked m1 ins s1 = (Inr (ok, m'), s')"
      by (simp add: bindR_def service_eqs m1_def)
    note IH = Cons.IH [OF this]
    have "asked m a t \<longrightarrow> asked m1 a t"
      by (simp add: m1_def asked_push split: option.splits)
    moreover have "asked m1 a t" if "sndr = Some a" "get_yuv_tx (svc_storage s1) t = None"
      "map_of checked t = None" "t = ?p"
      using that by (simp add: m1_def asked_push)
    ultimately show ?thesis using IH unk by (auto simp: e)
  qed
qed

lemma check_transaction_full_mono:
  "check_transaction_full X tx sndr checked m s = (Inr (ok, m'), s') \<Longrightarrow> asked m a t \<Longrightarrow> asked m' a t"
  using check_transfer_inputs_asks [of X tx sndr checked m _ s ok m' s' a t]
  by (cases "tx_type tx")
     (auto simp: check_transaction_full_def check_transfer_def retR_def result_simps)

lemma check_full_loop_asks:
  "check_full_loop X checked invalid m txs s = (Inr (checked', invalid', m'), s') \<Longrightarrow>
   get_yuv_tx (svc_storage s) t = None \<Longrightarrow> map_of checked t = None \<Longrightarrow>
   \<forall>(tx, _) \<in> set txs. yuv_txid X tx \<noteq> t \<Longrightarrow>
   set invalid \<subseteq> set invalid' \<and> (asked m a t \<longrightarrow> asked m' a t) \<and>
   ((tx, Some a) \<in> set txs \<longrightarrow> tx_type tx = Transfer ins outs \<longrightarrow>
     (\<exists>(i, pf) \<in> set ins. t = op_txid (spent_output tx i)) \<longrightarrow> tx \<in> set invalid' \<or> asked m' a t)"
proof (induction txs arbitrary: checked invalid m s)
  case Nil
  then show ?case by (simp add: retR_def)
next
  case (Cons e txs)
  obtain tx1 sndr where e: "e = (tx1, sndr)" by (cases e)
  from Cons.prems(1) obtain ok m1 s1 where step: "check_transaction_full X tx1 sndr checked m s = (Inr (ok, m1), s1)"
    and rest: "(if \<not> ok then check_full_loop X checked (invalid @ [tx1]) m1 txs
       else check_full_loop X (bt_insert (yuv_txid X tx1) tx1 checked) invalid m1 txs) s1 =
       (Inr (checked', invalid', m'), s')"
    by (auto simp: e result_simps)
  have "keepsR (on_storage (\<lambda>st. get_yuv_tx st t = None)) (check_transaction_full X tx1 sndr checked m)"
    using Cons.prems(4) by (intro unknown_frame.keeps_check) (simp add: e)
  from keepsR_D [OF this, of s] step Cons.prems(2)
  have unk: "get_yuv_tx (svc_storage s1) t = None" by (simp add: on_storage_def)
  have tl: "\<forall>(tx, _) \<in> set txs. yuv_txid X tx \<noteq> t" and hd: "yuv_txid X tx1 \<noteq> t"
    using Cons.prems(4) by (auto simp: e)
  have mono: "asked m a t \<longrightarrow> asked m1 a t"
    using check_transaction_full_mono [OF step] by blast
  have IH: "(if ok then set invalid else insert tx1 (set invalid)) \<subseteq> set invalid' \<and>
      (asked m1 a t \<longrightarrow> asked m' a t) \<and>
      ((tx, Some a) \<in> set txs \<longrightarrow> tx_type tx = Transfer ins outs \<longrightarrow>
        (\<exists>(i, pf) \<in> set ins. t = op_txid (spent_output tx i)) \<longrightarrow> tx \<in> set invalid' \<or> asked m' a t)"
  proof (cases ok)
    case True
    with rest have "check_full_loop X (bt_insert (yuv_txid X tx1) tx1 checked) invalid m1 txs s1 =
      (Inr (checked', invalid', m'), s')" by simp
    from Cons.IH [OF this unk _ tl] Cons.prems(3) hd True show ?thesis
      by (simp add: map_of_bt_insert)
  next
    case False
    with rest have "check_full_loop X checked (invalid @ [tx1]) m1 txs s1 =
      (Inr (checked', invalid', m'), s')" by simp
    from Cons.IH [OF this unk Cons.prems(3) tl] False show ?thesis by simp
  qed
  have "tx1 \<in> set invalid' \<or> asked m' a t" if "sndr = Some a" "tx_type tx1 = Transfer ins outs"
    "\<exists>(i, pf) \<in> set ins. t = op_txid (spent_output tx1 i)"
  proof (cases ok)
    case True
    from step that have "check_transfer_inputs X tx1 sndr checked m ins s = (Inr (ok, m1), s1)"
      by (simp add: check_transaction_full_def check_transfer_def)
    from check_transfer_inputs_asks [OF this, of a t] True that Cons.prems(2,3)
    have "asked m1 a t" by blast
    with IH show ?thesis by blast
  next
    case False
    with IH show ?thesis by auto
  qed
  with IH mono show ?case by (auto simp: e split: if_splits)
qed

text \<open>C28. The node asks for what it misses: when a transfer received from a peer spends an output
  of a transaction that is neither stored nor part of the batch, the full check of the batch
  ends with a request for that parent to that peer, unless the transfer is invalid.
\<close>

theorem missing_parent_requested:
  assumes "iterates it" and "check_txs_full X it txs s = (Inr (), s')"
    and "(tx, Some a) \<in> set txs" and "tx_type tx = Transfer ins outs" and "(i, pf) \<in> set ins"
    and "get_yuv_tx (svc_storage s) (op_txid (spent_output tx i)) = None"
    and "\<forall>(tx', _) \<in> set txs. yuv_txid X tx' \<noteq> op_txid (spent_output tx i)"
  shows "requested s s' a (op_txid (spent_output tx i)) \<or> reported_invalid s s' (yuv_txid X tx)"
proof -
  obtain checked invalid m s1 where loop: "check_full_loop X [] [] [] txs s = (Inr (checked, invalid, m), s1)"
    and new: "new_events s s' = set (batch_events X checked invalid (it m))"
    by (rule check_txs_full_cases [OF assms(2)])
  have "\<exists>(j, qf) \<in> set ins. op_txid (spent_output tx i) = op_txid (spent_output tx j)"
    using assms(5) by blast
  with check_full_loop_asks [OF loop assms(6) _ assms(7), of a tx ins outs] assms(3,4)
  have "tx \<in> set invalid \<or> asked m a (op_txid (spent_output tx i))" by simp
  then show ?thesis
    by (auto simp: reported_cases [OF new] iterates_set [OF assms(1)] asked_def dest: map_of_SomeD)
qed

section \<open>Samples\<close>

definition sample_owner_in :: txin where
  "sample_owner_in = sample_in\<lparr>txin_witness := [[1], sample_public 1]\<rparr>"

definition sample_owner_tx :: transaction where
  "sample_owner_tx = \<lparr>tx_version = 2, tx_lock_time = 9, tx_input = [sample_owner_in], tx_output = []\<rparr>"

definition sample_chroma :: chroma where
  "sample_chroma = Chroma (sample_xonly 1)"

definition sample_freeze :: "chroma \<Rightarrow> freeze_announcement" where
  "sample_freeze c = \<lparr>fa_chroma = c, fa_outpoint = previous_output sample_in\<rparr>"

definition sample_issue :: "u128 \<Rightarrow> issue_announcement" where
  "sample_issue n = \<lparr>ia_chroma = sample_chroma, ia_amount = n\<rparr>"

definition sample_ann_tx :: "announcement \<Rightarrow> yuv_transaction" where
  "sample_ann_tx ann = \<lparr>bitcoin_tx = sample_owner_tx, tx_type = Announcement ann\<rparr>"

definition sample_pay_tx :: yuv_transaction where
  "sample_pay_tx = \<lparr>bitcoin_tx = sample_spend [sample_txout 26],
     tx_type = Transfer [(0, sample_proof 5 7)] [(0, sample_proof 5 9)]\<rparr>"

definition sample_service :: "storage \<Rightarrow> service" where
  "sample_service st = \<lparr>svc_storage = st, svc_sent = []\<rparr>"

lemma sample_owner_signs: "handle_p2wpkh_input sample_ext [[1], sample_public 1] sample_chroma = Inr True"
proof -
  have "x_scalar_from_be_bytes sample_ext b = Some b"
    and "x_add_exp_tweak sample_ext pk b = Inr (sample_public (sample_secret_of pk + last b))" for b pk
    by (simp_all add: sample_ext_def)
  then have "\<exists>k. pixel_key_new sample_ext h pk = Inr k" for h pk
    by (simp add: pixel_key_new_def pixel_hash_pubkey_scalar_def Let_def split: prod.splits)
  then obtain k where "pixel_key_new sample_ext (pixel_hash sample_ext (pixel_empty sample_ext))
      (chroma_public_key sample_ext sample_chroma) = Inr k"
    by blast
  moreover have "p2wpkh_from_witness sample_ext [[1], sample_public 1] = Inr ([1], sample_public 1)"
    by (simp add: p2wpkh_from_witness_def sample_fields)
  moreover have "x_x_only_public_key sample_ext (sample_public 1) = (sample_xonly 1, Even)"
    by (simp add: sample_ext_def sample_public_def sample_xonly_def)
  ultimately show ?thesis
    by (simp add: handle_p2wpkh_input_def sample_chroma_def split: prod.splits)
qed

lemma sample_owner_found:
  "Option.bind info ci_owner = None \<Longrightarrow>
   find_owner_in_txinputs sample_ext [sample_owner_in] sample_chroma info = Inr (Some sample_owner_in)"
  by (simp add: find_owner_in_txinputs_def sample_owner_in_def sample_owner_signs)

lemma sample_fields_of_txs [simp]:
  "bitcoin_tx (sample_ann_tx ann) = sample_owner_tx" "tx_type (sample_ann_tx ann) = Announcement ann"
  "tx_input sample_owner_tx = [sample_owner_in]" "svc_storage (sample_service st) = st"
  "fa_chroma (sample_freeze c) = c" "fa_outpoint (sample_freeze c) = previous_output sample_in"
  "ia_chroma (sample_issue n) = sample_chroma" "ia_amount (sample_issue n) = n"
  "bitcoin_tx sample_pay_tx = sample_spend [sample_txout 26]"
  "chroma (pixel_of_proof sample_ext (sample_proof n k)) = sample_chroma"
  "spent_output sample_pay_tx 0 = previous_output sample_in"
  by (simp_all add: sample_ann_tx_def sample_owner_tx_def sample_service_def sample_freeze_def
      sample_issue_def sample_pay_tx_def sample_proof_def sample_pixel_def pixel_new_def
      sample_chroma_def spent_output_def sample_spend_def)

lemma sample_freeze_accepted:
  "check_freeze_announcement sample_ext (sample_ann_tx (FreezeAnn (sample_freeze sample_chroma)))
     (sample_freeze sample_chroma) (sample_service empty_storage) =
     (Inr True, sample_service (put_frozen_tx (previous_output sample_in)
        (yuv_txid sample_ext (sample_ann_tx (FreezeAnn (sample_freeze sample_chroma)))) sample_chroma
        empty_storage))"
  by (simp add: check_freeze_announcement_True freezes_forbidden_def sample_owner_found
      sample_service_def)

theorem checker_keeps_supply_bounded_witness:
  "supply_bounded (svc_storage (snd (handle_checker_event sample_ext id
     (FullCheck [(sample_ann_tx (IssueAnn (sample_issue 5)), None)]) (sample_service empty_storage))))"
  by (rule checker_keeps_supply_bounded) (simp add: supply_bounded_def)

lemma check_transfer_verdict_witness:
  "\<exists>m' s'. check_transfer sample_ext sample_pay_tx (Some (sample_peer 8)) [(0, sample_proof 5 7)] [] []
     (sample_service empty_storage) = (Inr (True, m'), s')"
proof -
  have "check_transfer_isolated sample_ext (bitcoin_tx sample_pay_tx) [(0, sample_proof 5 7)]
      [(0, sample_proof 5 9)] = Inr ()"
    by (simp add: sample_pay_ok)
  from check_transfer_verdict [OF this, of "Some (sample_peer 8)" "[]" "[]" "sample_service empty_storage"]
  show ?thesis by (simp add: frozen_in_def)
qed

theorem freeze_blocks_spending_witness:
  "\<exists>m' s''. check_transfer sample_ext sample_pay_tx None [(0, sample_proof 5 7)] [] []
     (sample_service (put_frozen_tx (previous_output sample_in)
        (yuv_txid sample_ext (sample_ann_tx (FreezeAnn (sample_freeze sample_chroma)))) sample_chroma
        empty_storage)) = (Inr (False, m'), s'')"
  by (rule freeze_blocks_spending [OF sample_freeze_accepted, where outs = "[(0, sample_proof 5 9)]"
        and i = 0 and pf = "sample_proof 5 7"])
     (simp_all add: sample_pay_ok)

theorem foreign_freeze_shields_output_witness:
  "\<exists>s''. is_output_frozen sample_ext (previous_output sample_in) (sample_proof 5 7)
     (sample_service (put_frozen_tx (previous_output sample_in) [] (Chroma (sample_xonly 2))
        empty_storage)) = (Inr False, s'')"
proof -
  let ?s = "sample_service (put_frozen_tx (previous_output sample_in) [] (Chroma (sample_xonly 2))
    empty_storage)"
  have info: "get_chroma_info (put_frozen_tx p t c empty_storage) d = None" for p t c d
    by (simp add: store_defs empty_storage_def)
  have "check_freeze_announcement sample_ext (sample_ann_tx (FreezeAnn (sample_freeze sample_chroma)))
      (sample_freeze sample_chroma) ?s = (Inr True, ?s)"
    by (simp add: check_freeze_announcement_True freezes_forbidden_def sample_owner_found
        get_frozen_tx_put info)
  then show ?thesis
    using foreign_freeze_shields_output [of ?s "sample_freeze sample_chroma"
        "\<lparr>fe_txid = [], fe_chroma = Chroma (sample_xonly 2)\<rparr>"]
    by (simp add: get_frozen_tx_put sample_chroma_def sample_xonly_def)
qed

definition sample_issue_tx :: yuv_transaction where
  "sample_issue_tx = \<lparr>bitcoin_tx = sample_owner_tx, tx_type = Issue None (sample_issue 5)\<rparr>"

definition sample_token :: chroma_announcement where
  "sample_token = \<lparr>ca_chroma = sample_chroma, ca_name = [97, 97, 97], ca_symbol = [97, 97, 97],
     ca_decimal = 0, ca_max_supply = 10, ca_is_freezable = True\<rparr>"

definition sample_token_info :: chroma_info where
  "sample_token_info = \<lparr>ci_announcement = Some sample_token, ci_total_supply = 5, ci_owner = None\<rparr>"

definition sample_announced :: storage where
  "sample_announced = put_chroma_info sample_chroma (Some sample_token) 5 None empty_storage"

lemma sample_iterates: "iterates id"
  by (simp add: iterates_def)

lemma sample_announced_reads [simp]:
  "get_yuv_tx sample_announced t = None"
  "get_chroma_info sample_announced sample_chroma = Some sample_token_info"
  "ci_announcement sample_token_info = Some sample_token" "ci_total_supply sample_token_info = 5"
  "ci_owner sample_token_info = None" "ca_max_supply sample_token = 10"
  by (simp_all add: sample_announced_def sample_token_info_def sample_token_def get_chroma_info_put)
     (simp add: store_defs empty_storage_def)

lemma sample_issue_accepted:
  "check_issuance sample_ext sample_issue_tx (sample_issue 5) (sample_service sample_announced) =
     (Inr True, sample_service (put_yuv_tx sample_ext sample_issue_tx
        (svc_storage (snd (update_supply (sample_issue 5) (sample_service sample_announced))))))"
proof -
  have "check_issue_announcement sample_ext sample_issue_tx (sample_issue 5)
      (sample_service sample_announced) =
      (Inr True, snd (update_supply (sample_issue 5) (sample_service sample_announced)))"
    by (rule check_issue_announcement_new [where i = sample_owner_in])
       (auto simp: sample_issue_tx_def sample_owner_found)
  then show ?thesis
    by (simp add: check_issuance_def run_defs service_eqs update_supply_def sample_service_def)
qed

lemma issuance_counted_once_witness:
  "let s' = sample_service (put_yuv_tx sample_ext sample_issue_tx
        (svc_storage (snd (update_supply (sample_issue 5) (sample_service sample_announced)))))
   in check_issuance sample_ext sample_issue_tx (sample_issue 5) s' = (Inr True, s')"
  unfolding Let_def by (rule issuance_counted_once [OF sample_issue_accepted])

lemma announcement_counted_twice_witness:
  "\<exists>s'. thenR (handle_checker_event sample_ext id (FullCheck [(sample_ann_tx (IssueAnn (sample_issue 5)), None)]))
       (handle_checker_event sample_ext id (FullCheck [(sample_ann_tx (IssueAnn (sample_issue 5)), None)]))
       (sample_service empty_storage) = (Inr (), s') \<and>
     map_option ci_total_supply (get_chroma_info (svc_storage s') sample_chroma) = Some (2 * 5)"
  using announcement_counted_twice [OF sample_iterates, of "sample_ann_tx (IssueAnn (sample_issue 5))"
      "sample_issue 5" "sample_service empty_storage" sample_ext sample_owner_in]
  by (simp add: sample_owner_found)

lemma issue_wraps_supply_witness:
  "\<exists>s' ci'. check_issue_announcement sample_ext (sample_ann_tx (IssueAnn (sample_issue (- 1))))
       (sample_issue (- 1)) (sample_service sample_announced) = (Inr True, s') \<and>
     get_chroma_info (svc_storage s') sample_chroma = Some ci' \<and> ci_total_supply ci' < 5"
proof -
  have "unat (- 1 :: u128) = 2 ^ 128 - 1" by (simp add: unsigned_minus_1_eq_mask mask_eq_exp_minus_1)
  then show ?thesis
    using issue_wraps_supply [of "sample_service sample_announced" sample_ext
        "sample_ann_tx (IssueAnn (sample_issue (- 1)))" "sample_issue (- 1)" sample_token_info sample_owner_in sample_token]
    by (simp add: sample_owner_found)
qed

lemma sample_pay_checked:
  "check_txs_full sample_ext id [(sample_pay_tx, Some (sample_peer 8))] (sample_service empty_storage) =
     (Inr (), sample_service empty_storage\<lparr>svc_sent :=
        [ToController (FullyCheckedTxs [sample_pay_tx]),
         ToController (GetData [Ytx (replicate 32 0)] (sample_peer 8))]\<rparr>)"
  by (simp add: check_txs_full_def handle_invalid_txs_checker_def check_transaction_full_def
      check_transfer_def sample_pay_tx_def is_output_frozen_def freezes_forbidden_def run_defs
      service_eqs whenR_def sample_spend_def sample_in_def push_missing_def sample_service_def Let_def)

lemma full_check_reports_once_witness:
  "let s = sample_service empty_storage;
       s' = sample_service empty_storage\<lparr>svc_sent := [ToController (FullyCheckedTxs [sample_pay_tx]),
         ToController (GetData [Ytx (replicate 32 0)] (sample_peer 8))]\<rparr>
   in reported_valid s s' sample_pay_tx \<and> \<not> reported_invalid s s' (yuv_txid sample_ext sample_pay_tx)"
proof -
  have "reported_valid (sample_service empty_storage) (sample_service empty_storage\<lparr>svc_sent :=
      [ToController (FullyCheckedTxs [sample_pay_tx]),
       ToController (GetData [Ytx (replicate 32 0)] (sample_peer 8))]\<rparr>) sample_pay_tx"
    by (auto simp: reported_valid_def new_events_def sample_service_def)
  with full_check_reports_once [OF sample_pay_checked, of sample_pay_tx] show ?thesis
    by (simp add: Let_def)
qed

theorem missing_parent_requested_witness:
  "let s = sample_service empty_storage;
       s' = sample_service empty_storage\<lparr>svc_sent := [ToController (FullyCheckedTxs [sample_pay_tx]),
         ToController (GetData [Ytx (replicate 32 0)] (sample_peer 8))]\<rparr>
   in requested s s' (sample_peer 8) (op_txid (spent_output sample_pay_tx 0)) \<or>
      reported_invalid s s' (yuv_txid sample_ext sample_pay_tx)"
  unfolding Let_def
proof (rule missing_parent_requested [OF sample_iterates sample_pay_checked])
  show "tx_type sample_pay_tx = Transfer [(0, sample_proof 5 7)] [(0, sample_proof 5 9)]"
    by (simp add: sample_pay_tx_def)
  have "yuv_txid sample_ext sample_pay_tx \<noteq> replicate 32 0"
    by code_simp
  then show "\<forall>(tx', _) \<in> set [(sample_pay_tx, Some (sample_peer 8))].
      yuv_txid sample_ext tx' \<noteq> op_txid (spent_output sample_pay_tx 0)"
    by (simp add: sample_in_def)
qed simp_all

end
