(* ===== verification/Tx_Attach.thy ===== *)
theory Tx_Attach
  imports Services
begin

text \<open>
  The graph builder (\<open>tx-attach/src/lib.rs\<close>): it announces a transfer as attached once the
  transactions it spends are attached, and keeps it with its missing parents until then.
  Hash sets are lists without duplicates; \<open>it\<close> is the order in which the iterator of a set
  goes through it. Times are seconds.
\<close>

section \<open>State\<close>

type_synonym dep_map = "(txid \<times> txid list) list"

record graph_builder = service +
  inverse_deps :: dep_map
  deps :: dep_map
  stored_txs :: "(txid \<times> yuv_transaction \<times> nat) list"
  tx_outdated_duration :: nat

datatype attach_error = DurationSince

definition new_graph_builder :: "storage \<Rightarrow> graph_builder" where
  "new_graph_builder st =
     \<lparr>svc_storage = st, svc_sent = [], inverse_deps = [], deps = [], stored_txs = [],
      tx_outdated_duration = 60 * 60 * 24\<rparr>"

text \<open>\<open>map.entry(k).or_default().insert(v)\<close>, and the set under a key.\<close>

definition entry_or_default :: "txid \<Rightarrow> dep_map \<Rightarrow> txid list" where
  "entry_or_default k m = (case map_of m k of None \<Rightarrow> [] | Some vs \<Rightarrow> vs)"

definition entry_insert :: "txid \<Rightarrow> txid \<Rightarrow> dep_map \<Rightarrow> dep_map" where
  "entry_insert k v m = AList.update k (hs_insert v (entry_or_default k m)) m"

section \<open>Attaching\<close>

definition is_attached :: "graph_builder \<Rightarrow> txid list \<Rightarrow> txid \<Rightarrow> bool" where
  "is_attached s attached t \<longleftrightarrow> t \<in> set attached \<or> get_yuv_tx (svc_storage s) t \<noteq> None"

fun add_missing_parents ::
  "yuv_transaction \<Rightarrow> txid \<Rightarrow> txid list \<Rightarrow> u32 list \<Rightarrow> graph_builder \<Rightarrow> graph_builder" where
  "add_missing_parents tx child attached [] s = s"
| "add_missing_parents tx child attached (i # is) s =
     (if length (tx_input (bitcoin_tx tx)) \<le> unat i then add_missing_parents tx child attached is s
      else let parent = op_txid (previous_output (tx_input (bitcoin_tx tx) ! unat i)) in
        add_missing_parents tx child attached is
          (if is_attached s attached parent then s
           else s\<lparr>inverse_deps := entry_insert parent child (inverse_deps s),
                  deps := entry_insert child parent (deps s)\<rparr>))"

definition handle_transfer ::
  "bitcoin_ext \<Rightarrow> nat \<Rightarrow> proof_map \<Rightarrow> yuv_transaction \<Rightarrow> txid \<Rightarrow> txid list \<Rightarrow> txid list \<Rightarrow>
   graph_builder \<Rightarrow> txid list \<times> txid list \<times> graph_builder" where
  "handle_transfer X now ins tx child queued attached s =
     (let s = add_missing_parents tx child attached (map fst ins) s in
      if entry_or_default child (deps s) = [] then
        let s = s\<lparr>deps := AList.delete child (deps s)\<rparr>;
            attached = attached @ [yuv_txid X tx]
        in (case map_of (inverse_deps s) child of
              None \<Rightarrow> (queued, attached, s)
            | Some ids \<Rightarrow> (hs_extend queued ids, attached,
                s\<lparr>inverse_deps := AList.delete child (inverse_deps s)\<rparr>))
      else (queued, attached, s\<lparr>stored_txs := AList.update child (tx, now) (stored_txs s)\<rparr>))"

text \<open>The loop over the batch: the queue, the attached ids and the service.\<close>

type_synonym attach_state = "txid list \<times> txid list \<times> graph_builder"

fun attach_checked :: "bitcoin_ext \<Rightarrow> nat \<Rightarrow> yuv_transaction \<Rightarrow> attach_state \<Rightarrow> attach_state" where
  "attach_checked X now tx (queued, attached, s) =
     (let child = yuv_txid X tx in
      case tx_type tx of
        Issue _ _ \<Rightarrow>
          (case map_of (inverse_deps s) child of
             None \<Rightarrow> (queued, attached @ [child], s)
           | Some ids \<Rightarrow> (hs_extend queued ids, attached @ [child],
               s\<lparr>inverse_deps := AList.delete child (inverse_deps s)\<rparr>))
      | Transfer ins _ \<Rightarrow> handle_transfer X now ins tx child queued attached s
      | Announcement _ \<Rightarrow> (queued, attached, s))"

definition remove_attached_parents ::
  "txid \<Rightarrow> txid list \<Rightarrow> graph_builder \<Rightarrow> bool \<times> graph_builder" where
  "remove_attached_parents t attached s =
     (case map_of (deps s) t of
        None \<Rightarrow> (True, s)
      | Some ids \<Rightarrow>
          let ids = filter (\<lambda>p. \<not> is_attached s attached p) ids
          in (ids = [], s\<lparr>deps := AList.update t ids (deps s)\<rparr>))"

text \<open>One queued id; an id without a stored transaction is skipped.\<close>

fun attach_queued :: "bitcoin_ext \<Rightarrow> txid \<Rightarrow> attach_state \<Rightarrow> attach_state" where
  "attach_queued X t (local_queue, attached, s) =
     (case remove_attached_parents t attached s of (none_left, s) \<Rightarrow>
        if \<not> none_left then (local_queue, attached, s)
        else (case map_of (stored_txs s) t of
                None \<Rightarrow> (local_queue, attached, s)
              | Some (tx, _) \<Rightarrow>
                  let s = s\<lparr>stored_txs := AList.delete t (stored_txs s), deps := AList.delete t (deps s)\<rparr>;
                      attached = attached @ [yuv_txid X tx]
                  in (case map_of (inverse_deps s) t of
                        None \<Rightarrow> (local_queue, attached, s)
                      | Some ids \<Rightarrow> (hs_extend local_queue ids, attached,
                          s\<lparr>inverse_deps := AList.delete t (inverse_deps s)\<rparr>))))"

definition attach_queue :: "bitcoin_ext \<Rightarrow> txid list \<Rightarrow> attach_state \<Rightarrow> attach_state" where
  "attach_queue X ts a = foldl (\<lambda>a t. attach_queued X t a) a ts"

text \<open>A pass that queues transactions has taken one out of the store, so the passes end.\<close>

lemma length_delete_less: "map_of m k = Some v \<Longrightarrow> length (AList.delete k m) < length m"
  by (induction m) (auto simp: less_Suc_eq_le length_delete_le split: if_splits)

lemma attach_queued_progress:
  "attach_queued X t (lq, att, s) = (lq', att', s') \<Longrightarrow>
   length (stored_txs s') \<le> length (stored_txs s) \<and>
   (lq' = lq \<or> length (stored_txs s') < length (stored_txs s))"
  by (auto simp: remove_attached_parents_def Let_def length_delete_le split: if_splits option.splits
      dest!: length_delete_less [of "stored_txs s" t])

lemma attach_queue_progress:
  "attach_queue X ts (lq, att, s) = (lq', att', s') \<Longrightarrow>
   length (stored_txs s') \<le> length (stored_txs s) \<and>
   (lq' = lq \<or> length (stored_txs s') < length (stored_txs s))"
proof (induction ts arbitrary: lq att s)
  case Nil
  then show ?case by (simp add: attach_queue_def)
next
  case (Cons t ts)
  obtain lq1 att1 s1 where one: "attach_queued X t (lq, att, s) = (lq1, att1, s1)"
    by (cases "attach_queued X t (lq, att, s)") auto
  with Cons.prems have "attach_queue X ts (lq1, att1, s1) = (lq', att', s')"
    by (simp add: attach_queue_def)
  from Cons.IH [OF this] attach_queued_progress [OF one] show ?case by auto
qed

function attach_rounds ::
  "bitcoin_ext \<Rightarrow> (txid list \<Rightarrow> txid list) \<Rightarrow> txid list \<Rightarrow> txid list \<Rightarrow> graph_builder \<Rightarrow>
   txid list \<times> graph_builder" where
  "attach_rounds X it queued attached s =
     (if queued = [] then (attached, s)
      else case attach_queue X (it queued) ([], attached, s) of
        (local_queue, attached, s) \<Rightarrow> attach_rounds X it local_queue attached s)"
  by pat_completeness auto
termination
proof (relation "measures [\<lambda>(X, it, q, att, s). length (stored_txs s), \<lambda>(X, it, q, att, s). length q]",
    goal_cases)
  case 1
  then show ?case by simp
next
  case (2 X it q att s lq y att' s')
  then have "attach_queue X (it q) ([], att, s) = (lq, att', s')" by simp
  from attach_queue_progress [OF this] 2(1) show ?case by auto
qed

declare attach_rounds.simps [simp del]

definition handle_fully_attached_txs :: "txid list \<Rightarrow> graph_builder \<Rightarrow> graph_builder" where
  "handle_fully_attached_txs attached s =
     (if attached = [] then s
      else s\<lparr>svc_sent := svc_sent s @ [ToController (AttachedTxs attached)]\<rparr>)"

definition attach_txs ::
  "bitcoin_ext \<Rightarrow> (txid list \<Rightarrow> txid list) \<Rightarrow> nat \<Rightarrow> yuv_transaction list \<Rightarrow> graph_builder \<Rightarrow> graph_builder" where
  "attach_txs X it now checked s =
     (case foldl (\<lambda>a tx. attach_checked X now tx a) ([], [], s) checked of (queued, attached, s) \<Rightarrow>
        case attach_rounds X it queued attached s of (attached, s) \<Rightarrow>
          handle_fully_attached_txs attached s)"

fun handle_graph_event ::
  "bitcoin_ext \<Rightarrow> (txid list \<Rightarrow> txid list) \<Rightarrow> nat \<Rightarrow> graph_builder_message \<Rightarrow> graph_builder \<Rightarrow> graph_builder" where
  "handle_graph_event X it now (CheckedTxs txs) s = attach_txs X it now txs s"

section \<open>Cleaning up\<close>

fun remove_from_inverse :: "txid \<Rightarrow> txid list \<Rightarrow> dep_map \<Rightarrow> dep_map" where
  "remove_from_inverse t [] m = m"
| "remove_from_inverse t (d # ds) m =
     remove_from_inverse t ds
       (case map_of m d of
          None \<Rightarrow> m
        | Some ids \<Rightarrow>
            let ids = hs_remove t ids
            in if ids = [] then AList.delete d m else AList.update d ids m)"

definition remove_tx_from_deps ::
  "(txid list \<Rightarrow> txid list) \<Rightarrow> txid \<Rightarrow> graph_builder \<Rightarrow> graph_builder" where
  "remove_tx_from_deps it t s =
     (case map_of (deps s) t of
        None \<Rightarrow> s
      | Some ds \<Rightarrow> s\<lparr>deps := AList.delete t (deps s),
                      inverse_deps := remove_from_inverse t (it ds) (inverse_deps s)\<rparr>)"

lemma length_remove_from_inverse: "length (remove_from_inverse t ds m) \<le> length m"
proof (induction t ds m rule: remove_from_inverse.induct)
  case (2 t d ds m)
  have "length (AList.update d ids m) = length m" if "map_of m d = Some v" for ids v
    using that by (induction m) auto
  then show ?case
    using 2 length_delete_le [of d m] by (fastforce simp: Let_def split: option.splits)
qed simp

function remove_outdated_loop ::
  "(txid list \<Rightarrow> txid list) \<Rightarrow> txid list \<Rightarrow> txid list \<Rightarrow> graph_builder \<Rightarrow> graph_builder" where
  "remove_outdated_loop it [] removed s = s"
| "remove_outdated_loop it (t # ts) removed s =
     (let s = remove_tx_from_deps it t (s\<lparr>stored_txs := AList.delete t (stored_txs s)\<rparr>) in
      case map_of (inverse_deps s) t of
        None \<Rightarrow> remove_outdated_loop it ts removed s
      | Some ids \<Rightarrow>
          let new = filter (\<lambda>i. i \<notin> set removed) (it ids)
          in remove_outdated_loop it (ts @ new) (hs_extend removed new)
               (s\<lparr>inverse_deps := AList.delete t (inverse_deps s)\<rparr>))"
  by pat_completeness auto
termination
proof (relation "measures [\<lambda>(it, ts, rm, s). length (inverse_deps s), \<lambda>(it, ts, rm, s). length ts]",
    goal_cases)
  case 1
  then show ?case by simp
next
  case (2 it t ts rm s s1)
  have "length (inverse_deps (remove_tx_from_deps it t (s\<lparr>stored_txs := m\<rparr>))) \<le> length (inverse_deps s)" for m
    by (simp add: remove_tx_from_deps_def length_remove_from_inverse split: option.splits)
  with 2 show ?case by (auto simp: less_Suc_eq_le le_less)
next
  case (3 it t ts rm s s1 ids new)
  have "length (inverse_deps (remove_tx_from_deps it t (s\<lparr>stored_txs := m\<rparr>))) \<le> length (inverse_deps s)" for m
    by (simp add: remove_tx_from_deps_def length_remove_from_inverse split: option.splits)
  with 3 length_delete_less [of "inverse_deps s1" t ids] show ?case
    by (auto intro: less_le_trans)
qed

definition remove_outdated_tx :: "(txid list \<Rightarrow> txid list) \<Rightarrow> txid \<Rightarrow> graph_builder \<Rightarrow> graph_builder" where
  "remove_outdated_tx it t s = remove_outdated_loop it [t] [t] s"

definition handle_cleanup ::
  "(txid list \<Rightarrow> txid list) \<Rightarrow> nat \<Rightarrow> graph_builder \<Rightarrow> attach_error + graph_builder" where
  "handle_cleanup it now s =
     (if \<exists>(t, tx, created) \<in> set (stored_txs s). now < created then Inl DurationSince
      else Inr (foldl (\<lambda>s t. remove_outdated_tx it t s) s
             (map fst (filter (\<lambda>(t, tx, created). tx_outdated_duration s < now - created) (stored_txs s)))))"

section \<open>The dependency graph\<close>

text \<open>\<open>waits s c p\<close>: \<open>c\<close> is kept until \<open>p\<close> is attached; \<open>wakes s p c\<close>: attaching \<open>p\<close> queues \<open>c\<close>.\<close>

definition waits :: "graph_builder \<Rightarrow> txid \<Rightarrow> txid \<Rightarrow> bool" where
  "waits s c p \<longleftrightarrow> p \<in> set (entry_or_default c (deps s))"

definition wakes :: "graph_builder \<Rightarrow> txid \<Rightarrow> txid \<Rightarrow> bool" where
  "wakes s p c \<longleftrightarrow> c \<in> set (entry_or_default p (inverse_deps s))"

definition parent_at :: "yuv_transaction \<Rightarrow> u32 \<Rightarrow> txid" where
  "parent_at tx i = op_txid (previous_output (tx_input (bitcoin_tx tx) ! unat i))"

definition parents_of :: "yuv_transaction \<Rightarrow> txid set" where
  "parents_of tx =
     (case tx_type tx of
        Transfer ins _ \<Rightarrow> parent_at tx ` {i \<in> fst ` set ins. unat i < length (tx_input (bitcoin_tx tx))}
      | _ \<Rightarrow> {})"

lemma entry_or_default_simps [simp]:
  "entry_or_default k (AList.update j vs m) = (if k = j then vs else entry_or_default k m)"
  "entry_or_default k (AList.delete j m) = (if k = j then [] else entry_or_default k m)"
  "set (entry_or_default k (entry_insert j v m)) =
     (if k = j then insert v (set (entry_or_default k m)) else set (entry_or_default k m))"
  "map_of m k = Some vs \<Longrightarrow> entry_or_default k m = vs"
  "map_of m k = None \<Longrightarrow> entry_or_default k m = []"
  by (auto simp: entry_or_default_def entry_insert_def hash_map.get_put hash_map.get_del
      split: option.splits)

lemma add_missing_parents_frame [simp]:
  "stored_txs (add_missing_parents tx child att is s) = stored_txs s"
  "svc_storage (add_missing_parents tx child att is s) = svc_storage s"
  "svc_sent (add_missing_parents tx child att is s) = svc_sent s"
  by (induction tx child att "is" s rule: add_missing_parents.induct) (simp_all add: Let_def)

lemma is_attached_frame [simp]:
  "is_attached (add_missing_parents tx child att is s) att' t = is_attached s att' t"
  "is_attached (s\<lparr>deps := d\<rparr>) att' t = is_attached s att' t"
  "is_attached (s\<lparr>inverse_deps := d\<rparr>) att' t = is_attached s att' t"
  "is_attached (s\<lparr>stored_txs := m\<rparr>) att' t = is_attached s att' t"
  by (simp_all add: is_attached_def)

definition unattached :: "yuv_transaction \<Rightarrow> txid list \<Rightarrow> u32 list \<Rightarrow> graph_builder \<Rightarrow> txid set" where
  "unattached tx att is s =
     {p \<in> parent_at tx ` {i \<in> set is. unat i < length (tx_input (bitcoin_tx tx))}. \<not> is_attached s att p}"

lemma add_missing_parents_graph:
  "(\<forall>c p. waits (add_missing_parents tx child att is s) c p \<longleftrightarrow>
      waits s c p \<or> c = child \<and> p \<in> unattached tx att is s) \<and>
   (\<forall>c p. wakes (add_missing_parents tx child att is s) p c \<longleftrightarrow>
      wakes s p c \<or> c = child \<and> p \<in> unattached tx att is s)"
proof (induction "is" arbitrary: s)
  case Nil
  then show ?case by (simp add: unattached_def)
next
  case (Cons i "is")
  let ?s = "\<lambda>q. s\<lparr>inverse_deps := entry_insert q child (inverse_deps s),
        deps := entry_insert child q (deps s)\<rparr>"
  have "waits (?s q) c p \<longleftrightarrow> waits s c p \<or> c = child \<and> p = q"
    "wakes (?s q) p c \<longleftrightarrow> wakes s p c \<or> c = child \<and> p = q" for q c p
    by (auto simp: waits_def wakes_def)
  moreover have "unattached tx att is (?s q) = unattached tx att is s" for q
    by (simp add: unattached_def is_attached_def)
  moreover have "unattached tx att (i # is) s =
      (if unat i < length (tx_input (bitcoin_tx tx)) \<and> \<not> is_attached s att (parent_at tx i)
       then insert (parent_at tx i) (unattached tx att is s) else unattached tx att is s)"
    by (auto simp: unattached_def)
  ultimately show ?case
    using Cons.IH by (simp add: Let_def parent_at_def [symmetric] not_le) blast
qed

section \<open>The invariant of an attachment\<close>

text \<open>
  \<open>justified\<close>: every attached id belongs to a known transaction whose parents are settled
  before it. \<open>attaching T D Q att s\<close> holds while a batch is attached: \<open>T\<close> are the
  transactions that may be attached, \<open>D\<close> the ids settled before the batch, \<open>Q\<close> the queue.
\<close>

definition justified ::
  "bitcoin_ext \<Rightarrow> yuv_transaction set \<Rightarrow> txid set \<Rightarrow> txid list \<Rightarrow> bool" where
  "justified X T D att \<longleftrightarrow>
     (\<forall>ys t zs. att = ys @ t # zs \<longrightarrow>
        (\<exists>tx \<in> T. yuv_txid X tx = t \<and> parents_of tx \<subseteq> D \<union> set ys))"

definition attaching ::
  "bitcoin_ext \<Rightarrow> yuv_transaction set \<Rightarrow> txid set \<Rightarrow> txid set \<Rightarrow> txid list \<Rightarrow> graph_builder \<Rightarrow> bool" where
  "attaching X T D Q att s \<longleftrightarrow>
     (\<forall>c p. waits s c p \<longrightarrow> wakes s p c \<or> p \<in> set att) \<and>
     (\<forall>c p. waits s c p \<longrightarrow> p \<in> set att \<longrightarrow> c \<in> Q) \<and>
     (\<forall>c. map_of (stored_txs s) c \<noteq> None \<longleftrightarrow> (\<exists>p. waits s c p)) \<and>
     (\<forall>c tx time. map_of (stored_txs s) c = Some (tx, time) \<longrightarrow>
        tx \<in> T \<and> yuv_txid X tx = c \<and> (\<forall>p \<in> parents_of tx. p \<in> D \<union> set att \<or> waits s c p)) \<and>
     (\<forall>t. get_yuv_tx (svc_storage s) t \<noteq> None \<longrightarrow> t \<in> D) \<and>
     justified X T D att"

lemma justified_Nil [simp]: "justified X T D []"
  by (simp add: justified_def)

lemma justified_append:
  assumes "justified X T D att" and "tx \<in> T" and "parents_of tx \<subseteq> D \<union> set att"
  shows "justified X T D (att @ [yuv_txid X tx])"
  unfolding justified_def
proof (intro allI impI)
  fix ys t zs
  assume eq: "att @ [yuv_txid X tx] = ys @ t # zs"
  show "\<exists>tx \<in> T. yuv_txid X tx = t \<and> parents_of tx \<subseteq> D \<union> set ys"
  proof (cases zs rule: rev_cases)
    case Nil
    with eq have "ys = att" and "t = yuv_txid X tx" by simp_all
    with assms(2,3) show ?thesis by blast
  next
    case (snoc zs' z)
    with eq have "att = ys @ t # zs'" by simp
    with assms(1) show ?thesis by (simp add: justified_def)
  qed
qed

lemma attachingD:
  assumes "attaching X T D Q att s"
  shows "waits s c p \<Longrightarrow> wakes s p c \<or> p \<in> set att"
    and "waits s c p \<Longrightarrow> p \<in> set att \<Longrightarrow> c \<in> Q"
    and "map_of (stored_txs s) c \<noteq> None \<longleftrightarrow> (\<exists>p. waits s c p)"
    and "map_of (stored_txs s) c = Some (tx, time) \<Longrightarrow> tx \<in> T \<and> yuv_txid X tx = c"
    and "map_of (stored_txs s) c = Some (tx, time) \<Longrightarrow> p \<in> parents_of tx \<Longrightarrow>
      p \<in> D \<union> set att \<or> waits s c p"
    and "get_yuv_tx (svc_storage s) t \<noteq> None \<Longrightarrow> t \<in> D"
    and "justified X T D att"
  using assms unfolding attaching_def by blast+

lemma attachingI:
  assumes "\<And>c p. waits s c p \<Longrightarrow> wakes s p c \<or> p \<in> set att"
    and "\<And>c p. waits s c p \<Longrightarrow> p \<in> set att \<Longrightarrow> c \<in> Q"
    and "\<And>c. map_of (stored_txs s) c \<noteq> None \<longleftrightarrow> (\<exists>p. waits s c p)"
    and "\<And>c tx time. map_of (stored_txs s) c = Some (tx, time) \<Longrightarrow> tx \<in> T \<and> yuv_txid X tx = c"
    and "\<And>c tx time p. map_of (stored_txs s) c = Some (tx, time) \<Longrightarrow> p \<in> parents_of tx \<Longrightarrow>
      p \<in> D \<union> set att \<or> waits s c p"
    and "\<And>t. get_yuv_tx (svc_storage s) t \<noteq> None \<Longrightarrow> t \<in> D"
    and "justified X T D att"
  shows "attaching X T D Q att s"
  using assms unfolding attaching_def by blast

lemma attached_settled:
  "attaching X T D Q att s \<Longrightarrow> is_attached s att t \<Longrightarrow> t \<in> D \<union> set att"
  by (auto simp: is_attached_def dest: attachingD(6))

text \<open>The three ways in which a step changes the graph.\<close>

lemma attaching_attach:
  assumes inv: "attaching X T D Q att s" and t: "tx \<in> T" "yuv_txid X tx = t"
    and parents: "parents_of tx \<subseteq> D \<union> set att"
    and waits': "\<And>c p. waits s' c p \<longleftrightarrow> waits s c p \<and> c \<notin> R"
    and wakes': "\<And>c p. wakes s' p c \<longleftrightarrow> wakes s p c \<and> p \<noteq> t"
    and stored': "\<And>c. map_of (stored_txs s') c = (if c \<in> R then None else map_of (stored_txs s) c)"
    and storage: "svc_storage s' = svc_storage s"
    and Q': "Q - R \<subseteq> Q'" "\<And>c. wakes s t c \<Longrightarrow> c \<in> Q'"
  shows "attaching X T D Q' (att @ [t]) s'"
proof (rule attachingI)
  note D = attachingD [OF inv]
  show "justified X T D (att @ [t])"
    using justified_append [OF D(7) t(1) parents] t(2) by simp
  show "wakes s' p c \<or> p \<in> set (att @ [t])" if "waits s' c p" for c p
    using D(1) [of c p] that by (auto simp: waits' wakes')
  show "c \<in> Q'" if "waits s' c p" and "p \<in> set (att @ [t])" for c p
    using D(1) [of c p] D(2) [of c p] that Q' by (auto simp: waits')
  show "map_of (stored_txs s') c \<noteq> None \<longleftrightarrow> (\<exists>p. waits s' c p)" for c
    using D(3) [of c] by (simp add: stored' waits')
  show "tx' \<in> T \<and> yuv_txid X tx' = c" if "map_of (stored_txs s') c = Some (tx', time)" for c tx' time
    using D(4) [of c tx' time] that by (simp add: stored' split: if_splits)
  show "p \<in> D \<union> set (att @ [t]) \<or> waits s' c p"
    if "map_of (stored_txs s') c = Some (tx', time)" and "p \<in> parents_of tx'" for c tx' time p
    using D(5) [of c tx' time p] that by (auto simp: stored' waits' split: if_splits)
  show "u \<in> D" if "get_yuv_tx (svc_storage s') u \<noteq> None" for u
    using D(6) [of u] that by (simp add: storage)
qed

lemma attaching_store:
  assumes inv: "attaching X T D Q att s" and t: "tx \<in> T" "yuv_txid X tx = t"
    and parents: "parents_of tx \<subseteq> D \<union> set att \<union> N" and N: "N \<inter> set att = {}"
    and waits': "\<And>c p. waits s' c p \<longleftrightarrow> waits s c p \<or> c = t \<and> p \<in> N"
    and wakes': "\<And>c p. wakes s' p c \<longleftrightarrow> wakes s p c \<or> c = t \<and> p \<in> N"
    and some: "waits s' t q"
    and stored': "\<And>c. map_of (stored_txs s') c = (if c = t then Some (tx, now) else map_of (stored_txs s) c)"
    and storage: "svc_storage s' = svc_storage s"
  shows "attaching X T D Q att s'"
proof (rule attachingI)
  note D = attachingD [OF inv]
  show "justified X T D att" by (fact D(7))
  show "wakes s' p c \<or> p \<in> set att" if "waits s' c p" for c p
    using D(1) [of c p] that by (auto simp: waits' wakes')
  show "c \<in> Q" if "waits s' c p" and "p \<in> set att" for c p
    using D(2) [of c p] that N by (auto simp: waits')
  show "map_of (stored_txs s') c \<noteq> None \<longleftrightarrow> (\<exists>p. waits s' c p)" for c
    using D(3) [of c] some by (auto simp: stored' waits')
  show "tx' \<in> T \<and> yuv_txid X tx' = c" if "map_of (stored_txs s') c = Some (tx', time)" for c tx' time
    using D(4) [of c tx' time] that t by (simp add: stored' split: if_splits)
  show "p \<in> D \<union> set att \<or> waits s' c p"
    if "map_of (stored_txs s') c = Some (tx', time)" and "p \<in> parents_of tx'" for c tx' time p
    using D(5) [of c tx' time p] that parents by (auto simp: stored' waits' split: if_splits)
  show "u \<in> D" if "get_yuv_tx (svc_storage s') u \<noteq> None" for u
    using D(6) [of u] that by (simp add: storage)
qed

lemma attaching_settle:
  assumes inv: "attaching X T D Q att s"
    and waits': "\<And>c p. waits s' c p \<longleftrightarrow> waits s c p \<and> \<not> (c = t \<and> is_attached s att p)"
    and wakes': "\<And>c p. wakes s' p c \<longleftrightarrow> wakes s p c"
    and some: "\<And>q. waits s t q \<Longrightarrow> \<exists>p. waits s' t p"
    and frame: "stored_txs s' = stored_txs s" "svc_storage s' = svc_storage s" and Q': "Q - {t} \<subseteq> Q'"
  shows "attaching X T D Q' att s'"
proof (rule attachingI)
  note D = attachingD [OF inv]
  show "justified X T D att" by (fact D(7))
  show "wakes s' p c \<or> p \<in> set att" if "waits s' c p" for c p
    using D(1) [of c p] that by (auto simp: waits' wakes')
  show "c \<in> Q'" if "waits s' c p" and "p \<in> set att" for c p
    using D(2) [of c p] that Q' by (auto simp: waits' is_attached_def)
  have "(\<exists>p. waits s' c p) \<longleftrightarrow> (\<exists>p. waits s c p)" for c
    using some by (cases "c = t") (auto simp: waits')
  then show "map_of (stored_txs s') c \<noteq> None \<longleftrightarrow> (\<exists>p. waits s' c p)" for c
    using D(3) [of c] by (simp add: frame)
  show "tx' \<in> T \<and> yuv_txid X tx' = c" if "map_of (stored_txs s') c = Some (tx', time)" for c tx' time
    using D(4) [of c tx' time] that by (simp add: frame)
  show "p \<in> D \<union> set att \<or> waits s' c p"
    if "map_of (stored_txs s') c = Some (tx', time)" and "p \<in> parents_of tx'" for c tx' time p
    using D(5) [of c tx' time p] that attached_settled [OF inv, of p] by (auto simp: frame waits')
  show "u \<in> D" if "get_yuv_tx (svc_storage s') u \<noteq> None" for u
    using D(6) [of u] that by (simp add: frame)
qed

section \<open>Attaching keeps the invariant\<close>

lemma pop_inverse:
  assumes "(case map_of (inverse_deps s) t of None \<Rightarrow> (q, att, s)
      | Some ids \<Rightarrow> (hs_extend q ids, att, s\<lparr>inverse_deps := AList.delete t (inverse_deps s)\<rparr>)) =
      (q', att', s')"
  shows "att' = att" and "set q' = set q \<union> {c. wakes s t c}"
    and "waits s' c p \<longleftrightarrow> waits s c p" and "wakes s' p c \<longleftrightarrow> wakes s p c \<and> p \<noteq> t"
    and "stored_txs s' = stored_txs s" and "svc_storage s' = svc_storage s" and "svc_sent s' = svc_sent s"
  using assms by (auto simp: waits_def wakes_def split: option.splits if_splits)

lemma attach_checked_attaching:
  assumes inv: "attaching X T D (set queued) att s" and tx: "tx \<in> T"
    and run: "attach_checked X now tx (queued, att, s) = (queued', att', s')"
  shows "attaching X T D (set queued') att' s'"
proof (cases "tx_type tx")
  case (Issue outs ia)
  with run have pop: "(case map_of (inverse_deps s) (yuv_txid X tx) of
      None \<Rightarrow> (queued, att @ [yuv_txid X tx], s)
    | Some ids \<Rightarrow> (hs_extend queued ids, att @ [yuv_txid X tx],
        s\<lparr>inverse_deps := AList.delete (yuv_txid X tx) (inverse_deps s)\<rparr>)) = (queued', att', s')"
    by (simp add: Let_def)
  show ?thesis
    unfolding pop_inverse(1) [OF pop]
    by (rule attaching_attach [OF inv tx refl, where R = "{}"])
       (auto simp: parents_of_def Issue pop_inverse(2-6) [OF pop])
next
  case (Announcement ann)
  with run inv show ?thesis by simp
next
  case (Transfer ins outs)
  let ?t = "yuv_txid X tx"
  define N where "N = unattached tx att (map fst ins) s"
  define s1 where "s1 = add_missing_parents tx ?t att (map fst ins) s"
  have graph: "waits s1 c p \<longleftrightarrow> waits s c p \<or> c = ?t \<and> p \<in> N"
    "wakes s1 p c \<longleftrightarrow> wakes s p c \<or> c = ?t \<and> p \<in> N" for c p
    using add_missing_parents_graph [of tx ?t att "map fst ins" s] by (simp_all add: s1_def N_def)
  have frame: "stored_txs s1 = stored_txs s" "svc_storage s1 = svc_storage s"
    by (simp_all add: s1_def)
  have parents: "parents_of tx \<subseteq> D \<union> set att \<union> N"
    using attached_settled [OF inv] by (auto simp: parents_of_def Transfer N_def unattached_def)
  show ?thesis
  proof (cases "entry_or_default ?t (deps s1) = []")
    case True
    then have none: "\<not> waits s1 ?t p" for p by (simp add: waits_def)
    then have N: "N = {}" unfolding graph(1) by blast
    let ?s2 = "s1\<lparr>deps := AList.delete ?t (deps s1)\<rparr>"
    from run Transfer True have pop: "(case map_of (inverse_deps ?s2) ?t of
        None \<Rightarrow> (queued, att @ [?t], ?s2)
      | Some ids \<Rightarrow> (hs_extend queued ids, att @ [?t],
          ?s2\<lparr>inverse_deps := AList.delete ?t (inverse_deps ?s2)\<rparr>)) = (queued', att', s')"
      by (simp add: handle_transfer_def s1_def [symmetric] Let_def)
    have s2: "waits ?s2 c p \<longleftrightarrow> waits s c p" "wakes ?s2 p c \<longleftrightarrow> wakes s p c" for c p
      using none [of p] graph(1) [of c p] graph(2) [of p c]
      by (cases "c = ?t"; simp add: waits_def wakes_def N)+
    show ?thesis
      unfolding pop_inverse(1) [OF pop]
      by (rule attaching_attach [OF inv tx refl, where R = "{}"])
         (use parents N in \<open>auto simp: pop_inverse(2-6) [OF pop] s2 frame\<close>)
  next
    case False
    then obtain q where q: "waits s1 ?t q"
      by (cases "entry_or_default ?t (deps s1)") (auto simp: waits_def)
    let ?s2 = "s1\<lparr>stored_txs := AList.update ?t (tx, now) (stored_txs s1)\<rparr>"
    from run Transfer False have res: "queued' = queued" "att' = att" "s' = ?s2"
      by (simp_all add: handle_transfer_def s1_def [symmetric] Let_def)
    have s2: "waits (s1\<lparr>stored_txs := m\<rparr>) c p = waits s1 c p"
      "wakes (s1\<lparr>stored_txs := m\<rparr>) p c = wakes s1 p c" for m c p
      by (simp_all add: waits_def wakes_def)
    have disj: "N \<inter> set att = {}" by (auto simp: N_def unattached_def is_attached_def)
    show ?thesis
      unfolding res
    proof (rule attaching_store [OF inv tx refl parents disj])
      show "waits ?s2 c p \<longleftrightarrow> waits s c p \<or> c = ?t \<and> p \<in> N"
        and "wakes ?s2 p c \<longleftrightarrow> wakes s p c \<or> c = ?t \<and> p \<in> N" for c p
        by (simp_all only: s2 graph)
      show "waits ?s2 ?t q" by (simp only: s2 q)
    qed (simp_all add: frame hash_map.get_put)
  qed
qed

lemma attach_queued_attaching:
  assumes inv: "attaching X T D (insert t (R \<union> set lq)) att s"
    and run: "attach_queued X t (lq, att, s) = (lq', att', s')"
  shows "attaching X T D (R \<union> set lq') att' s'"
proof -
  let ?ids = "filter (\<lambda>p. \<not> is_attached s att p) (entry_or_default t (deps s))"
  define s1 where "s1 = snd (remove_attached_parents t att s)"
  have rm: "remove_attached_parents t att s = (?ids = [], s1)"
    by (cases "map_of (deps s) t") (simp_all add: remove_attached_parents_def Let_def s1_def)
  have frame1: "stored_txs s1 = stored_txs s" "svc_storage s1 = svc_storage s"
    and wakes1: "wakes s1 p c \<longleftrightarrow> wakes s p c" for p c
    by (auto simp: s1_def remove_attached_parents_def Let_def wakes_def split: option.splits)
  have waits1: "waits s1 c p \<longleftrightarrow> waits s c p \<and> \<not> (c = t \<and> is_attached s att p)" for c p
    by (cases "map_of (deps s) t"; cases "c = t")
       (simp_all add: s1_def remove_attached_parents_def Let_def waits_def)
  show ?thesis
  proof (cases "?ids = [] \<and> map_of (stored_txs s) t \<noteq> None")
    case False
    have "lq' = lq" "att' = att" "s' = s1"
      using run rm False by (auto simp: frame1 split: if_splits option.splits)
    moreover have "\<exists>p. waits s1 t p" if w: "waits s t q" for q
    proof -
      have "map_of (stored_txs s) t \<noteq> None" using attachingD(3) [OF inv] w by blast
      with False obtain p where "p \<in> set ?ids" by (cases ?ids) auto
      then show ?thesis unfolding waits1 by (auto simp: waits_def)
    qed
    ultimately show ?thesis
      using attaching_settle [OF inv waits1 wakes1 _ frame1, of "R \<union> set lq"] by auto
  next
    case True
    then obtain tx time where st: "map_of (stored_txs s) t = Some (tx, time)" by auto
    let ?s2 = "s1\<lparr>stored_txs := AList.delete t (stored_txs s1), deps := AList.delete t (deps s1)\<rparr>"
    have tx: "tx \<in> T" "yuv_txid X tx = t" using attachingD(4) [OF inv st] by simp_all
    from run rm True st have pop: "(case map_of (inverse_deps ?s2) t of None \<Rightarrow> (lq, att @ [t], ?s2)
      | Some ids \<Rightarrow> (hs_extend lq ids, att @ [t],
          ?s2\<lparr>inverse_deps := AList.delete t (inverse_deps ?s2)\<rparr>)) = (lq', att', s')"
      by (simp add: frame1 tx Let_def cong: option.case_cong)
    have s2: "waits (s1\<lparr>stored_txs := m, deps := AList.delete t (deps s1)\<rparr>) c p \<longleftrightarrow> waits s c p \<and> c \<noteq> t"
      "wakes (s1\<lparr>stored_txs := m, deps := AList.delete t (deps s1)\<rparr>) p c \<longleftrightarrow> wakes s p c" for m c p
      using waits1 [of c p] wakes1 [of p c] by (auto simp: waits_def wakes_def)
    have "is_attached s att p" if "waits s t p" for p
      using True that by (auto simp: waits_def filter_empty_conv)
    then have parents: "parents_of tx \<subseteq> D \<union> set att"
      using attachingD(5) [OF inv st] attached_settled [OF inv] by blast
    show ?thesis
      unfolding pop_inverse(1) [OF pop]
      by (rule attaching_attach [OF inv tx parents, where R = "{t}"])
         (auto simp: pop_inverse(2-6) [OF pop] s2 frame1 hash_map.get_del)
  qed
qed

lemma attach_queue_attaching:
  "attaching X T D (set ts \<union> set lq) att s \<Longrightarrow> attach_queue X ts (lq, att, s) = (lq', att', s') \<Longrightarrow>
   attaching X T D (set lq') att' s'"
proof (induction ts arbitrary: lq att s)
  case Nil
  then show ?case by (simp add: attach_queue_def)
next
  case (Cons t ts)
  obtain lq1 att1 s1 where one: "attach_queued X t (lq, att, s) = (lq1, att1, s1)"
    by (cases "attach_queued X t (lq, att, s)") auto
  then have "attaching X T D (set ts \<union> set lq1) att1 s1"
    using attach_queued_attaching [where R = "set ts"] Cons.prems(1) by simp
  moreover have "attach_queue X ts (lq1, att1, s1) = (lq', att', s')"
    using Cons.prems(2) one by (simp add: attach_queue_def)
  ultimately show ?case by (rule Cons.IH)
qed

text \<open>The iterator of a set goes through each of its elements once.\<close>

definition iterates_set :: "(txid list \<Rightarrow> txid list) \<Rightarrow> bool" where
  "iterates_set it \<longleftrightarrow> (\<forall>q. mset (it q) = mset q)"

lemma iterates_setD: "iterates_set it \<Longrightarrow> set (it q) = set q"
  unfolding iterates_set_def by (metis set_mset_mset)

lemma attach_rounds_attaching:
  assumes "iterates_set it"
  shows "attaching X T D (set q) att s \<Longrightarrow> attach_rounds X it q att s = (att', s') \<Longrightarrow>
    attaching X T D {} att' s'"
  using assms
proof (induction X it q att s rule: attach_rounds.induct)
  case (1 X it q att s)
  show ?case
  proof (cases "q = []")
    case True
    with 1 show ?thesis by (simp add: attach_rounds.simps [of X it "[]"])
  next
    case False
    obtain lq att1 s1 where pass: "attach_queue X (it q) ([], att, s) = (lq, att1, s1)"
      by (cases "attach_queue X (it q) ([], att, s)") auto
    have "attaching X T D (set lq) att1 s1"
      by (rule attach_queue_attaching [OF _ pass]) (use 1(2) iterates_setD [OF 1(4)] in simp)
    moreover have "attach_rounds X it lq att1 s1 = (att', s')"
      using 1(3) False pass by (simp add: attach_rounds.simps [of X it q])
    ultimately show ?thesis
      using 1(1) [OF False pass [symmetric] refl] 1(4) by blast
  qed
qed

lemma attach_batch_attaching:
  "attaching X T D (set q) att s \<Longrightarrow> set txs \<subseteq> T \<Longrightarrow>
   foldl (\<lambda>a tx. attach_checked X now tx a) (q, att, s) txs = (q', att', s') \<Longrightarrow>
   attaching X T D (set q') att' s'"
proof (induction txs arbitrary: q att s)
  case Nil
  then show ?case by simp
next
  case (Cons tx txs)
  obtain q1 att1 s1 where one: "attach_checked X now tx (q, att, s) = (q1, att1, s1)"
    by (cases "attach_checked X now tx (q, att, s)") auto
  then have "attaching X T D (set q1) att1 s1"
    using attach_checked_attaching Cons.prems(1,2) by (metis list.set_intros(1) subsetD)
  with Cons.IH Cons.prems(2,3) one show ?case by simp
qed

section \<open>Between events\<close>

text \<open>\<open>settled X D s\<close>: the builder is at rest and \<open>D\<close> holds every stored or announced id.\<close>

definition settled :: "bitcoin_ext \<Rightarrow> txid set \<Rightarrow> graph_builder \<Rightarrow> bool" where
  "settled X D s \<longleftrightarrow> attaching X UNIV D {} [] s"

lemma attaching_cong:
  assumes "attaching X T D Q att s" and "deps s' = deps s" and "inverse_deps s' = inverse_deps s"
    and "stored_txs s' = stored_txs s" and "D \<subseteq> D'"
    and "\<And>t. get_yuv_tx (svc_storage s') t \<noteq> None \<Longrightarrow> t \<in> D'"
    and "\<And>c tx time. map_of (stored_txs s) c = Some (tx, time) \<Longrightarrow> tx \<in> T'" and "justified X T' D' att"
  shows "attaching X T' D' Q att s'"
proof (rule attachingI)
  note D = attachingD [OF assms(1)]
  have g: "waits s' c p = waits s c p" "wakes s' p c = wakes s p c" for c p
    using assms(2,3) by (simp_all add: waits_def wakes_def)
  show "wakes s' p c \<or> p \<in> set att" if "waits s' c p" for c p using D(1) that by (simp add: g)
  show "c \<in> Q" if "waits s' c p" "p \<in> set att" for c p using D(2) that by (simp add: g)
  show "map_of (stored_txs s') c \<noteq> None \<longleftrightarrow> (\<exists>p. waits s' c p)" for c
    using D(3) by (simp add: g assms(4))
  show "tx \<in> T' \<and> yuv_txid X tx = c" if "map_of (stored_txs s') c = Some (tx, time)" for c tx time
    using D(4) assms(7) that by (simp add: assms(4))
  show "p \<in> D' \<union> set att \<or> waits s' c p"
    if "map_of (stored_txs s') c = Some (tx, time)" "p \<in> parents_of tx" for c tx time p
    using D(5) [of c tx time p] assms(5) that by (auto simp: g assms(4))
qed (fact assms)+

lemma settled_storage:
  assumes "settled X D s" and "\<And>t. get_yuv_tx st t \<noteq> None \<Longrightarrow> t \<in> D'" and "D \<subseteq> D'"
  shows "settled X D' (s\<lparr>svc_storage := st\<rparr>)"
  unfolding settled_def
  by (rule attaching_cong [OF assms(1) [unfolded settled_def]]) (use assms in simp_all)

lemma attaching_settled:
  assumes "attaching X T D {} att s"
  shows "settled X (D \<union> set att) s" and "waits s c p \<Longrightarrow> p \<notin> set att"
proof -
  note D = attachingD [OF assms]
  show no: "p \<notin> set att" if "waits s c p" for c p using D(2) that by blast
  show "settled X (D \<union> set att) s"
    unfolding settled_def
  proof (rule attachingI)
    show "wakes s p c \<or> p \<in> set []" if "waits s c p" for c p using D(1) no that by blast
    show "tx \<in> UNIV \<and> yuv_txid X tx = c" if "map_of (stored_txs s) c = Some (tx, time)" for c tx time
      using D(4) that by simp
    show "p \<in> D \<union> set att \<union> set [] \<or> waits s c p"
      if "map_of (stored_txs s) c = Some (tx, time)" "p \<in> parents_of tx" for c tx time p
      using D(5) that by simp
    show "t \<in> D \<union> set att" if "get_yuv_tx (svc_storage s) t \<noteq> None" for t using D(6) that by simp
  qed (simp_all add: D(3) [simplified])
qed

fun attached_in :: "bus_message \<Rightarrow> txid list" where
  "attached_in (ToController (AttachedTxs ts)) = ts"
| "attached_in _ = []"

definition newly_attached :: "graph_builder \<Rightarrow> graph_builder \<Rightarrow> txid list" where
  "newly_attached s s' = concat (map attached_in (drop (length (svc_sent s)) (svc_sent s')))"

lemma sent_frame_checked: "attach_checked X now tx (q, att, s) = (q', att', s') \<Longrightarrow> svc_sent s' = svc_sent s"
  by (auto simp: handle_transfer_def Let_def split: yuv_tx_type.splits option.splits if_splits)

lemma sent_frame_batch:
  "foldl (\<lambda>a tx. attach_checked X now tx a) (q, att, s) txs = (q', att', s') \<Longrightarrow> svc_sent s' = svc_sent s"
proof (induction txs arbitrary: q att s)
  case (Cons tx txs)
  obtain q1 att1 s1 where one: "attach_checked X now tx (q, att, s) = (q1, att1, s1)"
    by (cases "attach_checked X now tx (q, att, s)") auto
  with Cons.prems have "foldl (\<lambda>a tx. attach_checked X now tx a) (q1, att1, s1) txs = (q', att', s')" by simp
  from Cons.IH [OF this] sent_frame_checked [OF one] show ?case by simp
qed simp

lemma sent_frame_queue:
  "attach_queue X ts (q, att, s) = (q', att', s') \<Longrightarrow> svc_sent s' = svc_sent s"
proof (induction ts arbitrary: q att s)
  case Nil
  then show ?case by (simp add: attach_queue_def)
next
  case (Cons t ts)
  obtain q1 att1 s1 where one: "attach_queued X t (q, att, s) = (q1, att1, s1)"
    by (cases "attach_queued X t (q, att, s)") auto
  then have "svc_sent s1 = svc_sent s"
    by (auto simp: remove_attached_parents_def Let_def split: option.splits if_splits)
  moreover have "attach_queue X ts (q1, att1, s1) = (q', att', s')"
    using Cons.prems one by (simp add: attach_queue_def)
  ultimately show ?case using Cons.IH by simp
qed

lemma sent_frame_rounds: "attach_rounds X it q att s = (att', s') \<Longrightarrow> svc_sent s' = svc_sent s"
proof (induction X it q att s rule: attach_rounds.induct)
  case (1 X it q att s)
  show ?case
  proof (cases "q = []")
    case True
    with 1(2) show ?thesis by (simp add: attach_rounds.simps [of X it "[]"])
  next
    case False
    obtain lq att1 s1 where pass: "attach_queue X (it q) ([], att, s) = (lq, att1, s1)"
      by (cases "attach_queue X (it q) ([], att, s)") auto
    have "attach_rounds X it lq att1 s1 = (att', s')"
      using 1(2) False pass by (simp add: attach_rounds.simps [of X it q])
    with 1(1) [OF False pass [symmetric] refl] sent_frame_queue [OF pass] show ?thesis by simp
  qed
qed

lemma attach_txs_attaching:
  assumes "iterates_set it" and "settled X D s" and "T = set txs \<union> {tx. \<exists>c time. map_of (stored_txs s) c = Some (tx, time)}"
  shows "attaching X T D {} (newly_attached s (attach_txs X it now txs s)) (attach_txs X it now txs s)"
proof -
  obtain q att1 s1 where batch: "foldl (\<lambda>a tx. attach_checked X now tx a) ([], [], s) txs = (q, att1, s1)"
    by (cases "foldl (\<lambda>a tx. attach_checked X now tx a) ([], [], s) txs") auto
  obtain att s2 where rounds: "attach_rounds X it q att1 s1 = (att, s2)"
    by (cases "attach_rounds X it q att1 s1")
  let ?s' = "attach_txs X it now txs s"
  have s': "?s' = handle_fully_attached_txs att s2"
    using batch rounds by (simp add: attach_txs_def)
  have sent: "svc_sent s2 = svc_sent s"
    using sent_frame_batch [OF batch] sent_frame_rounds [OF rounds] by simp
  have new: "newly_attached s ?s' = att"
    by (simp add: s' newly_attached_def handle_fully_attached_txs_def sent)
  have start: "attaching X T D (set []) [] s"
    unfolding list.set
    by (rule attaching_cong [OF assms(2) [unfolded settled_def]])
       (use attachingD(6) [OF assms(2) [unfolded settled_def]] assms(3) in auto)
  have "attaching X T D (set q) att1 s1"
    by (rule attach_batch_attaching [OF start _ batch]) (simp add: assms(3))
  then have done_: "attaching X T D {} att s2"
    by (rule attach_rounds_attaching [OF assms(1) _ rounds])
  have "attaching X T D {} att (handle_fully_attached_txs att s2)"
    by (rule attaching_cong [OF done_])
       (use attachingD(4,6,7) [OF done_] in \<open>auto simp: handle_fully_attached_txs_def split: if_splits\<close>)
  then show ?thesis by (simp only: new s' [symmetric])
qed

section \<open>Cleaning up keeps the graph\<close>

lemma remove_from_inverse_graph:
  "set (entry_or_default p (remove_from_inverse t ds m)) =
     (if p \<in> set ds then set (entry_or_default p m) - {t} else set (entry_or_default p m))"
proof (induction t ds m rule: remove_from_inverse.induct)
  case (2 t d ds m)
  have "set (entry_or_default p (case map_of m d of None \<Rightarrow> m
        | Some ids \<Rightarrow> let ids = hs_remove t ids in if ids = [] then AList.delete d m else AList.update d ids m)) =
      (if p = d then set (entry_or_default p m) - {t} else set (entry_or_default p m))"
    by (cases "map_of m d") (auto simp: Let_def hs_remove_def filter_empty_conv)
  with 2 show ?case by auto
qed simp

text \<open>
  While outdated transactions are removed, \<open>ts\<close> are those still to be removed and \<open>removed\<close>
  the ones chosen so far; \<open>S\<close> are the ids kept when the cleaning began.
\<close>

definition stored_ids :: "graph_builder \<Rightarrow> txid set" where
  "stored_ids s = fst ` set (stored_txs s)"

lemma stored_ids_iff: "c \<in> stored_ids s \<longleftrightarrow> map_of (stored_txs s) c \<noteq> None"
  by (simp add: stored_ids_def map_of_eq_None_iff)

definition cleaning ::
  "bitcoin_ext \<Rightarrow> txid set \<Rightarrow> txid set \<Rightarrow> txid set \<Rightarrow> txid set \<Rightarrow> graph_builder \<Rightarrow> bool" where
  "cleaning X D S ts removed s \<longleftrightarrow>
     (\<forall>c p. waits s c p \<longrightarrow> p \<in> S \<longrightarrow> p \<in> stored_ids s \<or> c \<in> ts) \<and>
     (\<forall>c p. waits s c p \<longrightarrow> wakes s p c \<or> c \<in> ts) \<and>
     (\<forall>c. map_of (stored_txs s) c \<noteq> None \<longleftrightarrow> (\<exists>p. waits s c p)) \<and>
     (\<forall>c tx time. map_of (stored_txs s) c = Some (tx, time) \<longrightarrow>
        yuv_txid X tx = c \<and> (\<forall>p \<in> parents_of tx. p \<in> D \<or> waits s c p)) \<and>
     (\<forall>t. get_yuv_tx (svc_storage s) t \<noteq> None \<longrightarrow> t \<in> D) \<and>
     (\<forall>c \<in> removed. c \<in> ts \<or> (\<forall>p. \<not> waits s c p))"

lemma cleaningD:
  assumes "cleaning X D S ts removed s"
  shows "waits s c p \<Longrightarrow> wakes s p c \<or> c \<in> ts"
    and "c \<in> removed \<Longrightarrow> waits s c p \<Longrightarrow> c \<in> ts"
    and "waits s c p \<Longrightarrow> p \<in> S \<Longrightarrow> p \<in> stored_ids s \<or> c \<in> ts"
  using assms unfolding cleaning_def by blast+

definition cleaned :: "bitcoin_ext \<Rightarrow> txid set \<Rightarrow> txid set \<Rightarrow> graph_builder \<Rightarrow> bool" where
  "cleaned X D S s \<longleftrightarrow> settled X D s \<and> (\<forall>c p. waits s c p \<longrightarrow> p \<in> S \<longrightarrow> p \<in> stored_ids s)"

lemma cleaned_cleaning: "cleaned X D S s \<Longrightarrow> cleaning X D S {t} {t} s"
  unfolding cleaned_def settled_def attaching_def cleaning_def by auto

lemma cleaning_cleaned: "cleaning X D S {} removed s \<Longrightarrow> cleaned X D S s"
  unfolding cleaned_def settled_def attaching_def cleaning_def by simp

lemma cleaning_step:
  assumes clean: "cleaning X D S (insert t ts) removed s"
    and waits': "\<And>c p. waits s' c p \<longleftrightarrow> waits s c p \<and> c \<noteq> t"
    and wakes': "\<And>c p. wakes s' p c \<longleftrightarrow> wakes s p c \<and> \<not> (c = t \<and> waits s t p) \<and> p \<noteq> t"
    and stored': "\<And>c. map_of (stored_txs s') c = (if c = t then None else map_of (stored_txs s) c)"
    and storage: "svc_storage s' = svc_storage s"
    and new: "\<And>c. wakes s t c \<Longrightarrow> c \<noteq> t \<Longrightarrow> c \<in> removed \<or> c \<in> N"
  shows "cleaning X D S (ts \<union> N) (removed \<union> N) s'"
proof -
  have woken: "c \<in> ts \<union> N" if "waits s' c t" for c
  proof -
    have "waits s c t" and "c \<noteq> t" using that by (simp_all add: waits')
    with cleaningD(1,2) [OF clean] new [of c] show ?thesis by blast
  qed
  show ?thesis
    unfolding cleaning_def
  proof (intro conjI allI impI ballI)
    fix c p
    assume "waits s' c p" and "p \<in> S"
    then show "p \<in> stored_ids s' \<or> c \<in> ts \<union> N"
      using cleaningD(3) [OF clean, of c p] woken [of c]
      by (cases "p = t") (auto simp: waits' stored_ids_iff stored')
  next
    fix c p
    assume "waits s' c p"
    then show "wakes s' p c \<or> c \<in> ts \<union> N"
      using cleaningD(1) [OF clean, of c p] woken [of c]
      by (cases "p = t") (auto simp: waits' wakes')
  next
    fix c
    show "map_of (stored_txs s') c \<noteq> None \<longleftrightarrow> (\<exists>p. waits s' c p)"
      using clean by (simp add: cleaning_def stored' waits')
  next
    fix c tx time
    assume "map_of (stored_txs s') c = Some (tx, time)"
    then show "yuv_txid X tx = c"
      using clean by (auto simp: cleaning_def stored' split: if_splits)
  next
    fix c tx time p
    assume "map_of (stored_txs s') c = Some (tx, time)" and "p \<in> parents_of tx"
    then show "p \<in> D \<or> waits s' c p"
      using clean by (auto simp: cleaning_def stored' waits' split: if_splits)
  next
    fix u
    assume "get_yuv_tx (svc_storage s') u \<noteq> None"
    then show "u \<in> D" using clean by (simp add: cleaning_def storage)
  next
    fix c
    assume "c \<in> removed \<union> N"
    then show "c \<in> ts \<union> N \<or> (\<forall>p. \<not> waits s' c p)"
      using clean by (auto simp: cleaning_def waits')
  qed
qed

lemma remove_outdated_loop_cleaned:
  "iterates_set it \<Longrightarrow> cleaning X D S (set ts) (set removed) s \<Longrightarrow>
   cleaned X D S (remove_outdated_loop it ts removed s)"
proof (induction it ts removed s rule: remove_outdated_loop.induct)
  case (1 it removed s)
  then show ?case by (simp add: cleaning_cleaned)
next
  case (2 it t ts removed s)
  define s1 where "s1 = remove_tx_from_deps it t (s\<lparr>stored_txs := AList.delete t (stored_txs s)\<rparr>)"
  have w1: "waits s1 c p \<longleftrightarrow> waits s c p \<and> c \<noteq> t" for c p
    by (auto simp: s1_def remove_tx_from_deps_def waits_def split: option.splits)
  have k1: "wakes s1 p c \<longleftrightarrow> wakes s p c \<and> \<not> (c = t \<and> waits s t p)" for c p
    by (cases "map_of (deps s) t")
       (auto simp: s1_def remove_tx_from_deps_def waits_def wakes_def remove_from_inverse_graph
          iterates_setD [OF 2(3)])
  have f1: "stored_txs s1 = AList.delete t (stored_txs s)" "svc_storage s1 = svc_storage s"
    by (simp_all add: s1_def remove_tx_from_deps_def split: option.splits)
  have clean: "cleaning X D S (insert t (set ts)) (set removed) s" using 2(4) by simp
  show ?case
  proof (cases "map_of (inverse_deps s1) t")
    case None
    then have "\<not> wakes s1 t c" for c by (simp add: wakes_def)
    then have "cleaning X D S (set ts \<union> {}) (set removed \<union> {}) s1"
      by (intro cleaning_step [OF clean]) (auto simp: w1 k1 f1 hash_map.get_del)
    with 2(1) [OF s1_def None 2(3)] None show ?thesis
      by (simp add: Let_def s1_def [symmetric])
  next
    case (Some ids)
    define new where "new = filter (\<lambda>i. i \<notin> set removed) (it ids)"
    let ?s2 = "s1\<lparr>inverse_deps := AList.delete t (inverse_deps s1)\<rparr>"
    have ids: "wakes s1 t c \<longleftrightarrow> c \<in> set ids" for c using Some by (simp add: wakes_def)
    have g2: "waits ?s2 c p \<longleftrightarrow> waits s1 c p" "wakes ?s2 p c \<longleftrightarrow> wakes s1 p c \<and> p \<noteq> t" for c p
      by (auto simp: waits_def wakes_def split: if_splits)
    have "c \<in> set removed \<or> c \<in> set new" if "wakes s t c" "c \<noteq> t" for c
      using ids [of c] that by (auto simp: k1 new_def iterates_setD [OF 2(3)])
    then have "cleaning X D S (set ts \<union> set new) (set removed \<union> set new) ?s2"
      by (intro cleaning_step [OF clean]) (auto simp: g2 w1 k1 f1 hash_map.get_del)
    then have "cleaning X D S (set (ts @ new)) (set (hs_extend removed new)) ?s2" by simp
    with 2(2) [OF s1_def Some new_def 2(3)] Some show ?thesis
      by (simp add: Let_def s1_def [symmetric] new_def [symmetric])
  qed
qed

lemma remove_outdated_loop_stored:
  "map_of (stored_txs (remove_outdated_loop it ts removed s)) c = Some v \<Longrightarrow>
   map_of (stored_txs s) c = Some v \<and> c \<notin> set ts"
proof (induction it ts removed s rule: remove_outdated_loop.induct)
  case (1 it removed s)
  then show ?case by simp
next
  case (2 it t ts removed s)
  define s1 where "s1 = remove_tx_from_deps it t (s\<lparr>stored_txs := AList.delete t (stored_txs s)\<rparr>)"
  have f1: "stored_txs s1 = AList.delete t (stored_txs s)"
    by (simp add: s1_def remove_tx_from_deps_def split: option.splits)
  show ?case
  proof (cases "map_of (inverse_deps s1) t")
    case None
    with 2(1) [OF s1_def None] 2(3) show ?thesis
      by (simp add: Let_def s1_def [symmetric] f1 hash_map.get_del split: if_splits)
  next
    case (Some ids)
    with 2(2) [OF s1_def Some refl] 2(3) show ?thesis
      by (simp add: Let_def s1_def [symmetric] f1 hash_map.get_del split: if_splits)
  qed
qed

lemma remove_outdated_tx_cleaned:
  "iterates_set it \<Longrightarrow> cleaned X D S s \<Longrightarrow> cleaned X D S (remove_outdated_tx it t s)"
  unfolding remove_outdated_tx_def
  by (rule remove_outdated_loop_cleaned) (simp_all only: list.set cleaned_cleaning)

lemma remove_outdated_tx_stored:
  "map_of (stored_txs (remove_outdated_tx it t s)) c = Some v \<Longrightarrow>
   map_of (stored_txs s) c = Some v \<and> c \<noteq> t"
  unfolding remove_outdated_tx_def by (drule remove_outdated_loop_stored) simp

lemma handle_cleanup_cleaned:
  assumes "iterates_set it" and "settled X D s" and "handle_cleanup it now s = Inr s'"
  shows "cleaned X D (stored_ids s) s'"
proof -
  have step: "cleaned X D S s \<Longrightarrow> cleaned X D S (foldl (\<lambda>s t. remove_outdated_tx it t s) s ts)" for S s ts
    by (induction ts arbitrary: s) (simp_all add: remove_outdated_tx_cleaned [OF assms(1)])
  have "cleaned X D (stored_ids s) s"
    using assms(2) by (simp add: cleaned_def)
  from step [OF this] assms(3) show ?thesis
    by (simp only: handle_cleanup_def sum.inject sum.distinct split: if_splits) blast+
qed

lemma handle_cleanup_stored:
  assumes "handle_cleanup it now s = Inr s'" and "map_of (stored_txs s') c = Some (tx, created)"
  shows "map_of (stored_txs s) c = Some (tx, created) \<and> now - created \<le> tx_outdated_duration s"
proof -
  let ?old = "map fst (filter (\<lambda>(t, tx, created). tx_outdated_duration s < now - created) (stored_txs s))"
  have kept: "map_of (stored_txs (foldl (\<lambda>s t. remove_outdated_tx it t s) s ts)) c = Some v \<Longrightarrow>
      map_of (stored_txs s) c = Some v \<and> c \<notin> set ts" for ts v s
    by (induction ts arbitrary: s) (auto dest!: remove_outdated_tx_stored)
  have "s' = foldl (\<lambda>s t. remove_outdated_tx it t s) s ?old"
    using assms(1) by (simp add: handle_cleanup_def split: if_splits)
  with kept assms(2) have *: "map_of (stored_txs s) c = Some (tx, created)" "c \<notin> set ?old"
    by blast+
  from *(1) have "(c, tx, created) \<in> set (stored_txs s)" by (rule map_of_SomeD)
  with * show ?thesis by (force simp: not_less)
qed

section \<open>Runs of the graph builder\<close>

text \<open>
  The states the service goes through, while other services write the storage: \<open>D\<close> are the
  ids found in the storage or announced as attached so far.
\<close>

inductive gb_reach ::
  "bitcoin_ext \<Rightarrow> (txid list \<Rightarrow> txid list) \<Rightarrow> txid set \<Rightarrow> graph_builder \<Rightarrow> bool" for X it where
  gb_new: "gb_reach X it {t. get_yuv_tx st t \<noteq> None} (new_graph_builder st)"
| gb_storage: "gb_reach X it D s \<Longrightarrow>
    gb_reach X it (D \<union> {t. get_yuv_tx st t \<noteq> None}) (s\<lparr>svc_storage := st\<rparr>)"
| gb_event: "gb_reach X it D s \<Longrightarrow> s' = handle_graph_event X it now m s \<Longrightarrow>
    gb_reach X it (D \<union> set (newly_attached s s')) s'"
| gb_cleanup: "gb_reach X it D s \<Longrightarrow> handle_cleanup it now s = Inr s' \<Longrightarrow> gb_reach X it D s'"

lemma new_graph_builder_settled: "settled X {t. get_yuv_tx st t \<noteq> None} (new_graph_builder st)"
  unfolding settled_def
  by (rule attachingI) (simp_all add: new_graph_builder_def waits_def wakes_def)

lemma gb_reach_settled:
  assumes "iterates_set it" and "gb_reach X it D s"
  shows "settled X D s"
  using assms(2)
proof induction
  case (gb_new st)
  then show ?case by (rule new_graph_builder_settled)
next
  case (gb_storage D s st)
  then show ?case by (auto intro: settled_storage)
next
  case (gb_event D s s' now m)
  then show ?case
    by (cases m) (auto intro: attaching_settled(1) attach_txs_attaching [OF assms(1)])
next
  case (gb_cleanup D s now s')
  then show ?case using handle_cleanup_cleaned [OF assms(1)] by (auto simp: cleaned_def)
qed

lemma gb_event_attaching:
  assumes "iterates_set it" and "gb_reach X it D s"
  shows "attaching X (set txs \<union> {tx. \<exists>c time. map_of (stored_txs s) c = Some (tx, time)}) D {}
    (newly_attached s (handle_graph_event X it now (CheckedTxs txs) s))
    (handle_graph_event X it now (CheckedTxs txs) s)"
  using attach_txs_attaching [OF assms(1) gb_reach_settled [OF assms] refl] by simp

section \<open>Properties\<close>

lemmas attach_eqs =
  attach_txs_def attach_rounds.simps new_graph_builder_def handle_transfer_def is_attached_def
  entry_or_default_def entry_insert_def handle_fully_attached_txs_def newly_attached_def
  stored_ids_def waits_def hs_insert_def hs_extend_def attach_queue_def remove_attached_parents_def Let_def

text \<open>C4. In every run, an announced id belongs to a transaction of the batch or of the store,
  and each parent of it was announced or stored before, or stands earlier in the announced list.\<close>

theorem attached_after_parents:
  assumes "iterates_set it" and "gb_reach X it D s"
    and "newly_attached s (handle_graph_event X it now (CheckedTxs txs) s) = ys @ t # zs"
  shows "\<exists>tx. yuv_txid X tx = t \<and> parents_of tx \<subseteq> D \<union> set ys \<and>
    (tx \<in> set txs \<or> (\<exists>c time. map_of (stored_txs s) c = Some (tx, time)))"
  using attachingD(7) [OF gb_event_attaching [OF assms(1,2), of txs now]] assms(3)
  unfolding justified_def by blast

text \<open>C18. No wake-up is lost: after a batch, every kept transaction waits for an id that was
  not announced with the batch and whose announcement queues it, and it waits for each of its
  parents that was neither stored nor announced.\<close>

theorem no_lost_wakeup:
  assumes "iterates_set it" and "gb_reach X it D s"
    and "s' = handle_graph_event X it now (CheckedTxs txs) s"
    and "map_of (stored_txs s') c = Some (tx, time)"
  shows "(\<exists>p. waits s' c p \<and> wakes s' p c \<and> p \<notin> set (newly_attached s s')) \<and>
    yuv_txid X tx = c \<and> parents_of tx \<subseteq> D \<union> set (newly_attached s s') \<union> {p. waits s' c p}"
proof -
  note inv = gb_event_attaching [OF assms(1,2), of txs now, folded assms(3)]
  have "map_of (stored_txs s') c \<noteq> None" using assms(4) by simp
  then obtain p where p: "waits s' c p" using attachingD(3) [OF inv] by blast
  have "p \<notin> set (newly_attached s s')" using attaching_settled(2) [OF inv p] .
  moreover from this p have "wakes s' p c" using attachingD(1) [OF inv p] by blast
  moreover have "yuv_txid X tx = c" using attachingD(4) [OF inv assms(4)] by blast
  moreover have "parents_of tx \<subseteq> D \<union> set (newly_attached s s') \<union> {p. waits s' c p}"
    using attachingD(5) [OF inv assms(4)] by blast
  ultimately show ?thesis using p by blast
qed

text \<open>A cleanup drops every transaction that is kept for longer than the limit, and with it
  every transaction that waits for a dropped one; it changes no transaction that it keeps, and
  what is kept still waits for an id whose announcement queues it.\<close>

lemma cleanup_drops_outdated:
  assumes "iterates_set it" and "gb_reach X it D s" and "handle_cleanup it now s = Inr s'"
    and "map_of (stored_txs s') c = Some (tx, created)"
  shows "map_of (stored_txs s) c = Some (tx, created) \<and> now - created \<le> tx_outdated_duration s \<and>
    (\<exists>p. waits s' c p \<and> wakes s' p c) \<and>
    (\<forall>p. waits s' c p \<and> p \<in> stored_ids s \<longrightarrow> p \<in> stored_ids s')"
proof -
  from handle_cleanup_cleaned [OF assms(1) gb_reach_settled [OF assms(1,2)] assms(3)]
  have inv: "attaching X UNIV D {} [] s'"
    and kept: "\<And>c p. waits s' c p \<Longrightarrow> p \<in> stored_ids s \<Longrightarrow> p \<in> stored_ids s'"
    by (simp_all add: cleaned_def settled_def)
  have "map_of (stored_txs s') c \<noteq> None" using assms(4) by simp
  then obtain p where p: "waits s' c p" using attachingD(3) [OF inv] by blast
  have "wakes s' p c" using attachingD(1) [OF inv p] by simp
  with p kept handle_cleanup_stored [OF assms(3,4)] show ?thesis by blast
qed

text \<open>The builder does not store what it announces: a transfer that arrives after its parent
  was announced and before the parent is in the storage is kept waiting for that parent.\<close>

lemma attached_parent_forgotten:
  assumes "tx_type parent = Issue outs ann" and "tx_type child = Transfer [(0, pf)] outs'"
    and "tx_input (bitcoin_tx child) = [i]" and "op_txid (previous_output i) = yuv_txid X parent"
    and "get_yuv_tx st (yuv_txid X parent) = None" and "yuv_txid X child \<noteq> yuv_txid X parent"
  shows "let s1 = handle_graph_event X it now (CheckedTxs [parent]) (new_graph_builder st);
      s2 = handle_graph_event X it now (CheckedTxs [child]) s1
    in newly_attached (new_graph_builder st) s1 = [yuv_txid X parent] \<and> newly_attached s1 s2 = [] \<and>
      stored_ids s2 = {yuv_txid X child} \<and> waits s2 (yuv_txid X child) (yuv_txid X parent)"
  using assms
  by (simp add: attach_eqs)

section \<open>Witnesses\<close>

definition sample_id :: "u32 \<Rightarrow> txid" where
  "sample_id n = replicate 28 0 @ to_be_bytes 4 n"

definition sample_node :: "u32 \<Rightarrow> yuv_tx_type \<Rightarrow> u32 \<Rightarrow> yuv_transaction" where
  "sample_node n ty p = \<lparr>bitcoin_tx = \<lparr>tx_version = 2, tx_lock_time = n,
       tx_input = [sample_in\<lparr>previous_output := \<lparr>op_txid = sample_id p, op_vout = 0\<rparr>\<rparr>], tx_output = []\<rparr>,
     tx_type = ty\<rparr>"

definition sample_child :: "u32 \<Rightarrow> u32 \<Rightarrow> yuv_transaction" where
  "sample_child n p = sample_node n (Transfer [(0, sample_sig)] []) p"

definition sample_root :: yuv_transaction where
  "sample_root = sample_node 1 (Issue None \<lparr>ia_chroma = Chroma [], ia_amount = 5\<rparr>) 0"

lemma sample_node_simps [simp]:
  "yuv_txid sample_ext (sample_child n p) = sample_id n" "yuv_txid sample_ext sample_root = sample_id 1"
  "tx_type (sample_child n p) = Transfer [(0, sample_sig)] []"
  "tx_type sample_root = Issue None \<lparr>ia_chroma = Chroma [], ia_amount = 5\<rparr>"
  "length (tx_input (bitcoin_tx (sample_child n p))) = 1"
  "op_txid (previous_output (tx_input (bitcoin_tx (sample_child n p)) ! 0)) = sample_id p"
  by (simp_all add: sample_child_def sample_root_def sample_node_def yuv_txid_def sample_ext_def sample_id_def)

lemma sample_inputs:
  "tx_input (bitcoin_tx (sample_child n p)) =
     [sample_in\<lparr>previous_output := \<lparr>op_txid = sample_id p, op_vout = 0\<rparr>\<rparr>]"
  by (simp add: sample_child_def sample_node_def)

lemma sample_id_eq [simp]: "sample_id n = sample_id m \<longleftrightarrow> n = m"
  unfolding sample_id_def by (metis append_eq_append_conv from_to_be_u32)

lemma sample_iterates_set: "iterates_set id"
  by (simp add: iterates_set_def)

abbreviation sample_waiting :: graph_builder where
  "sample_waiting \<equiv> handle_graph_event sample_ext id 50 (CheckedTxs [sample_child 3 2, sample_child 2 1])
     (new_graph_builder empty_storage)"

lemma sample_waiting_reached:
  "gb_reach sample_ext id ({t. get_yuv_tx empty_storage t \<noteq> None} \<union>
     set (newly_attached (new_graph_builder empty_storage) sample_waiting)) sample_waiting"
  by (rule gb_event [OF gb_new refl])

theorem attached_after_parents_witness:
  "\<exists>tx. yuv_txid sample_ext tx = sample_id 3 \<and>
     parents_of tx \<subseteq> ({t. get_yuv_tx empty_storage t \<noteq> None} \<union>
       set (newly_attached (new_graph_builder empty_storage) sample_waiting)) \<union> set [sample_id 1, sample_id 2] \<and>
     (tx \<in> set [sample_root] \<or> (\<exists>c time. map_of (stored_txs sample_waiting) c = Some (tx, time)))"
proof (rule attached_after_parents [OF sample_iterates_set sample_waiting_reached, where zs = "[]"])
  show "newly_attached sample_waiting (handle_graph_event sample_ext id 60 (CheckedTxs [sample_root]) sample_waiting) =
      [sample_id 1, sample_id 2] @ [sample_id 3]"
    by (simp add: attach_eqs)
qed

abbreviation sample_settled :: "txid set" where
  "sample_settled \<equiv> {t. get_yuv_tx empty_storage t \<noteq> None} \<union>
     set (newly_attached (new_graph_builder empty_storage) sample_waiting)"

theorem no_lost_wakeup_witness:
  "let s' = handle_graph_event sample_ext id 60 (CheckedTxs []) sample_waiting
   in (\<exists>p. waits s' (sample_id 3) p \<and> wakes s' p (sample_id 3) \<and> p \<notin> set (newly_attached sample_waiting s')) \<and>
     yuv_txid sample_ext (sample_child 3 2) = sample_id 3 \<and>
     parents_of (sample_child 3 2) \<subseteq>
       sample_settled \<union> set (newly_attached sample_waiting s') \<union> {p. waits s' (sample_id 3) p}"
  unfolding Let_def
  by (rule no_lost_wakeup [OF sample_iterates_set sample_waiting_reached refl, where time = 50])
     (simp add: attach_eqs)

definition sample_late :: graph_builder where
  "sample_late = handle_graph_event sample_ext id 40000 (CheckedTxs [sample_child 5 4]) sample_waiting"

lemma sample_late_reached:
  "gb_reach sample_ext id (sample_settled \<union> set (newly_attached sample_waiting sample_late)) sample_late"
  unfolding sample_late_def by (rule gb_event [OF sample_waiting_reached refl])

lemma cleanup_drops_outdated_witness:
  "\<exists>s'. handle_cleanup id 100000 sample_late = Inr s' \<and> stored_ids s' = {sample_id 5} \<and>
     map_of (stored_txs sample_late) (sample_id 5) = Some (sample_child 5 4, 40000) \<and>
     100000 - 40000 \<le> tx_outdated_duration sample_late \<and>
     (\<exists>p. waits s' (sample_id 5) p \<and> wakes s' p (sample_id 5)) \<and>
     (\<forall>p. waits s' (sample_id 5) p \<and> p \<in> stored_ids sample_late \<longrightarrow> p \<in> stored_ids s')"
proof -
  obtain s' where s': "handle_cleanup id 100000 sample_late = Inr s'"
    "stored_txs s' = [(sample_id 5, sample_child 5 4, 40000)]"
    by (simp add: sample_late_def attach_eqs handle_cleanup_def remove_outdated_tx_def
        remove_tx_from_deps_def hs_remove_def)
  from cleanup_drops_outdated [OF sample_iterates_set sample_late_reached s'(1), of "sample_id 5"] s'
  show ?thesis by (auto simp: stored_ids_def)
qed

lemma attached_parent_forgotten_witness:
  "let s1 = handle_graph_event sample_ext id 50 (CheckedTxs [sample_root]) (new_graph_builder empty_storage);
     s2 = handle_graph_event sample_ext id 50 (CheckedTxs [sample_child 2 1]) s1
   in newly_attached (new_graph_builder empty_storage) s1 = [sample_id 1] \<and> newly_attached s1 s2 = [] \<and>
     stored_ids s2 = {sample_id 2} \<and> waits s2 (sample_id 2) (sample_id 1)"
  using attached_parent_forgotten [of sample_root None "\<lparr>ia_chroma = Chroma [], ia_amount = 5\<rparr>"
      "sample_child 2 1" sample_sig "[]" _ sample_ext empty_storage id 50, OF _ _ sample_inputs]
  by simp

end
