(* ===== verification/Controller.thy ===== *)
theory Controller
  imports Services
begin

text \<open>
  The controller (\<open>controller/src/handler.rs\<close>): it moves transactions through the mempool and
  the other services, keeps the inventory and the pages of handled transactions, and answers
  peers. \<open>net c\<close> tells whether the handle of the P2P client accepts the command \<open>c\<close>.
\<close>

section \<open>State\<close>

datatype p2p_command =
    SendInv "inventory list"
  | SendGetData "inventory list" socket_addr
  | SendYuvTxs "yuv_transaction list" socket_addr
  | BanPeer socket_addr

record controller = service +
  p2p_sent :: "p2p_command list"
  max_inv_size :: nat
  inv_sharing_interval :: nat
  tx_per_page :: u64

datatype controller_error =
    TxNotInMempool
  | P2pHandleError
  | ChunkSizeIsZero

type_synonym 'a control = "(controller, controller_error, 'a) run"

definition DEFAULT_INV_SIZE :: nat where
  "DEFAULT_INV_SIZE = 100"

definition DEFAULT_INV_SHARE_INTERVAL :: nat where
  "DEFAULT_INV_SHARE_INTERVAL = 5"

definition new_controller :: "storage \<Rightarrow> u64 \<Rightarrow> controller" where
  "new_controller st n =
     \<lparr>svc_storage = st, svc_sent = [], p2p_sent = [], max_inv_size = DEFAULT_INV_SIZE,
      inv_sharing_interval = DEFAULT_INV_SHARE_INTERVAL, tx_per_page = n\<rparr>"

definition set_max_inv_size :: "nat \<Rightarrow> controller \<Rightarrow> controller" where
  "set_max_inv_size n s = s\<lparr>max_inv_size := n\<rparr>"

definition set_inv_sharing_interval :: "nat \<Rightarrow> controller \<Rightarrow> controller" where
  "set_inv_sharing_interval n s = s\<lparr>inv_sharing_interval := n\<rparr>"

definition p2p :: "(p2p_command \<Rightarrow> bool) \<Rightarrow> p2p_command \<Rightarrow> unit control" where
  "p2p net c = (if net c then modR (\<lambda>s. s\<lparr>p2p_sent := p2p_sent s @ [c]\<rparr>) else failR P2pHandleError)"

section \<open>Helpers\<close>

text \<open>A slice \<open>txs[n..]\<close> is \<open>drop\<close>; \<open>drain(..excess)\<close> removes a prefix.\<close>

definition update_inv :: "'a list \<Rightarrow> 'a list \<Rightarrow> nat \<Rightarrow> 'a list" where
  "update_inv inven txs max_size =
     (if length inven + length txs < max_size then inven @ txs
      else let txs = (if max_size \<le> length txs then drop (length txs - max_size) txs else txs);
               excess = length inven + length txs - max_size
           in drop excess inven @ txs)"

definition clear_mempool :: "txid list \<Rightarrow> txid list \<Rightarrow> txid list" where
  "clear_mempool raw_mempool txs = filter (\<lambda>t. t \<notin> set txs) raw_mempool"

definition split_at :: "'a list \<Rightarrow> nat \<Rightarrow> 'a list \<times> 'a list" where
  "split_at txids left_space =
     (let n = min left_space (length txids) in (take n txids, drop n txids))"

definition raw_mempool_of :: "storage \<Rightarrow> txid list" where
  "raw_mempool_of st = (case get_mempool st of None \<Rightarrow> [] | Some ids \<Rightarrow> ids)"

definition require_entry :: "txid \<Rightarrow> mempool_entry control" where
  "require_entry t =
     bindR (getS (\<lambda>st. get_mempool_entry st t)) (\<lambda>e.
       case e of None \<Rightarrow> failR TxNotInMempool | Some e \<Rightarrow> retR e)"

definition has_announcement :: "yuv_transaction \<Rightarrow> bool" where
  "has_announcement tx = (case tx_type tx of Announcement _ \<Rightarrow> True | _ \<Rightarrow> False)"

definition is_issue_announcement :: "yuv_transaction \<Rightarrow> bool" where
  "is_issue_announcement tx = (case tx_type tx of Announcement (IssueAnn _) \<Rightarrow> True | _ \<Rightarrow> False)"

definition is_tx_exist :: "txid \<Rightarrow> storage \<Rightarrow> yuv_transaction option" where
  "is_tx_exist t st =
     (case get_mempool_entry st t of
        Some e \<Rightarrow> Some (yuv_tx e)
      | None \<Rightarrow> get_yuv_tx st t)"

section \<open>Handlers\<close>

definition handle_invalid_tx :: "(p2p_command \<Rightarrow> bool) \<Rightarrow> txid \<Rightarrow> unit control" where
  "handle_invalid_tx net t =
     thenR (modS (delete_mempool_entry t))
       (bindR (getS (\<lambda>st. get_mempool_entry st t)) (\<lambda>e.
          case Option.bind e sender of
            None \<Rightarrow> retR ()
          | Some peer \<Rightarrow> p2p net (BanPeer peer)))"

definition handle_invalid_txs :: "(p2p_command \<Rightarrow> bool) \<Rightarrow> txid list \<Rightarrow> unit control" where
  "handle_invalid_txs net ts =
     thenR (modS (\<lambda>st. put_mempool (clear_mempool (raw_mempool_of st) ts) st))
       (forR (handle_invalid_tx net) ts)"

definition share_inv :: "(p2p_command \<Rightarrow> bool) \<Rightarrow> unit control" where
  "share_inv net = bindR (getS get_inventory) (\<lambda>ids. p2p net (SendInv (map Ytx ids)))"

fun missing_payload :: "inventory list \<Rightarrow> storage \<Rightarrow> inventory list" where
  "missing_payload [] st = []"
| "missing_payload (Ytx t # is) st =
     (case is_tx_exist t st of
        None \<Rightarrow> Ytx t # missing_payload is st
      | Some tx \<Rightarrow> (if is_issue_announcement tx then [Ytx t] else []) @ missing_payload is st)"

definition handle_inv :: "(p2p_command \<Rightarrow> bool) \<Rightarrow> inventory list \<Rightarrow> socket_addr \<Rightarrow> unit control" where
  "handle_inv net is peer =
     bindR (getS (missing_payload is)) (\<lambda>missing.
       whenR (missing \<noteq> []) (p2p net (SendGetData missing peer)))"

fun response_txs :: "inventory list \<Rightarrow> storage \<Rightarrow> yuv_transaction list" where
  "response_txs [] st = []"
| "response_txs (Ytx t # is) st =
     (case get_yuv_tx st t of
        Some tx \<Rightarrow> tx # response_txs is st
      | None \<Rightarrow> (case get_mempool_entry st t of
                   Some e \<Rightarrow> yuv_tx e # response_txs is st
                 | None \<Rightarrow> response_txs is st))"

definition handle_get_data :: "(p2p_command \<Rightarrow> bool) \<Rightarrow> inventory list \<Rightarrow> socket_addr \<Rightarrow> unit control" where
  "handle_get_data net is peer =
     bindR (getS (response_txs is)) (\<lambda>txs.
       whenR (txs \<noteq> []) (p2p net (SendYuvTxs txs peer)))"

text \<open>The loop of \<open>handle_new_yuv_txs\<close> returns the transactions to check.\<close>

fun accept_new_txs ::
  "bitcoin_ext \<Rightarrow> socket_addr option \<Rightarrow> yuv_transaction list \<Rightarrow> yuv_transaction list control" where
  "accept_new_txs X peer [] = retR []"
| "accept_new_txs X peer (tx # txs) =
     bindR (getS (is_tx_exist (yuv_txid X tx))) (\<lambda>existing.
       case existing of
         None \<Rightarrow>
           thenR (modS (put_mempool_entry X \<lparr>yuv_tx = tx, status = Initialized, sender = peer\<rparr>))
           (thenR (modS (\<lambda>st. put_mempool (raw_mempool_of st @ [yuv_txid X tx]) st))
           (bindR (accept_new_txs X peer txs) (\<lambda>new. retR (tx # new))))
       | Some old \<Rightarrow>
           if \<not> has_announcement old then accept_new_txs X peer txs
           else
             thenR (modS (put_mempool_entry X \<lparr>yuv_tx = tx, status = Initialized, sender = peer\<rparr>))
             (bindR (accept_new_txs X peer txs) (\<lambda>new. retR (tx # new))))"

definition handle_new_yuv_txs ::
  "bitcoin_ext \<Rightarrow> yuv_transaction list \<Rightarrow> socket_addr option \<Rightarrow> unit control" where
  "handle_new_yuv_txs X txs peer =
     bindR (accept_new_txs X peer txs) (\<lambda>new.
       whenR (new \<noteq> []) (sendR (ToTxChecker (IsolatedCheck new))))"

definition set_status :: "bitcoin_ext \<Rightarrow> mempool_status \<Rightarrow> txid \<Rightarrow> mempool_entry control" where
  "set_status X st t =
     bindR (require_entry t) (\<lambda>e.
       thenR (modS (put_mempool_entry X (e\<lparr>status := st\<rparr>))) (retR e))"

definition handle_partially_checked_txs :: "bitcoin_ext \<Rightarrow> txid list \<Rightarrow> unit control" where
  "handle_partially_checked_txs X ts =
     thenR (forR (\<lambda>t. bindR (set_status X WaitingMined t) (\<lambda>_. retR ())) ts)
       (sendR (ToTxConfirm (ConfirmTxs ts)))"

definition handle_reorganization :: "bitcoin_ext \<Rightarrow> txid list \<Rightarrow> nat \<Rightarrow> unit control" where
  "handle_reorganization X ts height =
     thenR (sendR (ToIndexer (IndexerReorganization height)))
       (whenR (ts \<noteq> [])
          (thenR (forR (\<lambda>t. bindR (set_status X WaitingMined t) (\<lambda>_. retR ())) ts)
             (sendR (ToTxConfirm (ConfirmTxs ts)))))"

fun confirmed_entries :: "txid list \<Rightarrow> mempool_entry list control" where
  "confirmed_entries [] = retR []"
| "confirmed_entries (t # ts) =
     bindR (require_entry t) (\<lambda>e. bindR (confirmed_entries ts) (\<lambda>es. retR (e # es)))"

definition handle_confirmed_txs :: "txid list \<Rightarrow> unit control" where
  "handle_confirmed_txs ts =
     bindR (confirmed_entries ts) (\<lambda>es.
       let checked = map (\<lambda>e. (yuv_tx e, sender e)) es
       in sendR (ToTxChecker (FullCheck
            (filter (\<lambda>(tx, _). has_announcement tx) checked @
             filter (\<lambda>(tx, _). \<not> has_announcement tx) checked))))"

fun mine_entries :: "bitcoin_ext \<Rightarrow> txid list \<Rightarrow> txid list control" where
  "mine_entries X [] = retR []"
| "mine_entries X (t # ts) =
     bindR (set_status X Mined t) (\<lambda>e.
     bindR (mine_entries X ts) (\<lambda>shared.
       retR (if has_announcement (yuv_tx e) then shared else t # shared)))"

definition handle_mined_txs :: "bitcoin_ext \<Rightarrow> txid list \<Rightarrow> unit control" where
  "handle_mined_txs X ts =
     bindR (mine_entries X ts) (\<lambda>shared.
     bindR (getS get_inventory) (\<lambda>inven.
     bindR (getR max_inv_size) (\<lambda>n.
       modS (put_inventory (update_inv inven shared n)))))"

text \<open>Page numbers and lengths are \<open>u64\<close>.\<close>

definition put_txs_ids_to_page :: "u64 \<Rightarrow> txid list \<Rightarrow> storage \<Rightarrow> storage" where
  "put_txs_ids_to_page per_page ts st =
     (let last_page_num = (case get_pages_number st of None \<Rightarrow> 0 | Some n \<Rightarrow> n);
          last_page = (case get_page_by_num st last_page_num of None \<Rightarrow> [] | Some p \<Rightarrow> p);
          left_space = unat per_page - length last_page;
          (in_current_page, in_next_page) = split_at ts left_space;
          st = (if in_current_page \<noteq> [] then put_page last_page_num (last_page @ in_current_page) st else st)
      in if in_next_page \<noteq> []
         then put_pages_number (last_page_num + 1) (put_page (last_page_num + 1) in_next_page st)
         else st)"

definition put_in_pages :: "txid list \<Rightarrow> unit control" where
  "put_in_pages ts =
     bindR (getR tx_per_page) (\<lambda>n.
       if n = 0 then failR ChunkSizeIsZero
       else forR (\<lambda>chunk. modS (put_txs_ids_to_page n chunk)) (chunks (unat n) ts))"

definition store_attached :: "bitcoin_ext \<Rightarrow> txid \<Rightarrow> unit control" where
  "store_attached X t =
     bindR (require_entry t) (\<lambda>e.
       thenR (modS (put_yuv_tx X (yuv_tx e))) (modS (delete_mempool_entry t)))"

definition handle_attached_txs :: "bitcoin_ext \<Rightarrow> txid list \<Rightarrow> unit control" where
  "handle_attached_txs X ts =
     thenR (forR (store_attached X) ts)
       (thenR (put_in_pages ts)
          (modS (\<lambda>st. put_mempool (clear_mempool (raw_mempool_of st) ts) st)))"

definition store_announcement :: "bitcoin_ext \<Rightarrow> yuv_transaction \<Rightarrow> unit control" where
  "store_announcement X tx =
     thenR (modS (delete_mempool_entry (yuv_txid X tx)))
       (thenR (modS (\<lambda>st. put_mempool (filter (\<lambda>t. t \<noteq> yuv_txid X tx) (raw_mempool_of st)) st))
          (modS (put_yuv_tx X tx)))"

definition handle_checked_announcements :: "bitcoin_ext \<Rightarrow> yuv_transaction list \<Rightarrow> unit control" where
  "handle_checked_announcements X txs =
     thenR (put_in_pages (map (yuv_txid X) txs)) (forR (store_announcement X) txs)"

definition handle_fully_checked_txs :: "bitcoin_ext \<Rightarrow> yuv_transaction list \<Rightarrow> unit control" where
  "handle_fully_checked_txs X txs =
     (let announcement_txs = filter has_announcement txs;
          other_txs = filter (\<lambda>tx. \<not> has_announcement tx) txs
      in thenR (forR (\<lambda>tx. bindR (set_status X Attaching (yuv_txid X tx)) (\<lambda>_. retR ())) other_txs)
           (thenR (whenR (announcement_txs \<noteq> []) (handle_checked_announcements X announcement_txs))
              (whenR (other_txs \<noteq> []) (sendR (ToGraphBuilder (CheckedTxs other_txs))))))"

definition send_get_data :: "(p2p_command \<Rightarrow> bool) \<Rightarrow> socket_addr \<Rightarrow> inventory list \<Rightarrow> unit control" where
  "send_get_data net peer is = p2p net (SendGetData is peer)"

text \<open>After a restart, every transaction of the mempool goes to the service its status names.\<close>

definition resend_entry :: "txid \<Rightarrow> mempool_entry \<Rightarrow> bus_message" where
  "resend_entry t e =
     (case status e of
        Initialized \<Rightarrow> ToTxChecker (IsolatedCheck [yuv_tx e])
      | Pending \<Rightarrow> ToTxChecker (IsolatedCheck [yuv_tx e])
      | Attaching \<Rightarrow> ToGraphBuilder (CheckedTxs [yuv_tx e])
      | _ \<Rightarrow> ToTxConfirm (ConfirmTxs [t]))"

fun resend_mempool :: "txid list \<Rightarrow> txid list control" where
  "resend_mempool [] = retR []"
| "resend_mempool (t # ts) =
     bindR (getS (\<lambda>st. get_mempool_entry st t)) (\<lambda>e.
       case e of
         None \<Rightarrow> resend_mempool ts
       | Some e \<Rightarrow> thenR (sendR (resend_entry t e))
                    (bindR (resend_mempool ts) (\<lambda>handled. retR (t # handled))))"

definition handle_mempool_txs :: "unit control" where
  "handle_mempool_txs =
     bindR (getS raw_mempool_of) (\<lambda>raw.
       whenR (raw \<noteq> [])
         (bindR (resend_mempool raw) (\<lambda>handled. modS (put_mempool handled))))"

fun handle_p2p_msg :: "bitcoin_ext \<Rightarrow> (p2p_command \<Rightarrow> bool) \<Rightarrow> controller_p2p_message \<Rightarrow> unit control" where
  "handle_p2p_msg X net (P2pInv is peer) = handle_inv net is peer"
| "handle_p2p_msg X net (P2pGetData is peer) = handle_get_data net is peer"
| "handle_p2p_msg X net (P2pYuvTx txs peer) = handle_new_yuv_txs X txs (Some peer)"

fun handle_controller_event ::
  "bitcoin_ext \<Rightarrow> (p2p_command \<Rightarrow> bool) \<Rightarrow> controller_message \<Rightarrow> unit control" where
  "handle_controller_event X net (InvalidTxs ts) = handle_invalid_txs net ts"
| "handle_controller_event X net (GetData is receiver) = send_get_data net receiver is"
| "handle_controller_event X net (AttachedTxs ts) = handle_attached_txs X ts"
| "handle_controller_event X net (P2P m) = handle_p2p_msg X net m"
| "handle_controller_event X net (InitializeTxs txs) = handle_new_yuv_txs X txs None"
| "handle_controller_event X net (PartiallyCheckedTxs ts) = handle_partially_checked_txs X ts"
| "handle_controller_event X net (MinedTxs ts) = handle_mined_txs X ts"
| "handle_controller_event X net (FullyCheckedTxs txs) = handle_fully_checked_txs X txs"
| "handle_controller_event X net (ConfirmedTxs ts) = handle_confirmed_txs ts"
| "handle_controller_event X net (Reorganization ts height) = handle_reorganization X ts height"

section \<open>Inventory and pages\<close>

text \<open>The inventory keeps the newest ids.\<close>

lemma update_inv_last:
  "update_inv inven txs n = drop (length inven + length txs - n) (inven @ txs)"
  by (auto simp: update_inv_def Let_def)

definition last_page :: "storage \<Rightarrow> u64" where
  "last_page st = (case get_pages_number st of None \<Rightarrow> 0 | Some n \<Rightarrow> n)"

definition page_of :: "storage \<Rightarrow> nat \<Rightarrow> txid list" where
  "page_of st k = (case get_page_by_num st (word_of_nat k) of None \<Rightarrow> [] | Some p \<Rightarrow> p)"

definition paged :: "storage \<Rightarrow> txid list" where
  "paged st = concat (map (page_of st) [0..<Suc (unat (last_page st))])"

definition pages_wf :: "u64 \<Rightarrow> storage \<Rightarrow> bool" where
  "pages_wf n st \<longleftrightarrow>
     (\<forall>k < unat (last_page st). length (page_of st k) = unat n) \<and>
     length (page_of st (unat (last_page st))) \<le> unat n \<and>
     (\<forall>k. unat (last_page st) < k \<longrightarrow> k < 2 ^ 64 \<longrightarrow> page_of st k = [])"

lemma word_of_nat_eq_last: "k < 2 ^ 64 \<Longrightarrow> (word_of_nat k = (w :: u64)) = (k = unat w)"
  by (auto simp: unsigned_of_nat take_bit_nat_eq_self)

lemma page_of_put:
  "k < 2 ^ 64 \<Longrightarrow> page_of (put_page w p st) k = (if k = unat w then p else page_of st k)"
  by (simp add: page_of_def get_page_by_num_put word_of_nat_eq_last)

lemma page_frame [simp]:
  "last_page (put_page w p st) = last_page st" "last_page (put_pages_number w st) = w"
  "page_of (put_pages_number w st) k = page_of st k"
  by (simp_all add: last_page_def page_of_def store_defs)

lemma put_txs_ids_eq:
  "put_txs_ids_to_page n ts st =
     (let L = last_page st; p = page_of st (unat L); left = unat n - length p;
          st1 = (if take left ts \<noteq> [] then put_page L (p @ take left ts) st else st)
      in if drop left ts \<noteq> [] then put_pages_number (L + 1) (put_page (L + 1) (drop left ts) st1) else st1)"
proof -
  have "split_at ts k = (take k ts, drop k ts)" for k
    by (cases "k \<le> length ts") (simp_all add: split_at_def Let_def min_def)
  then show ?thesis
    by (simp add: put_txs_ids_to_page_def last_page_def page_of_def Let_def)
qed

lemma put_txs_ids_pages:
  assumes wf: "pages_wf n st" and room: "unat (last_page st) + 1 < 2 ^ 64" and fits: "length ts \<le> unat n"
  defines "st' \<equiv> put_txs_ids_to_page n ts st"
  shows "pages_wf n st'" and "paged st' = paged st @ ts"
    and "unat (last_page st') \<le> unat (last_page st) + 1"
proof -
  define L where "L = unat (last_page st)"
  define p where "p = page_of st L"
  define left where "left = unat n - length p"
  have full: "length (page_of st k) = unat n" if "k < L" for k using wf that by (simp add: pages_wf_def L_def)
  have p: "length p \<le> unat n" using wf by (simp add: pages_wf_def L_def p_def)
  have above: "page_of st k = []" if "L < k" "k < 2 ^ 64" for k using wf that by (simp add: pages_wf_def L_def)
  have next_page: "unat (last_page st + 1) = L + 1"
    using room by (simp add: L_def unat_word_ariths)
  have same: "concat (map (page_of st'') [0..<L]) = concat (map (page_of st) [0..<L])"
    if "\<And>k. k < L \<Longrightarrow> page_of st'' k = page_of st k" for st''
    using that by (intro arg_cong [where f = concat] map_cong) auto
  define st1 where "st1 = (if take left ts \<noteq> [] then put_page (last_page st) (p @ take left ts) st else st)"
  have pages1: "page_of st1 k = (if k = L then p @ take left ts else page_of st k)" if "k < 2 ^ 64" for k
    using that by (auto simp: st1_def page_of_put L_def p_def)
  have last1: "last_page st1 = last_page st" by (simp add: st1_def)
  have st': "st' = (if drop left ts \<noteq> []
      then put_pages_number (last_page st + 1) (put_page (last_page st + 1) (drop left ts) st1) else st1)"
    by (simp add: st'_def put_txs_ids_eq Let_def st1_def left_def p_def L_def)
  have L: "L + 1 < 2 ^ 64" using room by (simp add: L_def)
  have "pages_wf n st' \<and> paged st' = paged st @ ts \<and> unat (last_page st') \<le> L + 1"
  proof (cases "drop left ts = []")
    case True
    then have "st' = st1" by (simp add: st')
    moreover have "pages_wf n st1"
      using L full p above True pages1 fits
      by (auto simp: pages_wf_def last1 L_def [symmetric] left_def min_def)
    moreover have "paged st1 = paged st @ ts"
      using L True pages1 same [of st1]
      by (simp add: paged_def last1 L_def [symmetric] p_def)
    ultimately show ?thesis by (simp add: last1 L_def)
  next
    case False
    then have len: "length p + left = unat n" "length (take left ts) = left" using p by (simp_all add: left_def)
    have pages': "page_of st' k = (if k = L + 1 then drop left ts else if k = L then p @ take left ts else page_of st k)"
      if "k < 2 ^ 64" for k
      using that False pages1 [OF that] by (simp add: st' page_of_put next_page)
    have last': "unat (last_page st') = L + 1" using False by (simp add: st' next_page)
    have "pages_wf n st'"
      using L full above pages' len fits by (auto simp: pages_wf_def last' less_Suc_eq)
    moreover have "paged st' = paged st @ ts"
      using L pages' same [of st'] by (simp add: paged_def last' L_def [symmetric] p_def)
    ultimately show ?thesis by (simp add: last')
  qed
  then show "pages_wf n st'" and "paged st' = paged st @ ts" and "unat (last_page st') \<le> unat (last_page st) + 1"
    by (simp_all add: L_def)
qed

text \<open>The other stores do not notice the pages.\<close>

lemma put_txs_ids_frame [simp]:
  "get_mempool_entry (put_txs_ids_to_page n ts st) t = get_mempool_entry st t"
  "get_yuv_tx (put_txs_ids_to_page n ts st) t = get_yuv_tx st t"
  "get_mempool (put_txs_ids_to_page n ts st) = get_mempool st"
  "get_inventory (put_txs_ids_to_page n ts st) = get_inventory st"
  by (simp_all add: put_txs_ids_eq Let_def store_defs)

lemma for_modS:
  "forR (\<lambda>x. modS (f x)) xs s = (Inr (), s\<lparr>svc_storage := foldl (\<lambda>st x. f x st) (svc_storage s) xs\<rparr>)"
  by (induction xs arbitrary: s) (simp_all add: retR_def bindR_def service_eqs)

lemma fold_pages:
  assumes "pages_wf n st" and "unat (last_page st) + length cs < 2 ^ 64" and "\<And>c. c \<in> set cs \<Longrightarrow> length c \<le> unat n"
  defines "st' \<equiv> foldl (\<lambda>st c. put_txs_ids_to_page n c st) st cs"
  shows "pages_wf n st' \<and> paged st' = paged st @ concat cs \<and>
    get_mempool_entry st' = get_mempool_entry st \<and> get_yuv_tx st' = get_yuv_tx st \<and>
    get_mempool st' = get_mempool st \<and> get_inventory st' = get_inventory st"
  using assms(1-3) unfolding st'_def
proof (induction cs arbitrary: st)
  case (Cons c cs)
  let ?st = "put_txs_ids_to_page n c st"
  have room: "unat (last_page st) + 1 < 2 ^ 64" and c: "length c \<le> unat n" using Cons.prems by auto
  note one = put_txs_ids_pages [OF Cons.prems(1) room c]
  have "unat (last_page ?st) + length cs < 2 ^ 64" using one(3) Cons.prems(2) by simp
  from Cons.IH [OF one(1) this] Cons.prems(3) one(2) show ?case
    by (simp add: fun_eq_iff)
qed simp

lemma put_in_pages_ok:
  assumes "tx_per_page s \<noteq> 0" and "pages_wf (tx_per_page s) (svc_storage s)"
    and "unat (last_page (svc_storage s)) + length ts < 2 ^ 64"
  shows "\<exists>st'. put_in_pages ts s = (Inr (), s\<lparr>svc_storage := st'\<rparr>) \<and>
    pages_wf (tx_per_page s) st' \<and> paged st' = paged (svc_storage s) @ ts \<and>
    get_mempool_entry st' = get_mempool_entry (svc_storage s) \<and> get_yuv_tx st' = get_yuv_tx (svc_storage s) \<and>
    get_mempool st' = get_mempool (svc_storage s) \<and> get_inventory st' = get_inventory (svc_storage s)"
proof -
  let ?n = "tx_per_page s"
  have pos: "0 < unat ?n" using assms(1) by (simp add: unat_gt_0)
  let ?st = "foldl (\<lambda>st c. put_txs_ids_to_page ?n c st) (svc_storage s) (chunks (unat ?n) ts)"
  have room: "unat (last_page (svc_storage s)) + length (chunks (unat ?n) ts) < 2 ^ 64"
    using assms(3) length_chunks [of "unat ?n" ts] by linarith
  have "put_in_pages ts s = (Inr (), s\<lparr>svc_storage := ?st\<rparr>)"
    using assms(1) by (simp add: put_in_pages_def bindR_def getR_def for_modS)
  with fold_pages [OF assms(2) room chunks_bounded] pos show ?thesis
    by (intro exI [of _ ?st]) simp
qed

section \<open>What the controller knows\<close>

definition keyed :: "bitcoin_ext \<Rightarrow> storage \<Rightarrow> bool" where
  "keyed X st \<longleftrightarrow>
     (\<forall>t e. get_mempool_entry st t = Some e \<longrightarrow> entry_txid X e = t) \<and>
     (\<forall>t tx. get_yuv_tx st t = Some tx \<longrightarrow> yuv_txid X tx = t)"

definition known :: "storage \<Rightarrow> txid set" where
  "known st = {t. is_tx_exist t st \<noteq> None}"

lemma known_iff: "t \<in> known st \<longleftrightarrow> get_mempool_entry st t \<noteq> None \<or> get_yuv_tx st t \<noteq> None"
  by (auto simp: known_def is_tx_exist_def split: option.splits)

text \<open>\<open>knows X K\<close>: the stores are keyed by the ids of what they hold, and hold the ids \<open>K\<close>.\<close>

definition knows :: "bitcoin_ext \<Rightarrow> txid set \<Rightarrow> storage \<Rightarrow> bool" where
  "knows X K st \<longleftrightarrow> keyed X st \<and> K \<subseteq> known st"

lemma store_frames [simp]:
  "get_yuv_tx (put_mempool_entry X e st) t = get_yuv_tx st t"
  "get_yuv_tx (delete_mempool_entry u st) t = get_yuv_tx st t"
  "get_yuv_tx (put_mempool ids st) t = get_yuv_tx st t"
  "get_yuv_tx (put_inventory ids st) t = get_yuv_tx st t"
  "get_mempool_entry (put_yuv_tx X tx st) t = get_mempool_entry st t"
  "get_mempool_entry (put_mempool ids st) t = get_mempool_entry st t"
  "get_mempool_entry (put_inventory ids st) t = get_mempool_entry st t"
  "get_inventory (put_mempool_entry X e st) = get_inventory st"
  "get_inventory (delete_mempool_entry u st) = get_inventory st"
  "get_inventory (put_mempool ids st) = get_inventory st"
  "get_inventory (put_yuv_tx X tx st) = get_inventory st"
  "get_inventory (put_inventory ids st) = ids"
  "get_mempool (put_mempool_entry X e st) = get_mempool st"
  "get_mempool (delete_mempool_entry u st) = get_mempool st"
  "get_mempool (put_mempool ids st) = Some ids"
  "get_mempool (put_yuv_tx X tx st) = get_mempool st"
  by (simp_all add: store_defs)

lemma knows_put_entry: "knows X K st \<Longrightarrow> knows X K (put_mempool_entry X e st)"
  by (auto simp: knows_def keyed_def known_iff get_mempool_entry_put split: if_splits)

lemma knows_put_tx: "knows X K st \<Longrightarrow> knows X K (put_yuv_tx X tx st)"
  by (auto simp: knows_def keyed_def known_iff get_yuv_tx_put split: if_splits)

lemma knows_same:
  "knows X K st \<Longrightarrow> get_mempool_entry st' = get_mempool_entry st \<Longrightarrow> get_yuv_tx st' = get_yuv_tx st \<Longrightarrow> knows X K st'"
  by (simp add: knows_def keyed_def known_iff subset_iff)

lemma knows_frames:
  "knows X K st \<Longrightarrow> knows X K (put_mempool ids st)"
  "knows X K st \<Longrightarrow> knows X K (put_inventory ids st)"
  "knows X K st \<Longrightarrow> knows X K (put_txs_ids_to_page n ts st)"
  by (erule knows_same, simp_all add: fun_eq_iff)+

lemma knows_store_attached:
  assumes "knows X K st" and "get_mempool_entry st t = Some e"
  shows "knows X K (delete_mempool_entry t (put_yuv_tx X (yuv_tx e) st))"
proof -
  have "yuv_txid X (yuv_tx e) = t" using assms by (simp add: knows_def keyed_def entry_txid_def)
  with assms show ?thesis
    by (auto simp: knows_def keyed_def known_iff get_yuv_tx_put entries_store.get_del split: if_splits)
qed

lemma knows_store_announcement:
  "knows X K st \<Longrightarrow> knows X K (put_yuv_tx X tx (put_mempool ids (delete_mempool_entry (yuv_txid X tx) st)))"
  by (auto simp: knows_def keyed_def known_iff get_yuv_tx_put entries_store.get_del split: if_splits)

lemma knows_delete: "knows X K st \<Longrightarrow> t \<notin> K \<Longrightarrow> knows X K (delete_mempool_entry t st)"
  by (auto simp: knows_def keyed_def known_iff entries_store.get_del split: if_splits)

abbreviation keeps_known :: "bitcoin_ext \<Rightarrow> txid set \<Rightarrow> 'a control \<Rightarrow> bool" where
  "keeps_known X K \<equiv> keepsR (on_storage (knows X K))"

lemma keeps_knows:
  "keeps_known X K (modS (put_mempool_entry X e))"
  "keeps_known X K (modS (\<lambda>st. put_mempool (f st) st))"
  "keeps_known X K (modS (put_inventory ids))"
  "keeps_known X K (modS (put_txs_ids_to_page n ts))"
  by (rule keepsR_modS; simp add: knows_put_entry knows_frames)+

lemma keeps_p2p [keeps_intros]: "keepsR (on_storage P) (p2p net c)"
  by (auto simp: p2p_def on_storage_def intro!: keeps_intros keepsR_mod)

lemma keeps_require_entry [keeps_intros]: "keepsR P (require_entry t)"
  unfolding require_entry_def by (intro keeps_intros)

lemma keeps_put_in_pages: "keeps_known X K (put_in_pages ts)"
  unfolding put_in_pages_def by (intro keeps_intros keeps_knows)

lemma keeps_set_status: "keeps_known X K (set_status X st t)"
  unfolding set_status_def by (intro keeps_intros keeps_knows)

lemma keeps_accept: "keeps_known X K (accept_new_txs X peer txs)"
  by (induction txs) (auto split: option.splits intro!: keeps_intros keeps_knows)

lemma keeps_store_attached: "keeps_known X K (store_attached X t)"
  by (auto simp: keepsR_def on_storage_def store_attached_def require_entry_def run_defs service_eqs
      knows_store_attached split: option.splits)

lemma keeps_store_announcement: "keeps_known X K (store_announcement X tx)"
  by (auto simp: keepsR_def on_storage_def store_announcement_def run_defs service_eqs
      knows_store_announcement)

lemma keeps_mine: "keeps_known X K (mine_entries X ts)"
  by (induction ts) (auto intro!: keeps_intros keeps_set_status)

lemma keeps_confirmed: "keepsR P (confirmed_entries ts)"
  by (induction ts) (auto intro!: keeps_intros)

lemma keeps_invalid:
  assumes "set ts \<inter> K = {}"
  shows "keeps_known X K (forR (handle_invalid_tx net) ts)"
  using assms
proof (induction ts)
  case (Cons t ts)
  have "keeps_known X K (modS (delete_mempool_entry t))"
    using Cons.prems knows_delete by (intro keepsR_modS) auto
  then have "keeps_known X K (handle_invalid_tx net t)"
    unfolding handle_invalid_tx_def by (intro keeps_intros)
  with Cons show ?case by (auto intro!: keeps_intros)
qed (auto intro: keeps_intros)

lemma keeps_event:
  assumes "\<And>ts. m = InvalidTxs ts \<Longrightarrow> set ts \<inter> K = {}"
  shows "keeps_known X K (handle_controller_event X net m)"
proof (cases m)
  case (InvalidTxs ts)
  with assms show ?thesis
    by (auto simp: handle_invalid_txs_def intro!: keeps_intros keeps_knows keeps_invalid)
next
  case (P2P p)
  then show ?thesis
    by (cases p) (auto simp: handle_inv_def handle_get_data_def handle_new_yuv_txs_def
        intro!: keeps_intros keeps_accept)
qed (auto simp: send_get_data_def handle_partially_checked_txs_def handle_fully_checked_txs_def
      handle_mined_txs_def handle_confirmed_txs_def handle_new_yuv_txs_def handle_reorganization_def
      handle_attached_txs_def handle_checked_announcements_def Let_def
      intro!: keeps_intros keeps_knows keeps_set_status keeps_mine keeps_confirmed keeps_accept
        keeps_put_in_pages keeps_store_attached keeps_store_announcement)

lemma accept_learns:
  assumes "keyed X (svc_storage s)" and "accept_new_txs X peer txs s = (Inr new, s')"
  shows "yuv_txid X ` set txs \<subseteq> known (svc_storage s')"
  using assms
proof (induction txs arbitrary: s new)
  case (Cons tx txs)
  let ?t = "yuv_txid X tx"
  have keep: "knows X K (svc_storage s1) \<Longrightarrow> accept_new_txs X peer txs s1 = (Inr new1, s') \<Longrightarrow>
      K \<subseteq> known (svc_storage s')" for K s1 new1
    using keepsR_D [OF keeps_accept, of X K s1 peer txs] by (simp add: on_storage_def knows_def)
  obtain s1 new1 where s1: "accept_new_txs X peer txs s1 = (Inr new1, s')"
    and k1: "knows X {?t} (svc_storage s1)"
  proof (cases "is_tx_exist ?t (svc_storage s)")
    case None
    let ?s1 = "s\<lparr>svc_storage := put_mempool
      (raw_mempool_of (put_mempool_entry X \<lparr>yuv_tx = tx, status = Initialized, sender = peer\<rparr> (svc_storage s)) @ [?t])
      (put_mempool_entry X \<lparr>yuv_tx = tx, status = Initialized, sender = peer\<rparr> (svc_storage s))\<rparr>"
    from Cons.prems(2) None obtain new1 where "accept_new_txs X peer txs ?s1 = (Inr new1, s')"
      by (auto simp: run_defs service_eqs split: prod.splits sum.splits)
    moreover have "knows X {?t} (svc_storage ?s1)"
      using Cons.prems(1) by (auto simp: knows_def keyed_def known_iff get_mempool_entry_put entry_txid_def split: if_splits)
    ultimately show thesis by (rule that)
  next
    case (Some old)
    let ?s1 = "s\<lparr>svc_storage := put_mempool_entry X \<lparr>yuv_tx = tx, status = Initialized, sender = peer\<rparr> (svc_storage s)\<rparr>"
    have here: "knows X {?t} (svc_storage s)" using Cons.prems(1) Some by (simp add: knows_def known_def)
    then have "knows X {?t} (svc_storage ?s1)" by (simp add: knows_put_entry)
    with here Some Cons.prems(2) that show thesis
      by (auto simp: run_defs service_eqs split: prod.splits sum.splits if_splits)
  qed
  have "keyed X (svc_storage s1)" using k1 by (simp add: knows_def)
  from Cons.IH [OF this s1] keep [OF k1 s1] show ?case by simp
qed simp

definition inv_bounded :: "controller \<Rightarrow> bool" where
  "inv_bounded s \<longleftrightarrow> length (get_inventory (svc_storage s)) \<le> max_inv_size s"

lemma bounded_basic [keeps_intros]:
  "keepsR inv_bounded (sendR ev)" "keepsR inv_bounded (p2p net c)"
  by (auto simp: inv_bounded_def sendR_def p2p_def intro!: keeps_intros keepsR_mod)

lemma bounded_modS: "(\<And>st. get_inventory (g st) = get_inventory st) \<Longrightarrow> keepsR inv_bounded (modS g)"
  by (auto simp: inv_bounded_def modS_def intro!: keepsR_mod)

lemma bounded_mods:
  "keepsR inv_bounded (modS (put_mempool_entry X e))"
  "keepsR inv_bounded (modS (delete_mempool_entry t))"
  "keepsR inv_bounded (modS (\<lambda>st. put_mempool (f st) st))"
  "keepsR inv_bounded (modS (put_yuv_tx X tx))"
  "keepsR inv_bounded (modS (put_txs_ids_to_page n ts))"
  by (rule bounded_modS; simp)+

lemma bounded_parts:
  "keepsR inv_bounded (put_in_pages ts)" "keepsR inv_bounded (set_status X st t)"
  "keepsR inv_bounded (store_attached X t)" "keepsR inv_bounded (store_announcement X tx)"
  "keepsR inv_bounded (handle_invalid_tx net t)"
  unfolding put_in_pages_def set_status_def store_attached_def store_announcement_def handle_invalid_tx_def
  by (intro keeps_intros bounded_mods)+

lemma bounded_accept: "keepsR inv_bounded (accept_new_txs X peer txs)"
  by (induction txs) (auto split: option.splits intro!: keeps_intros bounded_mods)

lemma bounded_mine: "keepsR inv_bounded (mine_entries X ts)"
  by (induction ts) (auto intro!: keeps_intros bounded_parts)

lemma bounded_mined: "keepsR inv_bounded (handle_mined_txs X ts)"
proof -
  have "keepsR inv_bounded (bindR (getS get_inventory) (\<lambda>inven. bindR (getR max_inv_size) (\<lambda>n.
      modS (put_inventory (update_inv inven shared n)))))" for shared
    by (auto simp: keepsR_def inv_bounded_def run_defs service_eqs update_inv_last)
  then show ?thesis unfolding handle_mined_txs_def by (rule keepsR_bind [OF bounded_mine])
qed

lemma bounded_event: "keepsR inv_bounded (handle_controller_event X net m)"
proof (cases m)
  case (P2P p)
  then show ?thesis
    by (cases p) (auto simp: handle_inv_def handle_get_data_def handle_new_yuv_txs_def
        intro!: keeps_intros bounded_accept)
qed (auto simp: send_get_data_def handle_partially_checked_txs_def handle_fully_checked_txs_def
      bounded_mined handle_confirmed_txs_def handle_new_yuv_txs_def handle_reorganization_def
      handle_attached_txs_def handle_checked_announcements_def handle_invalid_txs_def Let_def
      intro!: keeps_intros bounded_mods bounded_parts keeps_confirmed bounded_accept)

section \<open>Batches\<close>

lemma store_attached_eq:
  "store_attached X t s =
     (case get_mempool_entry (svc_storage s) t of
        None \<Rightarrow> (Inl TxNotInMempool, s)
      | Some e \<Rightarrow> (Inr (), s\<lparr>svc_storage := delete_mempool_entry t (put_yuv_tx X (yuv_tx e) (svc_storage s))\<rparr>))"
  by (simp add: store_attached_def require_entry_def run_defs service_eqs split: option.splits)

text \<open>The loop that stores attached transactions: everything listed leaves the mempool for the store.\<close>

lemma store_attached_all:
  assumes "keyed X (svc_storage s)" and "distinct ts"
    and "\<And>t. t \<in> set ts \<Longrightarrow> get_mempool_entry (svc_storage s) t \<noteq> None"
  shows "\<exists>st'. forR (store_attached X) ts s = (Inr (), s\<lparr>svc_storage := st'\<rparr>) \<and>
    (\<forall>t. get_yuv_tx st' t = (if t \<in> set ts then map_option yuv_tx (get_mempool_entry (svc_storage s) t)
                             else get_yuv_tx (svc_storage s) t)) \<and>
    (\<forall>t. get_mempool_entry st' t = (if t \<in> set ts then None else get_mempool_entry (svc_storage s) t)) \<and>
    get_mempool st' = get_mempool (svc_storage s) \<and>
    last_page st' = last_page (svc_storage s) \<and> page_of st' = page_of (svc_storage s)"
  using assms
proof (induction ts arbitrary: s)
  case Nil
  then show ?case by (auto simp: retR_def intro!: exI [of _ "svc_storage s"])
next
  case (Cons t ts)
  from Cons.prems(3) [of t] obtain e where e: "get_mempool_entry (svc_storage s) t = Some e" by auto
  let ?st = "delete_mempool_entry t (put_yuv_tx X (yuv_tx e) (svc_storage s))"
  have id: "yuv_txid X (yuv_tx e) = t" using Cons.prems(1) e by (simp add: keyed_def entry_txid_def)
  have keyed': "keyed X (svc_storage (s\<lparr>svc_storage := ?st\<rparr>))"
    using knows_store_attached [of X "{}", OF _ e] Cons.prems(1) by (simp add: knows_def)
  have entries: "get_mempool_entry ?st u = (if u = t then None else get_mempool_entry (svc_storage s) u)" for u
    by (simp add: entries_store.get_del)
  have pages: "last_page ?st = last_page (svc_storage s)" "page_of ?st = page_of (svc_storage s)"
    by (simp_all add: last_page_def page_of_def fun_eq_iff store_defs)
  have there: "get_mempool_entry (svc_storage (s\<lparr>svc_storage := ?st\<rparr>)) u \<noteq> None" if "u \<in> set ts" for u
    using that Cons.prems(2) Cons.prems(3) [of u] by (auto simp: entries)
  obtain st' where st': "forR (store_attached X) ts (s\<lparr>svc_storage := ?st\<rparr>) = (Inr (), s\<lparr>svc_storage := st'\<rparr>)"
    "\<And>u. get_yuv_tx st' u = (if u \<in> set ts then map_option yuv_tx (get_mempool_entry ?st u) else get_yuv_tx ?st u)"
    "\<And>u. get_mempool_entry st' u = (if u \<in> set ts then None else get_mempool_entry ?st u)"
    "get_mempool st' = get_mempool ?st" "last_page st' = last_page ?st" "page_of st' = page_of ?st"
    using Cons.IH [OF keyed' _ there] Cons.prems(2) by auto
  show ?case
    using st' e Cons.prems(2)
    by (intro exI [of _ st']) (auto simp: bindR_def store_attached_eq [of X t s] entries get_yuv_tx_put id pages)
qed

lemma resend_mempool_eq:
  "resend_mempool ts s =
     (let here = filter (\<lambda>t. get_mempool_entry (svc_storage s) t \<noteq> None) ts
      in (Inr here, s\<lparr>svc_sent := svc_sent s @
            map (\<lambda>t. resend_entry t (the (get_mempool_entry (svc_storage s) t))) here\<rparr>))"
  by (induction ts arbitrary: s) (auto simp: run_defs service_eqs Let_def split: option.splits)

lemma invalid_never_bans: "handle_invalid_tx net t s = (Inr (), s\<lparr>svc_storage := delete_mempool_entry t (svc_storage s)\<rparr>)"
  by (simp add: handle_invalid_tx_def run_defs service_eqs entries_store.get_del)

lemma invalid_all:
  "forR (handle_invalid_tx net) ts s =
     (Inr (), s\<lparr>svc_storage := foldl (\<lambda>st t. delete_mempool_entry t st) (svc_storage s) ts\<rparr>)"
  by (induction ts arbitrary: s) (simp_all add: retR_def bindR_def invalid_never_bans [of net _ s for s])

lemma fold_delete_entries:
  "get_mempool_entry (foldl (\<lambda>st t. delete_mempool_entry t st) st ts) u =
     (if u \<in> set ts then None else get_mempool_entry st u)"
  "get_mempool (foldl (\<lambda>st t. delete_mempool_entry t st) st ts) = get_mempool st"
  by (induction ts arbitrary: st) (auto simp: entries_store.get_del)

lemma handle_attached_ok:
  assumes "keyed X (svc_storage s)" and "distinct ts"
    and "\<And>t. t \<in> set ts \<Longrightarrow> get_mempool_entry (svc_storage s) t \<noteq> None"
    and "tx_per_page s \<noteq> 0" and "pages_wf (tx_per_page s) (svc_storage s)"
    and "unat (last_page (svc_storage s)) + length ts < 2 ^ 64"
  shows "\<exists>st'. handle_attached_txs X ts s = (Inr (), s\<lparr>svc_storage := st'\<rparr>) \<and>
    (\<forall>t \<in> set ts. get_yuv_tx st' t = map_option yuv_tx (get_mempool_entry (svc_storage s) t) \<and>
       get_mempool_entry st' t = None \<and> t \<notin> set (raw_mempool_of st')) \<and>
    (\<forall>t. t \<notin> set ts \<longrightarrow> get_yuv_tx st' t = get_yuv_tx (svc_storage s) t) \<and>
    pages_wf (tx_per_page s) st' \<and> paged st' = paged (svc_storage s) @ ts"
proof -
  obtain st1 where st1: "forR (store_attached X) ts s = (Inr (), s\<lparr>svc_storage := st1\<rparr>)"
    "\<And>t. get_yuv_tx st1 t = (if t \<in> set ts then map_option yuv_tx (get_mempool_entry (svc_storage s) t)
        else get_yuv_tx (svc_storage s) t)"
    "\<And>t. get_mempool_entry st1 t = (if t \<in> set ts then None else get_mempool_entry (svc_storage s) t)"
    "last_page st1 = last_page (svc_storage s)" "page_of st1 = page_of (svc_storage s)"
    using store_attached_all [OF assms(1-3)] by blast
  have same: "pages_wf n st1 = pages_wf n (svc_storage s)" "paged st1 = paged (svc_storage s)" for n
    by (simp_all add: pages_wf_def paged_def st1(4,5))
  let ?s1 = "s\<lparr>svc_storage := st1\<rparr>"
  obtain st2 where st2: "put_in_pages ts ?s1 = (Inr (), ?s1\<lparr>svc_storage := st2\<rparr>)"
    "pages_wf (tx_per_page s) st2" "paged st2 = paged (svc_storage s) @ ts"
    "get_mempool_entry st2 = get_mempool_entry st1" "get_yuv_tx st2 = get_yuv_tx st1"
    using put_in_pages_ok [of ?s1 ts] assms(4-6) by (auto simp: st1(4) same)
  let ?st' = "put_mempool (clear_mempool (raw_mempool_of st2) ts) st2"
  have "page_of ?st' = page_of st2" "last_page ?st' = last_page st2"
    by (simp_all add: fun_eq_iff last_page_def page_of_def store_defs)
  then have pages: "pages_wf n ?st' = pages_wf n st2" "paged ?st' = paged st2" for n
    by (simp_all add: pages_wf_def paged_def)
  have "handle_attached_txs X ts s = (Inr (), s\<lparr>svc_storage := ?st'\<rparr>)"
    using st1(1) st2(1) by (simp add: handle_attached_txs_def thenR_def bindR_def service_eqs)
  with st1 st2 pages show ?thesis
    by (intro exI [of _ ?st']) (auto simp: raw_mempool_of_def clear_mempool_def)
qed

section \<open>A restart\<close>

text \<open>
  What the controller asks the services to do with a transaction: check it in isolation, confirm it,
  attach it. The full check is not among them: it follows a confirmation.
\<close>

datatype stage = AskIsolatedCheck | AskConfirmation | AskAttachment

fun asked :: "bitcoin_ext \<Rightarrow> bus_message \<Rightarrow> (stage \<times> txid) set" where
  "asked X (ToTxChecker (IsolatedCheck txs)) = (\<lambda>tx. (AskIsolatedCheck, yuv_txid X tx)) ` set txs"
| "asked X (ToTxConfirm (ConfirmTxs ts)) = (\<lambda>t. (AskConfirmation, t)) ` set ts"
| "asked X (ToGraphBuilder (CheckedTxs txs)) = (\<lambda>tx. (AskAttachment, yuv_txid X tx)) ` set txs"
| "asked X _ = {}"

definition asked_between :: "bitcoin_ext \<Rightarrow> controller \<Rightarrow> controller \<Rightarrow> (stage \<times> txid) set" where
  "asked_between X s s' = \<Union> (asked X ` set (drop (length (svc_sent s)) (svc_sent s')))"

fun stage_of :: "mempool_status \<Rightarrow> stage" where
  "stage_of Attaching = AskAttachment"
| "stage_of Initialized = AskIsolatedCheck"
| "stage_of Pending = AskIsolatedCheck"
| "stage_of _ = AskConfirmation"

definition at_stage :: "bitcoin_ext \<Rightarrow> stage \<Rightarrow> txid \<Rightarrow> storage \<Rightarrow> bool" where
  "at_stage X q t st \<longleftrightarrow> keyed X st \<and> (\<forall>e. get_mempool_entry st t = Some e \<longrightarrow> stage_of (status e) = q)"

lemma retR_iff: "retR a s = (Inr b, t) \<longleftrightarrow> b = a \<and> t = s"
  by (auto simp: retR_def)

lemma keyed_frames:
  "keyed X st \<Longrightarrow> keyed X (put_mempool_entry X e st)" "keyed X st \<Longrightarrow> keyed X (put_mempool ids st)"
  "keyed X st \<Longrightarrow> keyed X (put_txs_ids_to_page n ts st)" "keyed X st \<Longrightarrow> keyed X (delete_mempool_entry t st)"
  "keyed X st \<Longrightarrow> keyed X (put_yuv_tx X tx st)"
  by (auto simp: keyed_def get_mempool_entry_put get_yuv_tx_put entries_store.get_del split: if_splits)

lemma at_stage_frames:
  "at_stage X q t st \<Longrightarrow> at_stage X q t (put_mempool ids st)" "at_stage X q t st \<Longrightarrow> at_stage X q t (put_txs_ids_to_page n ts st)"
  "at_stage X q t st \<Longrightarrow> at_stage X q t (delete_mempool_entry u st)" "at_stage X q t st \<Longrightarrow> at_stage X q t (put_yuv_tx X tx st)"
  by (auto simp: at_stage_def keyed_frames entries_store.get_del split: if_splits)

lemma at_stage_put:
  "stage_of (status e) = q \<Longrightarrow> at_stage X q t st \<Longrightarrow> at_stage X q t (put_mempool_entry X e st)"
  "keyed X st \<Longrightarrow> at_stage X (stage_of (status e)) (entry_txid X e) (put_mempool_entry X e st)"
  by (auto simp: at_stage_def keyed_frames get_mempool_entry_put)

lemma stage_set_status: "stage_of st = q \<Longrightarrow> keepsR (on_storage (at_stage X q t)) (set_status X st u)"
  unfolding set_status_def by (intro keeps_intros keepsR_modS at_stage_put) simp_all

lemma set_status_stage:
  assumes "set_status X st t s = (Inr e, s')" and "keyed X (svc_storage s)"
  shows "at_stage X (stage_of st) t (svc_storage s')" "svc_sent s' = svc_sent s"
proof -
  have e: "get_mempool_entry (svc_storage s) t = Some e" "s' = s\<lparr>svc_storage := put_mempool_entry X (e\<lparr>status := st\<rparr>) (svc_storage s)\<rparr>"
    using assms(1) by (auto simp: set_status_def require_entry_def run_defs service_eqs split: option.splits)
  then have "entry_txid X (e\<lparr>status := st\<rparr>) = t" using assms(2) by (simp add: keyed_def entry_txid_def)
  with at_stage_put(2) [OF assms(2), of "e\<lparr>status := st\<rparr>"] e(2) show "at_stage X (stage_of st) t (svc_storage s')" "svc_sent s' = svc_sent s"
    by simp_all
qed

lemma all_status_stage:
  assumes "forR (\<lambda>x. bindR (set_status X st (f x)) (\<lambda>_. retR ())) xs s = (Inr (), s')" and "keyed X (svc_storage s)"
  shows "\<forall>x \<in> set xs. at_stage X (stage_of st) (f x) (svc_storage s')" "svc_sent s' = svc_sent s" "keyed X (svc_storage s')"
proof -
  have "(\<forall>x \<in> set xs. at_stage X (stage_of st) (f x) (svc_storage s')) \<and> svc_sent s' = svc_sent s \<and> keyed X (svc_storage s')"
    using assms
  proof (induction xs arbitrary: s)
    case (Cons x xs)
    obtain e s1 where one: "set_status X st (f x) s = (Inr e, s1)"
      and rest: "forR (\<lambda>x. bindR (set_status X st (f x)) (\<lambda>_. retR ())) xs s1 = (Inr (), s')"
      using Cons.prems(1) by (auto simp: result_simps retR_iff)
    note stage = set_status_stage [OF one Cons.prems(2)]
    have "keepsR (on_storage (at_stage X (stage_of st) (f x))) (forR (\<lambda>x. bindR (set_status X st (f x)) (\<lambda>_. retR ())) xs)"
      by (intro keeps_intros stage_set_status) simp
    from keepsR_D [OF this, of s1] stage rest have "at_stage X (stage_of st) (f x) (svc_storage s')" by (simp add: on_storage_def)
    moreover have "keyed X (svc_storage s1)" using stage(1) by (simp add: at_stage_def)
    ultimately show ?case using Cons.IH [OF rest] stage(2) by simp
  qed (simp add: retR_def)
  then show "\<forall>x \<in> set xs. at_stage X (stage_of st) (f x) (svc_storage s')" "svc_sent s' = svc_sent s" "keyed X (svc_storage s')"
    by blast+
qed

lemma stage_accept: "keepsR (on_storage (at_stage X AskIsolatedCheck t)) (accept_new_txs X peer txs)"
proof (induction txs)
  case (Cons tx txs)
  have "keepsR (on_storage (at_stage X AskIsolatedCheck t)) (modS (put_mempool_entry X \<lparr>yuv_tx = tx, status = Initialized, sender = peer\<rparr>) :: unit control)"
    "keepsR (on_storage (at_stage X AskIsolatedCheck t)) (modS (\<lambda>st. put_mempool (raw_mempool_of st @ [yuv_txid X tx]) st) :: unit control)"
    by (rule keepsR_modS; simp add: at_stage_put at_stage_frames)+
  with Cons show ?case by (auto split: option.splits intro!: keeps_intros)
qed (simp add: keepsR_ret)

lemma accepted_stage:
  assumes "accept_new_txs X peer txs s = (Inr new, s')" and "keyed X (svc_storage s)"
  shows "(\<forall>tx \<in> set new. at_stage X AskIsolatedCheck (yuv_txid X tx) (svc_storage s')) \<and> svc_sent s' = svc_sent s"
  using assms
proof (induction txs arbitrary: s new)
  case (Cons tx txs)
  let ?e = "\<lparr>yuv_tx = tx, status = Initialized, sender = peer\<rparr>"
  have accepted: ?case
    if s1: "at_stage X AskIsolatedCheck (yuv_txid X tx) (svc_storage s1)" "svc_sent s1 = svc_sent s"
      and run: "accept_new_txs X peer txs s1 = (Inr new1, s')" and new: "new = tx # new1" for s1 new1
  proof -
    have "keyed X (svc_storage s1)" using s1(1) by (simp add: at_stage_def)
    note rest = Cons.IH [OF run this]
    have "at_stage X AskIsolatedCheck (yuv_txid X tx) (svc_storage s')"
      using keepsR_D [OF stage_accept, of X "yuv_txid X tx" s1 peer txs] s1(1) run by (simp add: on_storage_def)
    with rest s1(2) new show ?thesis by simp
  qed
  have put: "at_stage X AskIsolatedCheck (yuv_txid X tx) (put_mempool_entry X ?e (svc_storage s))"
    using at_stage_put(2) [OF Cons.prems(2), of ?e] by (simp add: entry_txid_def)
  show ?case
  proof (cases "is_tx_exist (yuv_txid X tx) (svc_storage s)")
    case None
    let ?s1 = "s\<lparr>svc_storage := put_mempool (raw_mempool_of (put_mempool_entry X ?e (svc_storage s)) @ [yuv_txid X tx])
      (put_mempool_entry X ?e (svc_storage s))\<rparr>"
    from None Cons.prems(1) obtain new1 where "accept_new_txs X peer txs ?s1 = (Inr new1, s')" "new = tx # new1"
      by (auto simp: result_simps thenR_def service_eqs retR_iff)
    with accepted [of ?s1 new1] at_stage_frames(1) [OF put] show ?thesis by simp
  next
    case (Some old)
    show ?thesis
    proof (cases "has_announcement old")
      case True
      let ?s1 = "s\<lparr>svc_storage := put_mempool_entry X ?e (svc_storage s)\<rparr>"
      from True Some Cons.prems(1) obtain new1 where "accept_new_txs X peer txs ?s1 = (Inr new1, s')" "new = tx # new1"
        by (auto simp: result_simps thenR_def service_eqs retR_iff)
      with accepted [of ?s1 new1] put show ?thesis by simp
    next
      case False
      with Some Cons.prems Cons.IH show ?thesis by (simp add: result_simps service_eqs)
    qed
  qed
qed (simp add: retR_def)

text \<open>The handlers between the status and the request send nothing and leave the stage as it is.\<close>

lemma quiet_basic:
  "keepsR (\<lambda>s. svc_sent s = old) (modS g :: unit control)" "keepsR (\<lambda>s. svc_sent s = old) (p2p net c)"
  by (auto simp: p2p_def modS_def intro!: keeps_intros keepsR_mod)

lemma quiet_put_in_pages: "keepsR (\<lambda>s. svc_sent s = old) (put_in_pages ts)"
  unfolding put_in_pages_def by (intro keeps_intros quiet_basic)

lemma quiet_mine: "keepsR (\<lambda>s. svc_sent s = old) (mine_entries X ts)"
  by (induction ts) (auto simp: set_status_def intro!: keeps_intros quiet_basic)

lemma quiet_events:
  "keepsR (\<lambda>s. svc_sent s = old) (handle_invalid_txs net ts)" "keepsR (\<lambda>s. svc_sent s = old) (send_get_data net peer is)"
  "keepsR (\<lambda>s. svc_sent s = old) (handle_attached_txs X ts)" "keepsR (\<lambda>s. svc_sent s = old) (handle_inv net is peer)"
  "keepsR (\<lambda>s. svc_sent s = old) (handle_get_data net is peer)" "keepsR (\<lambda>s. svc_sent s = old) (handle_mined_txs X ts)"
  "keepsR (\<lambda>s. svc_sent s = old) (handle_checked_announcements X txs)"
  unfolding handle_invalid_txs_def handle_invalid_tx_def send_get_data_def handle_attached_txs_def store_attached_def
    handle_inv_def handle_get_data_def handle_mined_txs_def handle_checked_announcements_def store_announcement_def
  by (intro keeps_intros quiet_basic quiet_put_in_pages quiet_mine)+

lemma quiet_asks: "keepsR (\<lambda>u. svc_sent u = svc_sent s) m \<Longrightarrow> m s = (r, s') \<Longrightarrow> asked_between X s s' = {}"
  using keepsR_D [of "\<lambda>u. svc_sent u = svc_sent s" m s] by (simp add: asked_between_def)

lemma stage_announcements: "keepsR (on_storage (at_stage X q t)) (handle_checked_announcements X txs)"
  unfolding handle_checked_announcements_def put_in_pages_def store_announcement_def
  by (intro keeps_intros keepsR_modS at_stage_frames)

lemma confirm_request_stage:
  assumes "thenR (forR (\<lambda>t. bindR (set_status X WaitingMined t) (\<lambda>_. retR ())) ts) (sendR (ToTxConfirm (ConfirmTxs ts))) s = (Inr (), s')"
    and "keyed X (svc_storage s)" and "(q, t) \<in> asked_between X s s'"
  shows "at_stage X q t (svc_storage s')"
proof -
  obtain s1 where s1: "forR (\<lambda>t. bindR (set_status X WaitingMined t) (\<lambda>_. retR ())) ts s = (Inr (), s1)"
    and s': "s' = s1\<lparr>svc_sent := svc_sent s1 @ [ToTxConfirm (ConfirmTxs ts)]\<rparr>"
    using assms(1) by (auto simp: thenR_def result_simps service_eqs)
  note set = all_status_stage [OF s1 assms(2)]
  have "q = AskConfirmation" "t \<in> set ts" using assms(3) s' set(2) by (auto simp: asked_between_def)
  with set(1) s' show ?thesis by simp
qed

lemma new_txs_stage:
  assumes "handle_new_yuv_txs X txs peer s = (Inr (), s')" and "keyed X (svc_storage s)" and "(q, t) \<in> asked_between X s s'"
  shows "at_stage X q t (svc_storage s')"
proof -
  obtain new s1 where s1: "accept_new_txs X peer txs s = (Inr new, s1)"
    and s': "s' = (if new = [] then s1 else s1\<lparr>svc_sent := svc_sent s1 @ [ToTxChecker (IsolatedCheck new)]\<rparr>)"
    using assms(1) by (auto simp: handle_new_yuv_txs_def result_simps service_eqs whenR_def retR_iff split: if_splits)
  note set = accepted_stage [OF s1 assms(2)]
  obtain tx where "tx \<in> set new" "q = AskIsolatedCheck" "t = yuv_txid X tx"
    using assms(3) s' set by (auto simp: asked_between_def split: if_splits)
  with set s' show ?thesis by auto
qed

lemma fully_checked_stage:
  assumes "handle_fully_checked_txs X txs s = (Inr (), s')" and "keyed X (svc_storage s)" and "(q, t) \<in> asked_between X s s'"
  shows "at_stage X q t (svc_storage s')"
proof -
  define other where "other = filter (\<lambda>tx. \<not> has_announcement tx) txs"
  obtain s1 s2 where s1: "forR (\<lambda>tx. bindR (set_status X Attaching (yuv_txid X tx)) (\<lambda>_. retR ())) other s = (Inr (), s1)"
    and s2: "whenR (filter has_announcement txs \<noteq> []) (handle_checked_announcements X (filter has_announcement txs)) s1 = (Inr (), s2)"
    and s': "s' = (if other = [] then s2 else s2\<lparr>svc_sent := svc_sent s2 @ [ToGraphBuilder (CheckedTxs other)]\<rparr>)"
    using assms(1) unfolding handle_fully_checked_txs_def Let_def other_def [symmetric]
    by (auto simp: thenR_def result_simps service_eqs whenR_def retR_iff split: if_splits)
  note set = all_status_stage [OF s1 assms(2)]
  have "svc_sent (snd (whenR (filter has_announcement txs \<noteq> []) (handle_checked_announcements X (filter has_announcement txs)) s1)) = svc_sent s1"
    by (rule keepsR_D [OF keepsR_whenR [OF quiet_events(7)]]) simp
  with s2 have "svc_sent s2 = svc_sent s1" by simp
  then obtain tx where tx: "tx \<in> set other" "q = AskAttachment" "t = yuv_txid X tx"
    using assms(3) s' set(2) by (auto simp: asked_between_def split: if_splits)
  have "on_storage (at_stage X q t) (snd (whenR (filter has_announcement txs \<noteq> []) (handle_checked_announcements X (filter has_announcement txs)) s1))"
    using set(1) tx by (intro keepsR_D [OF keepsR_whenR [OF stage_announcements]]) (simp add: on_storage_def)
  with s2 s' show ?thesis by (simp add: on_storage_def)
qed

lemma asked_stage:
  assumes "handle_controller_event X net m s = (Inr (), s')" and "keyed X (svc_storage s)" and "(q, t) \<in> asked_between X s s'"
  shows "at_stage X q t (svc_storage s')"
proof (cases m)
  case (P2P p)
  with assms show ?thesis by (cases p) (auto dest: quiet_asks [OF quiet_events(4)] quiet_asks [OF quiet_events(5)] new_txs_stage)
next
  case (ConfirmedTxs ts)
  obtain es s1 where s1: "confirmed_entries ts s = (Inr es, s1)" and s': "\<exists>txs. s' = s1\<lparr>svc_sent := svc_sent s1 @ [ToTxChecker (FullCheck txs)]\<rparr>"
    using assms(1) ConfirmedTxs by (auto simp: handle_confirmed_txs_def result_simps service_eqs Let_def)
  have "svc_sent s1 = svc_sent s" using keepsR_D [OF keeps_confirmed, of "\<lambda>u. svc_sent u = svc_sent s" s ts] s1 by simp
  with s' assms(3) show ?thesis by (auto simp: asked_between_def)
next
  case (Reorganization ts height)
  let ?s1 = "s\<lparr>svc_sent := svc_sent s @ [ToIndexer (IndexerReorganization height)]\<rparr>"
  have run: "whenR (ts \<noteq> []) (thenR (forR (\<lambda>t. bindR (set_status X WaitingMined t) (\<lambda>_. retR ())) ts) (sendR (ToTxConfirm (ConfirmTxs ts)))) ?s1 = (Inr (), s')"
    using assms(1) Reorganization by (simp add: handle_reorganization_def thenR_def bindR_def service_eqs)
  show ?thesis
  proof (cases "ts = []")
    case True
    with run assms(3) show ?thesis by (simp add: whenR_def retR_iff asked_between_def)
  next
    case False
    with run have run: "thenR (forR (\<lambda>t. bindR (set_status X WaitingMined t) (\<lambda>_. retR ())) ts) (sendR (ToTxConfirm (ConfirmTxs ts))) ?s1 = (Inr (), s')"
      by (simp add: whenR_def)
    then obtain s2 where s2: "forR (\<lambda>t. bindR (set_status X WaitingMined t) (\<lambda>_. retR ())) ts ?s1 = (Inr (), s2)"
      and s': "s' = s2\<lparr>svc_sent := svc_sent s2 @ [ToTxConfirm (ConfirmTxs ts)]\<rparr>"
      by (auto simp: thenR_def result_simps service_eqs)
    have "svc_sent s2 = svc_sent ?s1" using all_status_stage(2) [OF s2] assms(2) by simp
    with s' assms(3) have "(q, t) \<in> asked_between X ?s1 s'" by (auto simp: asked_between_def)
    with confirm_request_stage [OF run] assms(2) show ?thesis by simp
  qed
next
  case (PartiallyCheckedTxs ts)
  with assms show ?thesis by (auto simp: handle_partially_checked_txs_def intro: confirm_request_stage)
qed (use assms in \<open>auto dest: quiet_asks [OF quiet_events(1)] quiet_asks [OF quiet_events(2)] quiet_asks [OF quiet_events(3)]
       quiet_asks [OF quiet_events(6)] new_txs_stage fully_checked_stage\<close>)

text \<open>What a restart sends.\<close>

lemma mempool_recovered:
  assumes "here = filter (\<lambda>t. get_mempool_entry (svc_storage s) t \<noteq> None) (raw_mempool_of (svc_storage s))"
  shows "\<exists>s'. handle_mempool_txs s = (Inr (), s') \<and>
    svc_sent s' = svc_sent s @
      map (\<lambda>t. resend_entry t (the (get_mempool_entry (svc_storage s) t))) here \<and>
    raw_mempool_of (svc_storage s') = here \<and>
    get_mempool_entry (svc_storage s') = get_mempool_entry (svc_storage s)"
  using assms
  by (cases "raw_mempool_of (svc_storage s) = []")
     (auto simp: handle_mempool_txs_def run_defs service_eqs whenR_def resend_mempool_eq Let_def
        raw_mempool_of_def fun_eq_iff)

lemma asked_resend_entry: "entry_txid X e = t \<Longrightarrow> asked X (resend_entry t e) = {(stage_of (status e), t)}"
  by (cases "status e") (auto simp: resend_entry_def entry_txid_def)

section \<open>Properties\<close>

text \<open>C20. No event makes the controller forget a transaction: what the mempool or the store holds
  is in one of them afterwards, whether or not the handler fails, unless the transaction was
  reported as invalid.\<close>

theorem known_txs_kept:
  assumes "keyed X (svc_storage s)" and "t \<in> known (svc_storage s)"
    and "\<And>ts. m = InvalidTxs ts \<Longrightarrow> t \<notin> set ts"
  shows "t \<in> known (svc_storage (snd (handle_controller_event X net m s))) \<and>
    keyed X (svc_storage (snd (handle_controller_event X net m s)))"
  using keepsR_D [OF keeps_event, of m "{t}" X s net] assms
  by (auto simp: on_storage_def knows_def)

text \<open>The inventory never grows past its maximal size, and an update keeps the newest ids.\<close>

lemma inventory_bounded:
  assumes "length (get_inventory (svc_storage s)) \<le> max_inv_size s"
  shows "length (get_inventory (svc_storage (snd (handle_controller_event X net m s)))) \<le>
      max_inv_size (snd (handle_controller_event X net m s)) \<and>
    update_inv inven txs n = drop (length (inven @ txs) - n) (inven @ txs)"
  using keepsR_D [OF bounded_event, of s X net m] assms by (simp add: inv_bounded_def update_inv_last)

text \<open>C8. Attached transactions move from the mempool to the store and are appended to the pages,
  of which all but the last are full.\<close>

theorem attached_txs_stored:
  assumes "keyed X (svc_storage s)" and "distinct ts"
    and "\<And>t. t \<in> set ts \<Longrightarrow> get_mempool_entry (svc_storage s) t \<noteq> None"
    and "tx_per_page s \<noteq> 0" and "pages_wf (tx_per_page s) (svc_storage s)"
    and "unat (last_page (svc_storage s)) + length ts < 2 ^ 64"
  shows "\<exists>st'. handle_attached_txs X ts s = (Inr (), s\<lparr>svc_storage := st'\<rparr>) \<and>
    (\<forall>t \<in> set ts. get_yuv_tx st' t = map_option yuv_tx (get_mempool_entry (svc_storage s) t) \<and>
       get_mempool_entry st' t = None \<and> t \<notin> set (raw_mempool_of st')) \<and>
    pages_wf (tx_per_page s) st' \<and> paged st' = paged (svc_storage s) @ ts"
  using handle_attached_ok [OF assms] by blast

text \<open>C31. A request of the controller survives a restart: if the event it handled last made it ask for
  the isolated check, the confirmation or the attachment of a transaction that is still in the
  mempool, a controller that starts on the same store asks for the same thing again and keeps the
  transaction in the mempool.\<close>

theorem restart_repeats_requests:
  assumes "keyed X (svc_storage s)" and "handle_controller_event X net m s = (Inr (), s')"
    and "(q, t) \<in> asked_between X s s'"
    and "t \<in> set (raw_mempool_of (svc_storage s'))" and "get_mempool_entry (svc_storage s') t = Some e"
    and "svc_storage r = svc_storage s'"
  shows "\<exists>r'. handle_mempool_txs r = (Inr (), r') \<and> (q, t) \<in> asked_between X r r' \<and>
    t \<in> set (raw_mempool_of (svc_storage r')) \<and> get_mempool_entry (svc_storage r') t = Some e"
proof -
  have stage: "entry_txid X e = t" "stage_of (status e) = q"
    using asked_stage [OF assms(2,1,3)] assms(5) by (auto simp: at_stage_def keyed_def)
  obtain r' where r': "handle_mempool_txs r = (Inr (), r')"
    "svc_sent r' = svc_sent r @ map (\<lambda>t. resend_entry t (the (get_mempool_entry (svc_storage r) t)))
       (filter (\<lambda>t. get_mempool_entry (svc_storage r) t \<noteq> None) (raw_mempool_of (svc_storage r)))"
    "raw_mempool_of (svc_storage r') = filter (\<lambda>t. get_mempool_entry (svc_storage r) t \<noteq> None) (raw_mempool_of (svc_storage r))"
    "get_mempool_entry (svc_storage r') = get_mempool_entry (svc_storage r)"
    using mempool_recovered [OF refl, of r] by blast
  have "resend_entry t e \<in> set (drop (length (svc_sent r)) (svc_sent r'))"
    using assms(4-6) r'(2) by (force intro!: image_eqI [of _ _ t])
  then have "(q, t) \<in> asked_between X r r'"
    using asked_resend_entry [OF stage(1)] stage(2) by (force simp: asked_between_def)
  with r' assms(4-6) show ?thesis by (intro exI [of _ r']) simp
qed

text \<open>C32. The entry of an invalid transaction is deleted before its sender is read, so no peer is
  ever banned for an invalid transaction.\<close>

theorem invalid_txs_never_ban:
  "\<exists>s'. handle_controller_event X net (InvalidTxs ts) s = (Inr (), s') \<and> p2p_sent s' = p2p_sent s \<and>
     (\<forall>t \<in> set ts. get_mempool_entry (svc_storage s') t = None \<and> t \<notin> set (raw_mempool_of (svc_storage s')))"
  by (auto simp: handle_invalid_txs_def thenR_def bindR_def service_eqs invalid_all fold_delete_entries
      raw_mempool_of_def clear_mempool_def)

text \<open>A peer that sends an announcement the node already knows makes the controller write a
  mempool entry that is not in the raw mempool, so a restart does not take it up again.\<close>

lemma known_announcement_lost_on_restart:
  assumes "is_tx_exist (yuv_txid X tx) (svc_storage s) = Some old" and "has_announcement old"
    and "yuv_txid X tx \<notin> set (raw_mempool_of (svc_storage s))"
  shows "\<exists>s' s''. handle_controller_event X net (InitializeTxs [tx]) s = (Inr (), s') \<and>
    get_mempool_entry (svc_storage s') (yuv_txid X tx) = Some \<lparr>yuv_tx = tx, status = Initialized, sender = None\<rparr> \<and>
    handle_mempool_txs s' = (Inr (), s'') \<and>
    svc_sent s'' = svc_sent s' @ map (\<lambda>t. resend_entry t (the (get_mempool_entry (svc_storage s') t)))
      (filter (\<lambda>t. get_mempool_entry (svc_storage s') t \<noteq> None) (raw_mempool_of (svc_storage s))) \<and>
    yuv_txid X tx \<notin> set (raw_mempool_of (svc_storage s''))"
proof -
  let ?e = "\<lparr>yuv_tx = tx, status = Initialized, sender = None\<rparr>"
  let ?s' = "s\<lparr>svc_storage := put_mempool_entry X ?e (svc_storage s),
    svc_sent := svc_sent s @ [ToTxChecker (IsolatedCheck [tx])]\<rparr>"
  have run: "handle_controller_event X net (InitializeTxs [tx]) s = (Inr (), ?s')"
    using assms by (simp add: handle_new_yuv_txs_def run_defs service_eqs whenR_def)
  have raw: "raw_mempool_of (svc_storage ?s') = raw_mempool_of (svc_storage s)"
    by (simp add: raw_mempool_of_def)
  have "get_mempool_entry (svc_storage ?s') (yuv_txid X tx) = Some ?e"
    by (simp add: get_mempool_entry_put entry_txid_def)
  with run raw assms(3) show ?thesis
    by (intro exI [of _ ?s'] exI [of _ "snd (handle_mempool_txs ?s')"])
       (auto simp: handle_mempool_txs_def run_defs service_eqs whenR_def resend_mempool_eq Let_def raw_mempool_of_def)
qed

text \<open>The controller answers a request for data with the transactions it knows, in the order of
  the request and the stored version first, and asks a peer exactly for the announced
  transactions it does not know or knows as issue announcements.\<close>

lemma peers_answered:
  assumes "\<And>c. net c"
  shows "(let st = svc_storage s;
      answer = concat (map (\<lambda>t. case get_yuv_tx st t of
          Some tx \<Rightarrow> [tx] | None \<Rightarrow> (case get_mempool_entry st t of None \<Rightarrow> [] | Some e \<Rightarrow> [yuv_tx e])) ts);
      missing = filter (\<lambda>t. case is_tx_exist t st of None \<Rightarrow> True | Some tx \<Rightarrow> is_issue_announcement tx) ts
    in handle_get_data net (map Ytx ts) peer s = (Inr (), s\<lparr>p2p_sent := p2p_sent s @
         (if answer = [] then [] else [SendYuvTxs answer peer])\<rparr>) \<and>
       handle_inv net (map Ytx ts) peer s = (Inr (), s\<lparr>p2p_sent := p2p_sent s @
         (if missing = [] then [] else [SendGetData (map Ytx missing) peer])\<rparr>))"
proof -
  have "response_txs (map Ytx ts) st = concat (map (\<lambda>t. case get_yuv_tx st t of
      Some tx \<Rightarrow> [tx] | None \<Rightarrow> (case get_mempool_entry st t of None \<Rightarrow> [] | Some e \<Rightarrow> [yuv_tx e])) ts)" for st
    by (induction ts) (auto split: option.splits)
  moreover have "missing_payload (map Ytx ts) st =
      map Ytx (filter (\<lambda>t. case is_tx_exist t st of None \<Rightarrow> True | Some tx \<Rightarrow> is_issue_announcement tx) ts)" for st
    by (induction ts) (auto split: option.splits)
  ultimately show ?thesis
    using assms
    by (simp add: Let_def handle_get_data_def handle_inv_def run_defs service_eqs whenR_def p2p_def)
qed

section \<open>Witnesses\<close>

definition sample_ytx :: "u32 \<Rightarrow> yuv_transaction" where
  "sample_ytx n = \<lparr>bitcoin_tx = sample_tx n, tx_type = Transfer [] []\<rparr>"

definition sample_known_announcement :: yuv_transaction where
  "sample_known_announcement = \<lparr>bitcoin_tx = sample_tx 4,
     tx_type = Announcement (IssueAnn \<lparr>ia_chroma = Chroma [], ia_amount = 5\<rparr>)\<rparr>"

definition sample_mempool :: storage where
  "sample_mempool = put_mempool [yuv_txid sample_ext (sample_ytx 1)]
     (put_yuv_tx sample_ext sample_known_announcement
        (put_mempool_entry sample_ext \<lparr>yuv_tx = sample_ytx 1, status = Attaching, sender = Some (sample_peer 7)\<rparr> empty_storage))"

definition sample_controller :: controller where
  "sample_controller = new_controller sample_mempool 2"

lemma sample_controller_simps [simp]:
  "svc_storage sample_controller = sample_mempool" "tx_per_page sample_controller = 2"
  "max_inv_size sample_controller = 100" "svc_sent sample_controller = []"
  by (simp_all add: sample_controller_def new_controller_def DEFAULT_INV_SIZE_def)

lemma sample_mempool_simps [simp]:
  "get_mempool_entry sample_mempool t = (if t = yuv_txid sample_ext (sample_ytx 1)
     then Some \<lparr>yuv_tx = sample_ytx 1, status = Attaching, sender = Some (sample_peer 7)\<rparr> else None)"
  "get_yuv_tx sample_mempool t = (if t = yuv_txid sample_ext sample_known_announcement
     then Some sample_known_announcement else None)"
  "raw_mempool_of sample_mempool = [yuv_txid sample_ext (sample_ytx 1)]"
  "get_inventory sample_mempool = []" "last_page sample_mempool = 0" "page_of sample_mempool k = []"
  by (simp_all add: sample_mempool_def get_mempool_entry_put get_yuv_tx_put entry_txid_def raw_mempool_of_def)
     (simp_all add: last_page_def page_of_def store_defs empty_storage_def)

lemma sample_keyed: "keyed sample_ext sample_mempool"
  by (simp add: keyed_def entry_txid_def)

lemma sample_txids_differ: "yuv_txid sample_ext sample_known_announcement \<noteq> yuv_txid sample_ext (sample_ytx 1)"
  by code_simp

theorem known_txs_kept_witness:
  "let s' = snd (handle_controller_event sample_ext (\<lambda>_. True) (AttachedTxs [yuv_txid sample_ext (sample_ytx 1)]) sample_controller)
   in yuv_txid sample_ext (sample_ytx 1) \<in> known (svc_storage s') \<and> keyed sample_ext (svc_storage s')"
  unfolding Let_def by (rule known_txs_kept) (simp_all add: sample_keyed known_iff)

lemma inventory_bounded_witness:
  "let s' = snd (handle_controller_event sample_ext (\<lambda>_. True) (MinedTxs [yuv_txid sample_ext (sample_ytx 1)]) sample_controller)
   in length (get_inventory (svc_storage s')) \<le> max_inv_size s' \<and>
     update_inv [1, 2, 3 :: nat] [4, 5] 4 = drop (length ([1, 2, 3 :: nat] @ [4, 5]) - 4) ([1, 2, 3] @ [4, 5])"
  unfolding Let_def by (rule inventory_bounded) simp

theorem attached_txs_stored_witness:
  "let s = sample_controller; ts = [yuv_txid sample_ext (sample_ytx 1)]
   in \<exists>st'. handle_attached_txs sample_ext ts s = (Inr (), s\<lparr>svc_storage := st'\<rparr>) \<and>
    (\<forall>t \<in> set ts. get_yuv_tx st' t = map_option yuv_tx (get_mempool_entry (svc_storage s) t) \<and>
       get_mempool_entry st' t = None \<and> t \<notin> set (raw_mempool_of st')) \<and>
    pages_wf (tx_per_page s) st' \<and> paged st' = paged (svc_storage s) @ ts"
  unfolding Let_def
  by (rule attached_txs_stored) (simp_all add: sample_keyed pages_wf_def)

theorem restart_repeats_requests_witness:
  "let t = yuv_txid sample_ext (sample_ytx 1);
       s' = snd (handle_controller_event sample_ext (\<lambda>_. True) (PartiallyCheckedTxs [t]) sample_controller);
       r = new_controller (svc_storage s') 2
   in \<exists>r'. handle_mempool_txs r = (Inr (), r') \<and> (AskConfirmation, t) \<in> asked_between sample_ext r r' \<and>
     t \<in> set (raw_mempool_of (svc_storage r')) \<and>
     get_mempool_entry (svc_storage r') t = Some \<lparr>yuv_tx = sample_ytx 1, status = WaitingMined, sender = Some (sample_peer 7)\<rparr>"
  unfolding Let_def
  by (rule restart_repeats_requests [of _ sample_controller "\<lambda>_. True" "PartiallyCheckedTxs [yuv_txid sample_ext (sample_ytx 1)]"])
     (simp add: sample_keyed, simp add: handle_partially_checked_txs_def set_status_def require_entry_def run_defs service_eqs,
      simp_all add: handle_partially_checked_txs_def set_status_def require_entry_def run_defs service_eqs
       asked_between_def get_mempool_entry_put entry_txid_def new_controller_def,
      simp add: raw_mempool_of_def sample_mempool_def)

theorem invalid_txs_never_ban_witness:
  "let s = sample_controller; ts = [yuv_txid sample_ext (sample_ytx 1)]
   in \<exists>s'. handle_controller_event sample_ext (\<lambda>_. True) (InvalidTxs ts) s = (Inr (), s') \<and> p2p_sent s' = p2p_sent s \<and>
     (\<forall>t \<in> set ts. get_mempool_entry (svc_storage s') t = None \<and> t \<notin> set (raw_mempool_of (svc_storage s')))"
  unfolding Let_def by (rule invalid_txs_never_ban)

lemma known_announcement_lost_on_restart_witness:
  "let s = sample_controller; tx = sample_known_announcement
   in \<exists>s' s''. handle_controller_event sample_ext (\<lambda>_. True) (InitializeTxs [tx]) s = (Inr (), s') \<and>
    get_mempool_entry (svc_storage s') (yuv_txid sample_ext tx) = Some \<lparr>yuv_tx = tx, status = Initialized, sender = None\<rparr> \<and>
    handle_mempool_txs s' = (Inr (), s'') \<and>
    svc_sent s'' = svc_sent s' @ map (\<lambda>t. resend_entry t (the (get_mempool_entry (svc_storage s') t)))
      (filter (\<lambda>t. get_mempool_entry (svc_storage s') t \<noteq> None) (raw_mempool_of (svc_storage s))) \<and>
    yuv_txid sample_ext tx \<notin> set (raw_mempool_of (svc_storage s''))"
  unfolding Let_def
  by (rule known_announcement_lost_on_restart [where old = sample_known_announcement])
     (simp_all add: is_tx_exist_def sample_txids_differ, simp add: has_announcement_def sample_known_announcement_def)

lemma peers_answered_witness:
  "let s = sample_controller; st = svc_storage s; ts = [yuv_txid sample_ext (sample_ytx 1), [9]];
      answer = concat (map (\<lambda>t. case get_yuv_tx st t of
          Some tx \<Rightarrow> [tx] | None \<Rightarrow> (case get_mempool_entry st t of None \<Rightarrow> [] | Some e \<Rightarrow> [yuv_tx e])) ts);
      missing = filter (\<lambda>t. case is_tx_exist t st of None \<Rightarrow> True | Some tx \<Rightarrow> is_issue_announcement tx) ts
    in handle_get_data (\<lambda>_. True) (map Ytx ts) (sample_peer 3) s = (Inr (), s\<lparr>p2p_sent := p2p_sent s @
         (if answer = [] then [] else [SendYuvTxs answer (sample_peer 3)])\<rparr>) \<and>
       handle_inv (\<lambda>_. True) (map Ytx ts) (sample_peer 3) s = (Inr (), s\<lparr>p2p_sent := p2p_sent s @
         (if missing = [] then [] else [SendGetData (map Ytx missing) (sample_peer 3)])\<rparr>)"
  unfolding Let_def by (rule peers_answered [unfolded Let_def]) simp

end
