(* ===== verification/Bitcoin_Rpc.thy ===== *)
theory Bitcoin_Rpc
  imports Transactions
begin

text \<open>
  What the services ask the Bitcoin node for (\<open>bitcoin-client/src/rpc_api.rs\<close>). The answers
  are those of a remote node, so the client is a record of functions that the definitions of
  the services take as an argument. Of \<open>getrawtransaction\<close> only the number of confirmations
  is read; it is missing for a transaction that is not in a block. The amount that
  \<open>sendrawtransaction\<close> may burn is in satoshis.
\<close>

datatype rpc_error = JsonRpcCode int | OtherRpcError

record bitcoin_rpc =
  get_raw_transaction_info :: "txid \<Rightarrow> rpc_error + u32 option"
  get_block_info :: "block_hash \<Rightarrow> rpc_error + block"
  get_block_txs :: "block_hash \<Rightarrow> rpc_error + block"
  get_block_count :: "rpc_error + nat"
  get_block_hash :: "nat \<Rightarrow> rpc_error + block_hash"
  get_raw_transaction :: "txid \<Rightarrow> block_hash option \<Rightarrow> rpc_error + transaction"
  send_raw_transaction_opts :: "transaction \<Rightarrow> u64 option \<Rightarrow> rpc_error + txid"

text \<open>A height is a \<open>usize\<close>: taking one from zero wraps.\<close>

definition usize_pred :: "nat \<Rightarrow> nat" where
  "usize_pred n = (if n = 0 then 2 ^ 64 - 1 else n - 1)"

lemma usize_pred_Suc [simp]: "usize_pred (Suc n) = n" "0 < n \<Longrightarrow> usize_pred n = n - 1"
  by (simp_all add: usize_pred_def)

end
