(* ===== verification/Tx_Confirm.thy ===== *)
theory Tx_Confirm
  imports Services Bitcoin_Rpc
begin

text \<open>
  The confirmator (\<open>tx-confirm/src/lib.rs\<close>): it keeps the blocks that are not deep enough
  and the transactions that wait, announces a waiting transaction when its block is deep
  enough, and on a reorganization goes back to the last block both branches share.
  Times are seconds; \<open>rpc\<close> is the client of the Bitcoin node.
\<close>

section \<open>State\<close>

record block_info =
  bi_hash :: block_hash
  bi_txs :: "txid list"

record tx_confirmator =
  tc_sent :: "bus_message list"
  queue :: "(txid \<times> nat) list"
  max_confirmation_time :: nat
  clean_up_interval :: nat
  confirmations_number :: u8
  latest_blocks :: "block_info list"

datatype confirm_error =
    ForkLengthTooBig
  | PreviousBlockHashMissing
  | ConfirmRpc rpc_error
  | ElapsedPanic

type_synonym 'a confirm = "(tx_confirmator, confirm_error, 'a) run"

definition block_info_from :: "bitcoin_ext \<Rightarrow> block \<Rightarrow> block_info" where
  "block_info_from X b = \<lparr>bi_hash = block_hash b, bi_txs = map (x_txid X) (block_tx b)\<rparr>"

definition new_tx_confirmator :: "nat \<Rightarrow> nat \<Rightarrow> u8 \<Rightarrow> tx_confirmator" where
  "new_tx_confirmator max_time interval n =
     \<lparr>tc_sent = [], queue = [], max_confirmation_time = max_time, clean_up_interval = interval,
      confirmations_number = n, latest_blocks = []\<rparr>"

definition send_controller :: "controller_message \<Rightarrow> unit confirm" where
  "send_controller m = modR (\<lambda>s. s\<lparr>tc_sent := tc_sent s @ [ToController m]\<rparr>)"

definition remove_waiting :: "txid list \<Rightarrow> (txid \<times> nat) list \<Rightarrow> (txid \<times> nat) list" where
  "remove_waiting ts q = foldl (\<lambda>q t. AList.delete t q) q ts"

section \<open>Operations\<close>

definition extract_waiting_txs_from_block :: "tx_confirmator \<Rightarrow> block_info \<Rightarrow> txid list" where
  "extract_waiting_txs_from_block s b = filter (\<lambda>t. map_of (queue s) t \<noteq> None) (bi_txs b)"

definition handle_mined_txs_confirm :: "txid list \<Rightarrow> unit confirm" where
  "handle_mined_txs_confirm ts = whenR (ts \<noteq> []) (send_controller (MinedTxs ts))"

definition new_confirmed_txs :: "txid list \<Rightarrow> unit confirm" where
  "new_confirmed_txs ts =
     thenR (modR (\<lambda>s. s\<lparr>queue := remove_waiting ts (queue s)\<rparr>))
       (send_controller (ConfirmedTxs ts))"

definition handle_tx_to_confirm :: "bitcoin_rpc \<Rightarrow> nat \<Rightarrow> txid \<Rightarrow> unit confirm" where
  "handle_tx_to_confirm rpc now t =
     thenR (modR (\<lambda>s. if map_of (queue s) t = None then s\<lparr>queue := AList.update t now (queue s)\<rparr> else s))
       (case get_raw_transaction_info rpc t of
          Inl e \<Rightarrow> if e = JsonRpcCode (- 5) then retR () else failR (ConfirmRpc e)
        | Inr None \<Rightarrow> retR ()
        | Inr (Some confirmations) \<Rightarrow>
            thenR (handle_mined_txs_confirm [t])
              (bindR (getR confirmations_number) (\<lambda>n.
                 whenR (ucast n \<le> confirmations) (new_confirmed_txs [t]))))"

text \<open>
  The loop of \<open>handle_reorg\<close> on the blocks from the newest one: the waiting transactions of
  the orphaned blocks and the height to index from, and the blocks that are left.
\<close>

fun reorg_loop ::
  "bitcoin_rpc \<Rightarrow> tx_confirmator \<Rightarrow> block_info list \<Rightarrow> block_hash option \<Rightarrow> nat \<Rightarrow> txid list \<Rightarrow>
   (confirm_error + txid list \<times> nat) \<times> block_info list" where
  "reorg_loop rpc s [] prev height reorged = (Inl ForkLengthTooBig, [])"
| "reorg_loop rpc s (last_block # bs) prev height reorged =
     (case prev of
        None \<Rightarrow> (Inl PreviousBlockHashMissing, bs)
      | Some current \<Rightarrow>
          let height = usize_pred height in
          if bi_hash last_block = current then (Inr (reorged, height), last_block # bs)
          else (case get_block_info rpc current of
                  Inl e \<Rightarrow> (Inl (ConfirmRpc e), bs)
                | Inr prev_block \<Rightarrow>
                    reorg_loop rpc s bs (previousblockhash prev_block) height
                      (reorged @ extract_waiting_txs_from_block s last_block)))"

definition handle_reorg :: "bitcoin_rpc \<Rightarrow> block \<Rightarrow> unit confirm" where
  "handle_reorg rpc new_block s =
     (case reorg_loop rpc s (rev (latest_blocks s)) (previousblockhash new_block) (block_height new_block) [] of
        (Inl e, bs) \<Rightarrow> (Inl e, s\<lparr>latest_blocks := rev bs\<rparr>)
      | (Inr (reorged, height), bs) \<Rightarrow>
          send_controller (Reorganization reorged height)
            (s\<lparr>latest_blocks := rev bs, queue := remove_waiting reorged (queue s)\<rparr>))"

definition reorg_needed :: "block \<Rightarrow> block_info list \<Rightarrow> bool" where
  "reorg_needed b latest \<longleftrightarrow>
     (case previousblockhash b of
        None \<Rightarrow> False
      | Some prev \<Rightarrow> latest \<noteq> [] \<and> bi_hash (last latest) \<noteq> prev)"

text \<open>The part of \<open>handle_new_block\<close> that follows the push of a block.\<close>

definition confirm_oldest :: "unit confirm" where
  "confirm_oldest s =
     (if length (latest_blocks s) = unat (confirmations_number s) then
        (case latest_blocks s of
           [] \<Rightarrow> (Inr (), s)
         | confirmed # bs \<Rightarrow>
             let s = s\<lparr>latest_blocks := bs\<rparr>;
                 txs = extract_waiting_txs_from_block s confirmed
             in if txs \<noteq> [] then new_confirmed_txs txs s else (Inr (), s))
      else (Inr (), s))"

definition handle_new_block :: "bitcoin_ext \<Rightarrow> bitcoin_rpc \<Rightarrow> block \<Rightarrow> unit confirm" where
  "handle_new_block X rpc b =
     bindR (getR latest_blocks) (\<lambda>latest.
     if reorg_needed b latest then handle_reorg rpc b
     else let bi = block_info_from X b in
       bindR (getR (\<lambda>s. extract_waiting_txs_from_block s bi)) (\<lambda>mined.
       thenR (modR (\<lambda>s. s\<lparr>latest_blocks := latest_blocks s @ [bi]\<rparr>))
         (thenR (handle_mined_txs_confirm mined) confirm_oldest)))"

fun handle_confirm_event ::
  "bitcoin_ext \<Rightarrow> bitcoin_rpc \<Rightarrow> nat \<Rightarrow> tx_confirm_message \<Rightarrow> unit confirm" where
  "handle_confirm_event X rpc now (ConfirmTxs ts) = forR (handle_tx_to_confirm rpc now) ts"
| "handle_confirm_event X rpc now (ConfirmBlock b) = handle_new_block X rpc b"

text \<open>\<open>elapsed().unwrap()\<close> panics when the clock has gone back.\<close>

definition clean_up_entry :: "nat \<Rightarrow> txid \<times> nat \<Rightarrow> unit confirm" where
  "clean_up_entry now e =
     (case e of (t, created_at) \<Rightarrow>
        if now < created_at then failR ElapsedPanic
        else modR (\<lambda>s. if max_confirmation_time s < now - created_at
                       then s\<lparr>queue := AList.delete t (queue s)\<rparr> else s))"

definition clean_up_waiting_txs :: "nat \<Rightarrow> unit confirm" where
  "clean_up_waiting_txs now = bindR (getR queue) (\<lambda>q. forR (clean_up_entry now) q)"

text \<open>
  A turn of the loop of \<open>run\<close>: an event arrives or the timer of the clean-up ticks. An error of a
  handler is logged; it also cancels the node when it comes from an event.
\<close>

datatype confirm_turn = EventReceived tx_confirm_message | CleanUpTick

fun confirmator_turn :: "bitcoin_ext \<Rightarrow> bitcoin_rpc \<times> nat \<times> confirm_turn \<Rightarrow> tx_confirmator \<Rightarrow> tx_confirmator" where
  "confirmator_turn X (rpc, now, EventReceived m) s = snd (handle_confirm_event X rpc now m s)"
| "confirmator_turn X (rpc, now, CleanUpTick) s = snd (clean_up_waiting_txs now s)"

definition confirmator_run :: "bitcoin_ext \<Rightarrow> (bitcoin_rpc \<times> nat \<times> confirm_turn) list \<Rightarrow> tx_confirmator \<Rightarrow> tx_confirmator" where
  "confirmator_run X turns s = fold (confirmator_turn X) turns s"

section \<open>The queue and the window of blocks\<close>

lemma map_of_remove_waiting [simp]:
  "map_of (remove_waiting ts q) t = (if t \<in> set ts then None else map_of q t)"
  unfolding remove_waiting_def by (induction ts arbitrary: q) (auto simp: hash_map.get_del)

definition waiting :: "tx_confirmator \<Rightarrow> txid set" where
  "waiting s = {t. map_of (queue s) t \<noteq> None}"

lemma set_extract_waiting [simp]:
  "set (extract_waiting_txs_from_block s b) = set (bi_txs b) \<inter> waiting s"
  by (auto simp: extract_waiting_txs_from_block_def waiting_def)

lemma confirm_eqs:
  "send_controller m s = (Inr (), s\<lparr>tc_sent := tc_sent s @ [ToController m]\<rparr>)"
  "handle_mined_txs_confirm ts s =
     (Inr (), if ts = [] then s else s\<lparr>tc_sent := tc_sent s @ [ToController (MinedTxs ts)]\<rparr>)"
  "new_confirmed_txs ts s = (Inr (), s\<lparr>queue := remove_waiting ts (queue s),
     tc_sent := tc_sent s @ [ToController (ConfirmedTxs ts)]\<rparr>)"
  by (simp_all add: send_controller_def handle_mined_txs_confirm_def new_confirmed_txs_def whenR_def
      run_defs)

text \<open>What a step sends: the ids it announces as confirmed and those it gives back after a
  reorganization.\<close>

fun confirmed_in :: "bus_message \<Rightarrow> txid list" where
  "confirmed_in (ToController (ConfirmedTxs ts)) = ts"
| "confirmed_in _ = []"

fun reorged_in :: "bus_message \<Rightarrow> txid list" where
  "reorged_in (ToController (Reorganization ts _)) = ts"
| "reorged_in _ = []"

definition new_sent :: "tx_confirmator \<Rightarrow> tx_confirmator \<Rightarrow> bus_message list" where
  "new_sent s s' = drop (length (tc_sent s)) (tc_sent s')"

definition confirmed_by :: "tx_confirmator \<Rightarrow> tx_confirmator \<Rightarrow> txid set" where
  "confirmed_by s s' = (\<Union>m \<in> set (new_sent s s'). set (confirmed_in m))"

definition reorged_by :: "tx_confirmator \<Rightarrow> tx_confirmator \<Rightarrow> txid set" where
  "reorged_by s s' = (\<Union>m \<in> set (new_sent s s'). set (reorged_in m))"

text \<open>Steps only append to what was sent, and the sets of two steps in a row add up.\<close>

definition extends_sent :: "tx_confirmator \<Rightarrow> tx_confirmator \<Rightarrow> bool" where
  "extends_sent s s' \<longleftrightarrow> (\<exists>ms. tc_sent s' = tc_sent s @ ms)"

lemma extends_sentI: "tc_sent s' = tc_sent s @ ms \<Longrightarrow> extends_sent s s'"
  by (auto simp: extends_sent_def)

lemma extends_sent_trans: "extends_sent s s' \<Longrightarrow> extends_sent s' s'' \<Longrightarrow> extends_sent s s''"
  by (auto simp: extends_sent_def)

lemma sent_sets_append:
  assumes "extends_sent s s'" and "extends_sent s' s''"
  shows "confirmed_by s s'' = confirmed_by s s' \<union> confirmed_by s' s''"
    and "reorged_by s s'' = reorged_by s s' \<union> reorged_by s' s''"
  using assms by (auto simp: extends_sent_def confirmed_by_def reorged_by_def new_sent_def)

lemma sent_sets_same [simp]: "tc_sent s' = tc_sent s \<Longrightarrow> confirmed_by s s' = {} \<and> reorged_by s s' = {}"
  by (simp add: confirmed_by_def reorged_by_def new_sent_def)

text \<open>A block that links to the newest one.\<close>

lemma handle_new_block_linked:
  assumes "\<not> reorg_needed b (latest_blocks s)"
  shows "handle_new_block X rpc b s =
    (let bi = block_info_from X b;
         mined = extract_waiting_txs_from_block s bi;
         s1 = s\<lparr>latest_blocks := latest_blocks s @ [bi],
                tc_sent := tc_sent s @ (if mined = [] then [] else [ToController (MinedTxs mined)])\<rparr>
     in confirm_oldest s1)"
  using assms by (simp add: handle_new_block_def run_defs confirm_eqs Let_def)

lemma confirm_oldest_spec:
  assumes "length (latest_blocks s) = unat (confirmations_number s)" and "latest_blocks s = c # bs"
  shows "\<exists>s'. confirm_oldest s = (Inr (), s') \<and> latest_blocks s' = bs \<and>
    confirmations_number s' = confirmations_number s \<and> extends_sent s s' \<and>
    confirmed_by s s' = set (bi_txs c) \<inter> waiting s \<and> reorged_by s s' = {} \<and>
    waiting s' = waiting s - set (bi_txs c)"
proof -
  have "set (extract_waiting_txs_from_block (s\<lparr>latest_blocks := bs\<rparr>) c) = set (bi_txs c) \<inter> waiting s"
    by (simp add: waiting_def)
  then show ?thesis
    using assms
    by (cases "extract_waiting_txs_from_block (s\<lparr>latest_blocks := bs\<rparr>) c = []")
       (auto simp: confirm_oldest_def Let_def confirm_eqs extends_sent_def confirmed_by_def
        reorged_by_def new_sent_def waiting_def)
qed

text \<open>\<open>in_window\<close>: fewer blocks are kept than a confirmation takes.\<close>

definition in_window :: "tx_confirmator \<Rightarrow> bool" where
  "in_window s \<longleftrightarrow> length (latest_blocks s) < unat (confirmations_number s)"

text \<open>
  Of a sequence of blocks, the ones that have \<open>n\<close> confirmations and the younger ones.
  \<open>settles s bs s'\<close>: from \<open>s\<close> to \<open>s'\<close> the blocks \<open>bs\<close> have arrived.
\<close>

definition deep_blocks :: "nat \<Rightarrow> block_info list \<Rightarrow> block_info list" where
  "deep_blocks n bs = take (length bs + 1 - n) bs"

definition young_blocks :: "nat \<Rightarrow> block_info list \<Rightarrow> block_info list" where
  "young_blocks n bs = drop (length bs + 1 - n) bs"

definition txs_of :: "block_info list \<Rightarrow> txid set" where
  "txs_of bs = (\<Union>b \<in> set bs. set (bi_txs b))"

lemma deep_young_append:
  assumes "length bs < n"
  shows "young_blocks n (young_blocks n (bs @ [b]) @ cs) = young_blocks n (bs @ b # cs)"
    and "deep_blocks n (bs @ b # cs) = deep_blocks n (bs @ [b]) @ deep_blocks n (young_blocks n (bs @ [b]) @ cs)"
proof -
  have "young_blocks n (young_blocks n (bs @ [b]) @ cs) = young_blocks n (bs @ b # cs) \<and>
    deep_blocks n (bs @ b # cs) = deep_blocks n (bs @ [b]) @ deep_blocks n (young_blocks n (bs @ [b]) @ cs)"
  proof (cases "length bs + 1 = n")
    case True
    then show ?thesis by (cases bs) (auto simp: young_blocks_def deep_blocks_def)
  next
    case False
    with assms show ?thesis by (simp add: young_blocks_def deep_blocks_def)
  qed
  then show "young_blocks n (young_blocks n (bs @ [b]) @ cs) = young_blocks n (bs @ b # cs)"
    and "deep_blocks n (bs @ b # cs) = deep_blocks n (bs @ [b]) @ deep_blocks n (young_blocks n (bs @ [b]) @ cs)"
    by simp_all
qed

definition settles :: "tx_confirmator \<Rightarrow> block_info list \<Rightarrow> tx_confirmator \<Rightarrow> bool" where
  "settles s bs s' \<longleftrightarrow>
     in_window s' \<and> confirmations_number s' = confirmations_number s \<and>
     extends_sent s s' \<and> reorged_by s s' = {} \<and>
     latest_blocks s' = young_blocks (unat (confirmations_number s)) (latest_blocks s @ bs) \<and>
     confirmed_by s s' = txs_of (deep_blocks (unat (confirmations_number s)) (latest_blocks s @ bs)) \<inter> waiting s \<and>
     waiting s' = waiting s - txs_of (deep_blocks (unat (confirmations_number s)) (latest_blocks s @ bs))"

lemma settlesD:
  assumes "settles s bs s'"
  shows "in_window s'" "confirmations_number s' = confirmations_number s" "extends_sent s s'"
    "reorged_by s s' = {}"
    "latest_blocks s' = young_blocks (unat (confirmations_number s)) (latest_blocks s @ bs)"
    "confirmed_by s s' = txs_of (deep_blocks (unat (confirmations_number s)) (latest_blocks s @ bs)) \<inter> waiting s"
    "waiting s' = waiting s - txs_of (deep_blocks (unat (confirmations_number s)) (latest_blocks s @ bs))"
  using assms by (simp_all only: settles_def)

lemma settles_trans:
  assumes "in_window s" and one: "settles s [b] s1" and rest: "settles s1 bs s'"
  shows "settles s (b # bs) s'"
proof -
  let ?n = "unat (confirmations_number s)"
  have n: "length (latest_blocks s) < ?n" using assms(1) by (simp add: in_window_def)
  note rest = settlesD [OF rest, unfolded settlesD(2,5) [OF one]]
  note one = settlesD [OF one]
  note cut = deep_young_append [OF n, of b bs]
  note sums = sent_sets_append [OF one(3) rest(3)]
  have deep: "txs_of (deep_blocks ?n (latest_blocks s @ b # bs)) =
      txs_of (deep_blocks ?n (latest_blocks s @ [b])) \<union>
      txs_of (deep_blocks ?n (young_blocks ?n (latest_blocks s @ [b]) @ bs))"
    by (simp add: cut(2) txs_of_def)
  show ?thesis
    unfolding settles_def
  proof (intro conjI)
    show "extends_sent s s'" using one(3) rest(3) by (rule extends_sent_trans)
    show "latest_blocks s' = young_blocks ?n (latest_blocks s @ b # bs)" using rest(5) cut(1) by simp
    show "confirmed_by s s' = txs_of (deep_blocks ?n (latest_blocks s @ b # bs)) \<inter> waiting s"
      unfolding sums(1) deep one(6) rest(6) one(7) by blast
    show "waiting s' = waiting s - txs_of (deep_blocks ?n (latest_blocks s @ b # bs))"
      unfolding deep rest(7) one(7) by blast
  qed (use one rest sums in simp_all)
qed

lemma handle_new_block_step:
  assumes "\<not> reorg_needed b (latest_blocks s)" and "in_window s"
  shows "\<exists>s'. handle_new_block X rpc b s = (Inr (), s') \<and> settles s [block_info_from X b] s'"
proof -
  define bi where "bi = block_info_from X b"
  define mined where "mined = extract_waiting_txs_from_block s bi"
  define s1 where "s1 = s\<lparr>latest_blocks := latest_blocks s @ [bi],
    tc_sent := tc_sent s @ (if mined = [] then [] else [ToController (MinedTxs mined)])\<rparr>"
  have run: "handle_new_block X rpc b s = confirm_oldest s1"
    using handle_new_block_linked [OF assms(1)] by (simp add: Let_def s1_def mined_def bi_def)
  have f1: "latest_blocks s1 = latest_blocks s @ [bi]" "confirmations_number s1 = confirmations_number s"
    "waiting s1 = waiting s"
    by (simp_all add: s1_def waiting_def)
  have e1: "extends_sent s s1" by (simp add: s1_def extends_sent_def)
  have c1: "confirmed_by s s1 = {}" "reorged_by s s1 = {}"
    by (simp_all add: s1_def confirmed_by_def reorged_by_def new_sent_def)
  show ?thesis
  proof (cases "length (latest_blocks s1) = unat (confirmations_number s)")
    case True
    then obtain c bs where bs: "latest_blocks s @ [bi] = c # bs" by (cases "latest_blocks s") (auto simp: f1)
    from confirm_oldest_spec [of s1 c bs] True f1 bs obtain s' where s': "confirm_oldest s1 = (Inr (), s')"
      "latest_blocks s' = bs" "confirmations_number s' = confirmations_number s" "extends_sent s1 s'"
      "confirmed_by s1 s' = set (bi_txs c) \<inter> waiting s" "reorged_by s1 s' = {}"
      "waiting s' = waiting s - set (bi_txs c)" by auto
    have n: "unat (confirmations_number s) = Suc (length bs)" using True f1 bs by simp
    have "settles s [bi] s'"
      unfolding settles_def
      using s' e1 c1 sent_sets_append [OF e1 s'(4)]
      by (simp add: in_window_def n bs young_blocks_def deep_blocks_def txs_of_def
          extends_sent_trans [OF e1 s'(4)])
    with run s' show ?thesis by (simp add: bi_def)
  next
    case False
    then have n: "length (latest_blocks s) + 1 < unat (confirmations_number s)"
      using f1 assms(2) by (simp add: in_window_def)
    with False f1 have "confirm_oldest s1 = (Inr (), s1)" by (simp add: confirm_oldest_def)
    moreover have "settles s [bi] s1"
      unfolding settles_def
      using n f1 e1 c1 by (simp add: in_window_def young_blocks_def deep_blocks_def txs_of_def)
    ultimately show ?thesis using run by (simp add: bi_def)
  qed
qed

text \<open>\<open>linked h bs\<close>: the blocks follow each other, the first one a block with the hash \<open>h\<close>.\<close>

fun linked :: "block_hash option \<Rightarrow> block list \<Rightarrow> bool" where
  "linked h [] = True"
| "linked h (b # bs) =
     ((case h of None \<Rightarrow> True | Some h \<Rightarrow> previousblockhash b = Some h) \<and> linked (Some (block_hash b)) bs)"

definition newest :: "block_info list \<Rightarrow> block_hash option" where
  "newest latest = (if latest = [] then None else Some (bi_hash (last latest)))"

lemma linked_not_reorg: "linked (newest latest) (b # bs) \<Longrightarrow> \<not> reorg_needed b latest"
  by (auto simp: newest_def reorg_needed_def split: if_splits option.splits)

lemma linked_None: "linked h bs \<Longrightarrow> linked None bs"
  by (cases bs) auto

lemma linked_step:
  assumes "linked (newest latest) (b # bs)"
  shows "linked (newest (young_blocks n (latest @ [block_info_from X b]))) bs"
proof (cases "length latest + 2 - n \<le> length latest")
  case True
  then have "young_blocks n (latest @ [block_info_from X b]) =
      drop (length latest + 2 - n) latest @ [block_info_from X b]"
    by (simp add: young_blocks_def)
  with assms show ?thesis by (simp add: newest_def block_info_from_def)
next
  case False
  then have "young_blocks n (latest @ [block_info_from X b]) = []" by (simp add: young_blocks_def)
  moreover have "linked None bs" using assms linked_None [of "Some (block_hash b)" bs] by simp
  ultimately show ?thesis by (simp add: newest_def)
qed

lemma settles_Nil: "in_window s \<Longrightarrow> settles s [] s"
  by (auto simp: settles_def in_window_def extends_sent_def young_blocks_def deep_blocks_def txs_of_def)

lemma blocks_run:
  assumes "linked (newest (latest_blocks s)) blocks" and "in_window s"
  shows "\<exists>s'. forR (handle_new_block X rpc) blocks s = (Inr (), s') \<and>
    settles s (map (block_info_from X) blocks) s'"
  using assms
proof (induction blocks arbitrary: s)
  case Nil
  then show ?case by (simp add: retR_def settles_Nil)
next
  case (Cons b blocks)
  obtain s1 where s1: "handle_new_block X rpc b s = (Inr (), s1)" "settles s [block_info_from X b] s1"
    using handle_new_block_step [OF linked_not_reorg [OF Cons.prems(1)] Cons.prems(2)] by blast
  have "linked (newest (latest_blocks s1)) blocks"
    unfolding settlesD(5) [OF s1(2)] by (rule linked_step [OF Cons.prems(1)])
  from Cons.IH [OF this settlesD(1) [OF s1(2)]] obtain s' where s':
    "forR (handle_new_block X rpc) blocks s1 = (Inr (), s')" "settles s1 (map (block_info_from X) blocks) s'"
    by blast
  from settles_trans [OF Cons.prems(2) s1(2) s'(2)] s1(1) s'(1) show ?case
    by (simp add: bindR_def)
qed

section \<open>Reorganizations\<close>

text \<open>
  \<open>back_chain rpc prev hs last\<close>: the hashes \<open>hs\<close> are met on the way back from \<open>prev\<close> over
  the blocks the node knows, and \<open>last\<close> comes after them.
\<close>

fun back_chain ::
  "bitcoin_rpc \<Rightarrow> block_hash option \<Rightarrow> block_hash list \<Rightarrow> block_hash option \<Rightarrow> bool" where
  "back_chain rpc prev [] last_hash \<longleftrightarrow> prev = last_hash"
| "back_chain rpc prev (h # hs) last_hash \<longleftrightarrow>
     prev = Some h \<and>
     (\<exists>b. get_block_info rpc h = Inr b \<and> back_chain rpc (previousblockhash b) hs last_hash)"

abbreviation other_branch :: "block_info list \<Rightarrow> block_hash list \<Rightarrow> bool" where
  "other_branch \<equiv> list_all2 (\<lambda>b h. bi_hash b \<noteq> h)"

lemma reorg_loop_found:
  "back_chain rpc prev hs (Some (bi_hash c)) \<Longrightarrow> other_branch orphans hs \<Longrightarrow> length hs < height \<Longrightarrow>
   reorg_loop rpc s (orphans @ c # bs) prev height acc =
     (Inr (acc @ concat (map (extract_waiting_txs_from_block s) orphans), height - length hs - 1), c # bs)"
proof (induction hs arbitrary: prev orphans height acc)
  case (Cons h hs)
  then obtain b o' os where "get_block_info rpc h = Inr b" "back_chain rpc (previousblockhash b) hs (Some (bi_hash c))"
    "orphans = o' # os" "prev = Some h" "bi_hash o' \<noteq> h" "other_branch os hs"
    by (auto simp: list_all2_Cons2)
  with Cons.IH [of "previousblockhash b" os "height - 1"] Cons.prems(3) show ?case
    by (simp add: Let_def)
qed simp

lemma reorg_loop_exhausted:
  "back_chain rpc prev hs last_hash \<Longrightarrow> other_branch bs hs \<Longrightarrow>
   reorg_loop rpc s bs prev height acc = (Inl ForkLengthTooBig, [])"
proof (induction hs arbitrary: prev bs height acc)
  case (Cons h hs)
  then obtain b o' os where "get_block_info rpc h = Inr b" "back_chain rpc (previousblockhash b) hs last_hash"
    "bs = o' # os" "prev = Some h" "bi_hash o' \<noteq> h" "other_branch os hs"
    by (auto simp: list_all2_Cons2)
  with Cons.IH [of "previousblockhash b" os] show ?case by (simp add: Let_def)
qed simp

lemma reorg_loop_shrinks: "length (snd (reorg_loop rpc s bs prev height acc)) \<le> length bs"
  by (induction rpc s bs prev height acc rule: reorg_loop.induct)
     (auto simp: Let_def le_Suc_eq split: option.splits sum.splits)

lemma reorg_loop_reorged:
  "reorg_loop rpc s bs prev height acc = (Inr (txs, h), bs') \<Longrightarrow> set acc \<subseteq> waiting s \<Longrightarrow> set txs \<subseteq> waiting s"
  by (induction rpc s bs prev height acc rule: reorg_loop.induct)
     (auto simp: Let_def split: option.splits sum.splits if_splits)

lemma handle_new_block_reorg:
  "reorg_needed b (latest_blocks s) \<Longrightarrow> handle_new_block X rpc b s = handle_reorg rpc b s"
  by (simp add: handle_new_block_def bindR_def getR_def)

lemma back_chain_linked:
  assumes "linked None cs" and "\<And>b. b \<in> set cs \<Longrightarrow> get_block_info rpc (block_hash b) = Inr b"
    and "k < length cs" and "m \<le> k"
  shows "\<exists>last_hash. back_chain rpc (previousblockhash (cs ! k))
    (map (\<lambda>d. block_hash (cs ! (k - 1 - d))) [0..<m]) last_hash"
  using assms(3,4)
proof (induction m arbitrary: k)
  case (Suc m)
  have prev: "linked h cs \<Longrightarrow> Suc i < length cs \<Longrightarrow> previousblockhash (cs ! Suc i) = Some (block_hash (cs ! i))" for h cs i
  proof (induction cs arbitrary: h i)
    case (Cons b cs)
    then show ?case using Cons.IH [of "Some (block_hash b)" "i - 1"] by (cases i; cases cs) auto
  qed simp
  obtain j where k: "k = Suc j" using Suc.prems by (cases k) auto
  obtain l where "back_chain rpc (previousblockhash (cs ! j))
      (map (\<lambda>d. block_hash (cs ! (j - 1 - d))) [0..<m]) l"
    using Suc.IH [of j] Suc.prems k by auto
  moreover have "map (\<lambda>d. block_hash (cs ! (k - 1 - d))) [0..<Suc m] =
      block_hash (cs ! j) # map (\<lambda>d. block_hash (cs ! (j - 1 - d))) [0..<m]"
    by (simp add: k upt_conv_Cons map_Suc_upt [symmetric] comp_def del: upt_Suc)
  moreover have "get_block_info rpc (block_hash (cs ! j)) = Inr (cs ! j)"
    using assms(2) Suc.prems k by simp
  ultimately show ?case
    using prev [OF assms(1), of j] Suc.prems k by auto
next
  case 0
  show ?case by (intro exI) simp
qed

section \<open>Nothing that waits is lost\<close>

text \<open>\<open>accounted s s'\<close>: from \<open>s\<close> to \<open>s'\<close> an entry of the queue stays as it is, or is announced.\<close>

definition accounted :: "tx_confirmator \<Rightarrow> tx_confirmator \<Rightarrow> bool" where
  "accounted s s' \<longleftrightarrow>
     extends_sent s s' \<and> max_confirmation_time s' = max_confirmation_time s \<and>
     (\<forall>t c. map_of (queue s) t = Some c \<longrightarrow> map_of (queue s') t = Some c \<or> t \<in> confirmed_by s s' \<or> t \<in> reorged_by s s')"

definition accounts :: "'a confirm \<Rightarrow> bool" where
  "accounts m \<longleftrightarrow> (\<forall>s. accounted s (snd (m s)))"

lemma accounted_trans: "accounted s s' \<Longrightarrow> accounted s' s'' \<Longrightarrow> accounted s s''"
  using sent_sets_append [of s s' s''] extends_sent_trans [of s s' s'']
  unfolding accounted_def by (metis UnCI)

lemma accounts_bind: "accounts m \<Longrightarrow> (\<And>a. accounts (f a)) \<Longrightarrow> accounts (bindR m f)"
  unfolding accounts_def bindR_def
  by (auto split: prod.splits sum.splits) (metis accounted_trans snd_conv)+

lemma accounts_then: "accounts m \<Longrightarrow> accounts n \<Longrightarrow> accounts (thenR m n)"
  by (simp add: thenR_def accounts_bind)

lemma accounted_same:
  "tc_sent s' = tc_sent s \<Longrightarrow> max_confirmation_time s' = max_confirmation_time s \<Longrightarrow>
   (\<And>t c. map_of (queue s) t = Some c \<Longrightarrow> map_of (queue s') t = Some c) \<Longrightarrow> accounted s s'"
  by (auto simp: accounted_def extends_sent_def)

lemma accounts_basic: "accounts (retR a)" "accounts (failR e)" "accounts (getR g)"
  by (simp_all add: accounts_def retR_def failR_def getR_def accounted_same)

lemma accounts_for: "(\<And>x. accounts (f x)) \<Longrightarrow> accounts (forR f xs)"
  by (induction xs) (simp_all add: accounts_bind accounts_basic)

lemma accounts_confirmed: "accounts (new_confirmed_txs ts)"
  by (auto simp: accounts_def accounted_def confirm_eqs extends_sent_def waiting_def confirmed_by_def
      reorged_by_def new_sent_def)

lemma accounts_mined: "accounts (handle_mined_txs_confirm ts)"
  by (auto simp: accounts_def accounted_def confirm_eqs extends_sent_def waiting_def)

lemma accounts_tx: "accounts (handle_tx_to_confirm rpc now t)"
proof -
  have "accounts (modR (\<lambda>s. if map_of (queue s) t = None then s\<lparr>queue := AList.update t now (queue s)\<rparr> else s))"
    by (auto simp: accounts_def modR_def waiting_def hash_map.get_put intro!: accounted_same)
  then show ?thesis
    unfolding handle_tx_to_confirm_def
    by (auto simp: whenR_def accounts_basic split: sum.splits option.splits
        intro!: accounts_then accounts_bind accounts_mined accounts_confirmed)
qed

lemma accounts_reorg: "accounts (handle_reorg rpc b)"
  unfolding accounts_def
proof
  fix s
  obtain r bs where loop: "reorg_loop rpc s (rev (latest_blocks s)) (previousblockhash b) (block_height b) [] = (r, bs)"
    by (cases "reorg_loop rpc s (rev (latest_blocks s)) (previousblockhash b) (block_height b) []") auto
  show "accounted s (snd (handle_reorg rpc b s))"
  proof (cases r)
    case (Inl e)
    with loop show ?thesis by (simp add: handle_reorg_def accounted_same waiting_def)
  next
    case (Inr p)
    obtain txs h where "p = (txs, h)" by (cases p)
    with Inr loop show ?thesis
      by (auto simp: handle_reorg_def confirm_eqs accounted_def extends_sent_def waiting_def
          confirmed_by_def reorged_by_def new_sent_def)
  qed
qed

lemma accounts_oldest: "accounts confirm_oldest"
proof -
  have "accounted s (snd (new_confirmed_txs ts (s\<lparr>latest_blocks := bs\<rparr>)))" for ts bs s
    by (rule accounted_trans [OF accounted_same accounts_confirmed [unfolded accounts_def, rule_format]])
       (simp_all add: waiting_def)
  then show ?thesis
    by (simp add: accounts_def confirm_oldest_def Let_def accounted_same waiting_def split: list.splits)
qed

lemma accounts_event: "accounts (handle_confirm_event X rpc now m)"
proof (cases m)
  case (ConfirmTxs ts)
  then show ?thesis by (simp add: accounts_for accounts_tx)
next
  case (ConfirmBlock b)
  have "accounts (modR (\<lambda>s. s\<lparr>latest_blocks := latest_blocks s @ [bi]\<rparr>))" for bi
    by (simp add: accounts_def modR_def accounted_same waiting_def)
  then show ?thesis
    using ConfirmBlock
    by (auto simp: handle_new_block_def accounts_basic Let_def
        intro!: accounts_bind accounts_then accounts_reorg accounts_mined accounts_oldest)
qed

lemma window_event: "keepsR in_window (handle_confirm_event X rpc now m)"
proof (cases m)
  case (ConfirmTxs ts)
  have "keepsR in_window (handle_tx_to_confirm rpc now t)" for t
    unfolding handle_tx_to_confirm_def handle_mined_txs_confirm_def new_confirmed_txs_def send_controller_def
    by (auto simp: in_window_def split: sum.splits option.splits
        intro!: keeps_intros keepsR_mod)
  then show ?thesis using ConfirmTxs by (simp add: keepsR_for)
next
  case (ConfirmBlock b)
  have "in_window (snd (handle_new_block X rpc b s))" if "in_window s" for s
  proof (cases "reorg_needed b (latest_blocks s)")
    case True
    obtain r bs where loop: "reorg_loop rpc s (rev (latest_blocks s)) (previousblockhash b) (block_height b) [] = (r, bs)"
      by (cases "reorg_loop rpc s (rev (latest_blocks s)) (previousblockhash b) (block_height b) []") auto
    then have "length bs \<le> length (latest_blocks s)"
      using reorg_loop_shrinks [of rpc s "rev (latest_blocks s)" "previousblockhash b" "block_height b" "[]"] by simp
    with True that loop show ?thesis
      by (simp add: handle_new_block_reorg handle_reorg_def in_window_def confirm_eqs split: sum.splits)
  next
    case False
    from handle_new_block_step [OF this that, of X rpc] show ?thesis by (auto dest: settlesD(1))
  qed
  with ConfirmBlock show ?thesis by (simp add: keepsR_def)
qed

text \<open>A hash map has one entry for a key.\<close>

definition queue_wf :: "tx_confirmator \<Rightarrow> bool" where
  "queue_wf s \<longleftrightarrow> distinct (map fst (queue s))"

lemma distinct_remove_waiting: "distinct (map fst q) \<Longrightarrow> distinct (map fst (remove_waiting ts q))"
  unfolding remove_waiting_def by (induction ts arbitrary: q) (auto simp: distinct_delete)

lemma queue_wf_event: "keepsR queue_wf (handle_confirm_event X rpc now m)"
proof -
  have tx: "keepsR queue_wf (handle_tx_to_confirm rpc now t)" for t
    unfolding handle_tx_to_confirm_def handle_mined_txs_confirm_def new_confirmed_txs_def send_controller_def
    by (auto simp: queue_wf_def distinct_update distinct_remove_waiting split: sum.splits option.splits
        intro!: keeps_intros keepsR_mod)
  have "keepsR queue_wf (handle_reorg rpc b)" for b
    by (auto simp: keepsR_def handle_reorg_def queue_wf_def confirm_eqs distinct_remove_waiting
        split: prod.splits sum.splits)
  moreover have "keepsR queue_wf confirm_oldest"
    by (auto simp: keepsR_def confirm_oldest_def queue_wf_def confirm_eqs distinct_remove_waiting Let_def
        split: list.splits)
  ultimately have "keepsR queue_wf (handle_new_block X rpc b)" for b
    unfolding handle_new_block_def handle_mined_txs_confirm_def send_controller_def Let_def
    by (auto simp: queue_wf_def intro!: keeps_intros keepsR_mod)
  with tx show ?thesis by (cases m) (simp_all add: keepsR_for)
qed

text \<open>The clean-up drops no entry that is young enough, even when it panics half way.\<close>

lemma clean_up_keeps:
  assumes "map_of (queue s) t = Some c" and "\<not> max_confirmation_time s < now - c" and "\<And>c'. (t, c') \<in> set es \<Longrightarrow> c' = c"
  shows "map_of (queue (snd (forR (clean_up_entry now) es s))) t = Some c"
  using assms
proof (induction es arbitrary: s)
  case Nil
  then show ?case by (simp add: retR_def)
next
  case (Cons e es)
  obtain u d where e: "e = (u, d)" by (cases e)
  have later: "(t, c') \<in> set es \<Longrightarrow> c' = c" for c' using Cons.prems(3) by simp
  show ?case
  proof (cases "now < d")
    case True
    with Cons.prems(1) show ?thesis by (simp add: e clean_up_entry_def bindR_def failR_def)
  next
    case False
    have young: "\<not> max_confirmation_time s < now - d" if "u = t" using Cons.prems(2,3) that e by auto
    let ?s = "if max_confirmation_time s < now - d then s\<lparr>queue := AList.delete u (queue s)\<rparr> else s"
    have "map_of (queue ?s) t = Some c" "\<not> max_confirmation_time ?s < now - c"
      using Cons.prems(1,2) young by (auto simp: hash_map.get_del)
    from Cons.IH [OF this later] False show ?thesis by (simp add: e clean_up_entry_def bindR_def modR_def)
  qed
qed

lemma clean_up_frame:
  "tc_sent (snd (forR (clean_up_entry now) es s)) = tc_sent s \<and>
   max_confirmation_time (snd (forR (clean_up_entry now) es s)) = max_confirmation_time s \<and>
   (queue_wf s \<longrightarrow> queue_wf (snd (forR (clean_up_entry now) es s)))"
proof (induction es arbitrary: s)
  case (Cons e es)
  obtain u d where e: "e = (u, d)" by (cases e)
  let ?s = "if max_confirmation_time s < now - d then s\<lparr>queue := AList.delete u (queue s)\<rparr> else s"
  have "queue_wf s \<longrightarrow> queue_wf ?s" by (simp add: queue_wf_def distinct_delete)
  with Cons.IH [of ?s] show ?case
    by (auto simp: e clean_up_entry_def bindR_def failR_def modR_def split: if_splits)
qed (simp add: retR_def)

lemma turn_accounted:
  assumes "queue_wf s"
  shows "queue_wf (confirmator_turn X r s) \<and> extends_sent s (confirmator_turn X r s) \<and>
    max_confirmation_time (confirmator_turn X r s) = max_confirmation_time s"
    and "map_of (queue s) t = Some c \<Longrightarrow>
      map_of (queue (confirmator_turn X r s)) t = Some c \<or> t \<in> confirmed_by s (confirmator_turn X r s) \<or>
      t \<in> reorged_by s (confirmator_turn X r s) \<or>
      (\<exists>rpc now. r = (rpc, now, CleanUpTick) \<and> max_confirmation_time s < now - c)"
proof -
  obtain rpc now st where r: "r = (rpc, now, st)" by (cases r)
  have clean: "snd (clean_up_waiting_txs now s) = snd (forR (clean_up_entry now) (queue s) s)"
    by (simp add: clean_up_waiting_txs_def bindR_def getR_def)
  show "queue_wf (confirmator_turn X r s) \<and> extends_sent s (confirmator_turn X r s) \<and>
    max_confirmation_time (confirmator_turn X r s) = max_confirmation_time s"
    using assms accounts_event [of X rpc now] keepsR_D [OF queue_wf_event] clean_up_frame [of now "queue s" s]
    by (cases st) (auto simp: r clean accounts_def accounted_def extends_sent_def)
  assume t: "map_of (queue s) t = Some c"
  show "map_of (queue (confirmator_turn X r s)) t = Some c \<or> t \<in> confirmed_by s (confirmator_turn X r s) \<or>
      t \<in> reorged_by s (confirmator_turn X r s) \<or> (\<exists>rpc now. r = (rpc, now, CleanUpTick) \<and> max_confirmation_time s < now - c)"
  proof (cases st)
    case (EventReceived m)
    with accounts_event [of X rpc now m] t show ?thesis by (auto simp: r accounts_def accounted_def)
  next
    case CleanUpTick
    have "c' = c" if "(t, c') \<in> set (queue s)" for c'
      using that t assms by (auto simp: queue_wf_def dest: map_of_is_SomeI)
    with clean_up_keeps [OF t] CleanUpTick show ?thesis by (auto simp: r clean)
  qed
qed

lemma run_accounted:
  assumes "queue_wf s" and "map_of (queue s) t = Some c" and "s' = confirmator_run X turns s"
  shows "extends_sent s s' \<and> (map_of (queue s') t = Some c \<or> t \<in> confirmed_by s s' \<or> t \<in> reorged_by s s' \<or>
    (\<exists>rpc now. (rpc, now, CleanUpTick) \<in> set turns \<and> max_confirmation_time s < now - c))"
proof -
  have run: "extends_sent s (fold (confirmator_turn X) turns s)" if "queue_wf s" for turns s
    using that
  proof (induction turns arbitrary: s)
    case (Cons r turns)
    with turn_accounted(1) [where s = s and X = X and r = r] extends_sent_trans show ?case by simp blast
  qed (simp add: extends_sent_def)
  show ?thesis
    using assms(1,2) unfolding assms(3) confirmator_run_def
  proof (induction turns arbitrary: s)
    case (Cons r turns)
    let ?s = "confirmator_turn X r s" and ?s' = "fold (confirmator_turn X) turns (confirmator_turn X r s)"
    note one = turn_accounted [OF Cons.prems(1), where X = X and r = r]
    have two: "extends_sent ?s ?s'" using run one(1) by blast
    note sums = sent_sets_append [OF conjunct1 [OF conjunct2 [OF one(1)]] two]
    from one(2) [OF Cons.prems(2)] show ?case
    proof (elim disjE)
      assume "map_of (queue ?s) t = Some c"
      with Cons.IH [of ?s] one(1) sums run [OF Cons.prems(1), of "r # turns"] show ?thesis by auto
    qed (use sums run [OF Cons.prems(1), of "r # turns"] in auto)
  qed (simp add: extends_sent_def)
qed

definition deep_for :: "bitcoin_rpc \<Rightarrow> tx_confirmator \<Rightarrow> txid set" where
  "deep_for rpc s =
     {t. \<exists>c. get_raw_transaction_info rpc t = Inr (Some c) \<and> ucast (confirmations_number s) \<le> c}"

lemma handle_tx_exact:
  assumes "handle_tx_to_confirm rpc now t s = (Inr (), s')"
  shows "confirmed_by s s' = {t} \<inter> deep_for rpc s" "waiting s' = insert t (waiting s) - ({t} \<inter> deep_for rpc s)"
    "extends_sent s s'" "confirmations_number s' = confirmations_number s"
  using assms
  by (auto simp: handle_tx_to_confirm_def run_defs confirm_eqs whenR_def deep_for_def waiting_def
      hash_map.get_put confirmed_by_def new_sent_def extends_sent_def
      split: sum.splits option.splits if_splits)

lemma clean_up_run:
  assumes "\<And>t c. (t, c) \<in> set es \<Longrightarrow> c \<le> now"
  shows "forR (clean_up_entry now) es s = (Inr (), s\<lparr>queue := remove_waiting
     (map fst (filter (\<lambda>(t, c). max_confirmation_time s < now - c) es)) (queue s)\<rparr>)"
  using assms
proof (induction es arbitrary: s)
  case Nil
  then show ?case by (simp add: retR_def remove_waiting_def)
next
  case (Cons e es)
  obtain t c where e: "e = (t, c)" by (cases e)
  from Cons.prems [of t c] e have "clean_up_entry now e s =
      (Inr (), if max_confirmation_time s < now - c then s\<lparr>queue := AList.delete t (queue s)\<rparr> else s)"
    by (simp add: clean_up_entry_def modR_def)
  moreover have "\<And>t c. (t, c) \<in> set es \<Longrightarrow> c \<le> now" using Cons.prems by (meson list.set_intros(2))
  ultimately show ?case
    using Cons.IH by (simp add: e bindR_def remove_waiting_def)
qed

lemma blocks_confirmed:
  assumes "linked (newest (latest_blocks s)) blocks" and "in_window s"
    and bs_def: "bs = latest_blocks s @ map (block_info_from X) blocks"
    and n_def: "n = unat (confirmations_number s)"
  shows "\<exists>s'. forR (handle_new_block X rpc) blocks s = (Inr (), s') \<and>
    latest_blocks s' = drop (length bs + 1 - n) bs \<and>
    confirmed_by s s' = {t \<in> waiting s. \<exists>b \<in> set (take (length bs + 1 - n) bs). t \<in> set (bi_txs b)} \<and>
    waiting s' = waiting s - confirmed_by s s' \<and> reorged_by s s' = {}"
proof -
  obtain s' where s': "forR (handle_new_block X rpc) blocks s = (Inr (), s')"
    "settles s (map (block_info_from X) blocks) s'"
    using blocks_run [OF assms(1,2)] by blast
  note D = settlesD [OF s'(2), folded bs_def n_def]
  have "confirmed_by s s' = {t \<in> waiting s. \<exists>b \<in> set (take (length bs + 1 - n) bs). t \<in> set (bi_txs b)}"
    unfolding D(6) by (auto simp: txs_of_def deep_blocks_def)
  moreover have "waiting s' = waiting s - confirmed_by s s'" unfolding D(6,7) by blast
  ultimately show ?thesis using s'(1) D(4,5) by (auto simp: young_blocks_def)
qed

section \<open>Properties\<close>

text \<open>Every event, a failing one included, keeps fewer blocks than a confirmation takes
  and one entry for each waiting transaction.\<close>

lemma confirmator_invariant:
  assumes "in_window s" and "queue_wf s"
  shows "in_window (snd (handle_confirm_event X rpc now m s)) \<and>
    queue_wf (snd (handle_confirm_event X rpc now m s))"
  using assms keepsR_D [OF window_event] keepsR_D [OF queue_wf_event] by blast

text \<open>C7. While blocks arrive in the order of the chain, exactly the waiting transactions of the
  blocks that have the required number of confirmations are announced as confirmed and stop
  waiting, and the younger blocks are kept.\<close>

theorem confirmed_at_depth:
  assumes "linked (newest (latest_blocks s)) blocks" and "in_window s"
    and bs_def: "bs = latest_blocks s @ map (block_info_from X) blocks"
    and n_def: "n = unat (confirmations_number s)"
  shows "\<exists>s'. forR (handle_new_block X rpc) blocks s = (Inr (), s') \<and>
    latest_blocks s' = drop (length bs + 1 - n) bs \<and>
    confirmed_by s s' = {t \<in> waiting s. \<exists>b \<in> set (take (length bs + 1 - n) bs). t \<in> set (bi_txs b)} \<and>
    waiting s' = waiting s - confirmed_by s s' \<and> reorged_by s s' = {}"
  using assms by (rule blocks_confirmed)

text \<open>C19. When a block of another branch arrives, the confirmator goes back to the last block
  both branches share: it keeps the blocks up to that block, gives back the waiting
  transactions of the others, and reports the height of the shared block, from which indexing
  goes on.\<close>

theorem reorg_returns_to_fork:
  assumes "latest_blocks s = keep @ shared # rev orphans" and "reorg_needed b (latest_blocks s)"
    and "back_chain rpc (previousblockhash b) hs (Some (bi_hash shared))"
    and "other_branch orphans hs" and "length hs < block_height b"
  shows "\<exists>s'. handle_new_block X rpc b s = (Inr (), s') \<and> latest_blocks s' = keep @ [shared] \<and>
    new_sent s s' = [ToController (Reorganization
      (concat (map (extract_waiting_txs_from_block s) orphans)) (block_height b - length orphans - 1))] \<and>
    waiting s' = waiting s - (\<Union>o' \<in> set orphans. set (bi_txs o')) \<and>
    newest (latest_blocks s') = Some (bi_hash shared)"
proof -
  have len: "length hs = length orphans" using list_all2_lengthD [OF assms(4)] by simp
  have "reorg_loop rpc s (rev (latest_blocks s)) (previousblockhash b) (block_height b) [] =
      (Inr (concat (map (extract_waiting_txs_from_block s) orphans), block_height b - length orphans - 1),
       shared # rev keep)"
    using reorg_loop_found [OF assms(3,4,5)] by (simp add: assms(1) len)
  then show ?thesis
    by (auto simp: handle_new_block_reorg [OF assms(2)] handle_reorg_def confirm_eqs new_sent_def
        waiting_def newest_def)
qed

text \<open>C30. A block that arrives before its predecessor stops the confirmator: the search for the
  shared block compares blocks of different heights and drops every block that is kept.\<close>

theorem skipped_block_is_fatal:
  assumes "linked None cs" and "distinct (map block_hash cs)"
    and "\<And>b. b \<in> set cs \<Longrightarrow> get_block_info rpc (block_hash b) = Inr b"
    and "i < j" and "j < k" and "k < length cs"
    and "latest_blocks s = map (block_info_from X) (drop i (take j cs))"
  shows "handle_new_block X rpc (cs ! k) s = (Inl ForkLengthTooBig, s\<lparr>latest_blocks := []\<rparr>)"
proof -
  let ?hs = "map (\<lambda>d. block_hash (cs ! (k - 1 - d))) [0..<j - i]"
  obtain l where chain: "back_chain rpc (previousblockhash (cs ! k)) ?hs l"
    using back_chain_linked [OF assms(1,3) assms(6), of "j - i"] assms(4-6) by force
  have len: "length (latest_blocks s) = j - i" using assms(4-7) by simp
  have nth: "bi_hash (latest_blocks s ! d) = block_hash (cs ! (i + d))" if "d < j - i" for d
    using that assms(4-7) by (simp add: block_info_from_def)
  have other: "other_branch (rev (latest_blocks s)) ?hs"
    unfolding list_all2_conv_all_nth
  proof (intro conjI allI impI)
    fix d assume "d < length (rev (latest_blocks s))"
    then have d: "d < j - i" by (simp add: len)
    then have "bi_hash (rev (latest_blocks s) ! d) = block_hash (cs ! (j - 1 - d))"
      using nth [of "j - i - Suc d"] by (simp add: rev_nth len)
    moreover have "block_hash (cs ! (j - 1 - d)) \<noteq> block_hash (cs ! (k - 1 - d))"
      using nth_eq_iff_index_eq [OF assms(2), of "j - 1 - d" "k - 1 - d"] d assms(4-6) by simp
    ultimately show "bi_hash (rev (latest_blocks s) ! d) \<noteq> ?hs ! d" using d by simp
  qed (simp add: len)
  have "reorg_needed (cs ! k) (latest_blocks s)"
    using chain other len assms(4)
    by (cases "rev (latest_blocks s)") (auto simp: reorg_needed_def list_all2_Cons1 upt_conv_Cons last_rev [symmetric])
  then show ?thesis
    by (simp add: handle_new_block_reorg handle_reorg_def reorg_loop_exhausted [OF chain other])
qed

text \<open>C21. Over all runs of the confirmator, events and clean-ups in any order and failing ones included, a
  transaction that waits keeps waiting, with the time at which it was put into the queue, until it
  is announced as confirmed, given back after a reorganization, or dropped by a clean-up at which
  it had waited for longer than the maximal time.
\<close>

theorem waiting_not_lost:
  assumes "queue_wf s" and "map_of (queue s) t = Some since" and "s' = confirmator_run X turns s"
  shows "map_of (queue s') t = Some since \<or> t \<in> confirmed_by s s' \<or> t \<in> reorged_by s s' \<or>
    (\<exists>rpc now. (rpc, now, CleanUpTick) \<in> set turns \<and> max_confirmation_time s < now - since)"
  using run_accounted [OF assms] by blast

text \<open>A request for confirmations announces exactly the transactions for which the node reports
  enough confirmations; the others wait.\<close>

lemma confirm_requests_exact:
  assumes "handle_confirm_event X rpc now (ConfirmTxs ts) s = (Inr (), s')"
    and deep_def: "deep = {t. \<exists>c. get_raw_transaction_info rpc t = Inr (Some c) \<and> ucast (confirmations_number s) \<le> c}"
  shows "confirmed_by s s' = set ts \<inter> deep \<and> waiting s' = waiting s \<union> set ts - (set ts \<inter> deep)"
proof -
  have "forR (handle_tx_to_confirm rpc now) ts s = (Inr (), s') \<Longrightarrow>
      confirmed_by s s' = set ts \<inter> deep_for rpc s \<and> waiting s' = waiting s \<union> set ts - (set ts \<inter> deep_for rpc s)"
  proof (induction ts arbitrary: s)
    case Nil
    then show ?case by (simp add: retR_def)
  next
    case (Cons t ts)
    obtain s1 where s1: "handle_tx_to_confirm rpc now t s = (Inr (), s1)"
      "forR (handle_tx_to_confirm rpc now) ts s1 = (Inr (), s')"
      using Cons.prems by (auto simp: bindR_def split: prod.splits sum.splits)
    note one = handle_tx_exact [OF s1(1)]
    have ext: "extends_sent s1 s'"
      using accounts_event [of X rpc now "ConfirmTxs ts"] s1(2)
      by (simp add: accounts_def accounted_def) (metis snd_conv)
    have "deep_for rpc s1 = deep_for rpc s" using one by (simp add: deep_for_def)
    with Cons.IH [OF s1(2)] one sent_sets_append(1) [OF _ ext, of s] show ?case
      by (cases "t \<in> deep_for rpc s") auto
  qed
  with assms show ?thesis by (simp add: deep_for_def)
qed

text \<open>When the clock has not gone back, a cleanup removes exactly the transactions that have
  waited for longer than the limit.\<close>

lemma cleanup_exact:
  assumes "queue_wf s" and "\<And>t c. map_of (queue s) t = Some c \<Longrightarrow> c \<le> now"
  shows "\<exists>s'. clean_up_waiting_txs now s = (Inr (), s') \<and> tc_sent s' = tc_sent s \<and>
    latest_blocks s' = latest_blocks s \<and>
    (\<forall>t. map_of (queue s') t = (case map_of (queue s) t of
        None \<Rightarrow> None
      | Some c \<Rightarrow> if max_confirmation_time s < now - c then None else Some c))"
proof -
  have "c \<le> now" if "(t, c) \<in> set (queue s)" for t c
    using assms that by (simp add: queue_wf_def)
  from clean_up_run [OF this, where s = s] assms(1) show ?thesis
    by (auto simp: clean_up_waiting_txs_def bindR_def getR_def queue_wf_def map_of_eq_None_iff
        split: option.splits dest: map_of_SomeD) (force dest: map_of_is_SomeI eq_key_imp_eq_value)+
qed

section \<open>Witnesses\<close>

text \<open>A chain of blocks with one transaction each; its branch leaves it after the second block.\<close>

definition sample_block :: "nat \<Rightarrow> u8 \<Rightarrow> u8 \<Rightarrow> block" where
  "sample_block height h prev = \<lparr>block_hash = [h], block_height = height, previousblockhash = Some [prev],
     block_tx = [sample_tx (ucast h)]\<rparr>"

definition sample_chain :: "block list" where
  "sample_chain = [sample_block 10 1 0, sample_block 11 2 1, sample_block 12 3 2, sample_block 13 4 3]"

definition sample_rpc :: bitcoin_rpc where
  "sample_rpc = \<lparr>get_raw_transaction_info = (\<lambda>t.
       if t = x_txid sample_ext (sample_tx 1) then Inr (Some 3) else Inl (JsonRpcCode (- 5))),
     get_block_info = (\<lambda>h.
       case filter (\<lambda>b. block_hash b = h) (sample_chain @ [sample_block 12 13 2, sample_block 13 14 13]) of
         [] \<Rightarrow> Inl OtherRpcError | b # _ \<Rightarrow> Inr b),
     get_block_txs = (\<lambda>h. Inl OtherRpcError),
     get_block_count = Inr 13, get_block_hash = (\<lambda>n. Inl OtherRpcError),
     get_raw_transaction = (\<lambda>t h. Inl OtherRpcError),
     send_raw_transaction_opts = (\<lambda>tx n. Inl OtherRpcError)\<rparr>"

definition sample_confirmator :: "nat \<Rightarrow> nat \<Rightarrow> tx_confirmator" where
  "sample_confirmator i j = (new_tx_confirmator 100 10 3)\<lparr>
     queue := [(x_txid sample_ext (sample_tx 1), 5), (x_txid sample_ext (sample_tx 3), 60)],
     latest_blocks := map (block_info_from sample_ext) (drop i (take j sample_chain))\<rparr>"

lemma sample_block_simps [simp]:
  "block_hash (sample_block n h p) = [h]" "block_height (sample_block n h p) = n"
  "previousblockhash (sample_block n h p) = Some [p]"
  "bi_hash (block_info_from X b) = block_hash b"
  by (simp_all add: sample_block_def block_info_from_def)

lemma sample_confirmator_simps [simp]:
  "latest_blocks (sample_confirmator i j) = map (block_info_from sample_ext) (drop i (take j sample_chain))"
  "confirmations_number (sample_confirmator i j) = 3" "max_confirmation_time (sample_confirmator i j) = 100"
  "queue (sample_confirmator i j) =
     [(x_txid sample_ext (sample_tx 1), 5), (x_txid sample_ext (sample_tx 3), 60)]"
  by (simp_all add: sample_confirmator_def new_tx_confirmator_def)

lemma sample_known [simp]:
  "get_block_info sample_rpc [1] = Inr (sample_block 10 1 0)"
  "get_block_info sample_rpc [2] = Inr (sample_block 11 2 1)"
  "get_block_info sample_rpc [3] = Inr (sample_block 12 3 2)"
  "get_block_info sample_rpc [4] = Inr (sample_block 13 4 3)"
  "get_block_info sample_rpc [13] = Inr (sample_block 12 13 2)"
  by (simp_all add: sample_rpc_def sample_chain_def)

lemma sample_ids_differ: "x_txid sample_ext (sample_tx 1) \<noteq> x_txid sample_ext (sample_tx 3)"
  by code_simp

lemma sample_confirmator_ok: "in_window (sample_confirmator 0 2)" "queue_wf (sample_confirmator 0 2)"
  by (simp_all add: sample_chain_def in_window_def queue_wf_def sample_ids_differ)

lemma confirmator_invariant_witness:
  "let s' = snd (handle_confirm_event sample_ext sample_rpc 70 (ConfirmBlock (sample_block 13 14 13)) (sample_confirmator 0 2))
   in in_window s' \<and> queue_wf s'"
  unfolding Let_def by (rule confirmator_invariant [OF sample_confirmator_ok])

theorem confirmed_at_depth_witness:
  "let s = sample_confirmator 0 2;
     bs = latest_blocks s @ map (block_info_from sample_ext) (drop 2 sample_chain);
     n = unat (confirmations_number s)
   in \<exists>s'. forR (handle_new_block sample_ext sample_rpc) (drop 2 sample_chain) s = (Inr (), s') \<and>
    latest_blocks s' = drop (length bs + 1 - n) bs \<and>
    confirmed_by s s' = {t \<in> waiting s. \<exists>b \<in> set (take (length bs + 1 - n) bs). t \<in> set (bi_txs b)} \<and>
    waiting s' = waiting s - confirmed_by s s' \<and> reorged_by s s' = {}"
  unfolding Let_def
  by (rule confirmed_at_depth [OF _ sample_confirmator_ok(1) refl refl])
     (simp add: sample_chain_def newest_def)

theorem reorg_returns_to_fork_witness:
  "let s = sample_confirmator 1 3; orphan = block_info_from sample_ext (sample_block 12 3 2)
   in \<exists>s'. handle_new_block sample_ext sample_rpc (sample_block 13 14 13) s = (Inr (), s') \<and>
    latest_blocks s' = [] @ [block_info_from sample_ext (sample_block 11 2 1)] \<and>
    new_sent s s' = [ToController (Reorganization
      (concat (map (extract_waiting_txs_from_block s) [orphan]))
      (block_height (sample_block 13 14 13) - length [orphan] - 1))] \<and>
    waiting s' = waiting s - (\<Union>o' \<in> set [orphan]. set (bi_txs o')) \<and>
    newest (latest_blocks s') = Some (bi_hash (block_info_from sample_ext (sample_block 11 2 1)))"
  unfolding Let_def
  by (rule reorg_returns_to_fork [where hs = "[[13]]"])
     (simp_all add: sample_chain_def reorg_needed_def)

theorem skipped_block_is_fatal_witness:
  "handle_new_block sample_ext sample_rpc (sample_chain ! 3) (sample_confirmator 0 2) =
     (Inl ForkLengthTooBig, (sample_confirmator 0 2)\<lparr>latest_blocks := []\<rparr>)"
  by (rule skipped_block_is_fatal [where cs = sample_chain and i = 0 and j = 2])
     (auto simp: sample_chain_def)

theorem waiting_not_lost_witness:
  "let s = sample_confirmator 0 2; t = x_txid sample_ext (sample_tx 3);
     turns = [(sample_rpc, 70, EventReceived (ConfirmBlock (sample_block 12 3 2))), (sample_rpc, 120, CleanUpTick)];
     s' = confirmator_run sample_ext turns s
   in map_of (queue s') t = Some 60 \<or> t \<in> confirmed_by s s' \<or> t \<in> reorged_by s s' \<or>
     (\<exists>rpc now. (rpc, now, CleanUpTick) \<in> set turns \<and> max_confirmation_time s < now - 60)"
  unfolding Let_def
  by (rule waiting_not_lost [OF sample_confirmator_ok(2) _ refl]) (simp add: sample_ids_differ [symmetric])

lemma confirm_requests_exact_witness:
  "let s = sample_confirmator 0 2; ts = [x_txid sample_ext (sample_tx 1), x_txid sample_ext (sample_tx 3)];
     deep = {t. \<exists>c. get_raw_transaction_info sample_rpc t = Inr (Some c) \<and> ucast (confirmations_number s) \<le> c}
   in \<exists>s'. handle_confirm_event sample_ext sample_rpc 70 (ConfirmTxs ts) s = (Inr (), s') \<and>
     confirmed_by s s' = set ts \<inter> deep \<and> waiting s' = waiting s \<union> set ts - (set ts \<inter> deep)"
proof -
  let ?s = "sample_confirmator 0 2"
  let ?ts = "[x_txid sample_ext (sample_tx 1), x_txid sample_ext (sample_tx 3)]"
  have "fst (handle_confirm_event sample_ext sample_rpc 70 (ConfirmTxs ?ts) ?s) = Inr ()"
    by (simp add: sample_rpc_def sample_ids_differ [symmetric] handle_tx_to_confirm_def run_defs confirm_eqs whenR_def)
  then obtain s' where run: "handle_confirm_event sample_ext sample_rpc 70 (ConfirmTxs ?ts) ?s = (Inr (), s')"
    by (metis prod.collapse)
  from confirm_requests_exact [OF run refl] run show ?thesis by (simp add: Let_def)
qed

lemma cleanup_exact_witness:
  "\<exists>s'. clean_up_waiting_txs 120 (sample_confirmator 0 2) = (Inr (), s') \<and>
     tc_sent s' = tc_sent (sample_confirmator 0 2) \<and> latest_blocks s' = latest_blocks (sample_confirmator 0 2) \<and>
     (\<forall>t. map_of (queue s') t = (case map_of (queue (sample_confirmator 0 2)) t of
         None \<Rightarrow> None
       | Some c \<Rightarrow> if max_confirmation_time (sample_confirmator 0 2) < 120 - c then None else Some c))"
  by (rule cleanup_exact [OF sample_confirmator_ok(2)])
     (auto simp: sample_chain_def split: if_splits)

end
