(* ===== verification/Rpc_Server.thy ===== *)
theory Rpc_Server
  imports Tx_Checker Tx_Attach Controller Consensus Tx_Confirm
begin

text \<open>
  The JSON-RPC server (\<open>rpc-server/src/transactions.rs\<close>), the responses it builds
  (\<open>rpc-api/src/transactions.rs\<close>) and the hex form of transactions
  (\<open>types/src/transactions/consensus.rs\<close>). The hex codec is an argument. A send to the bus does
  not fail, as the node keeps the bus, and the storage is available.
\<close>

section \<open>Hex\<close>

datatype yuv_transaction_parse_error = HexError | InvalidTx | InvalidProofs

definition yuv_tx_hex :: "bitcoin_ext \<Rightarrow> (bytes \<Rightarrow> string) \<Rightarrow> yuv_transaction \<Rightarrow> string" where
  "yuv_tx_hex X hex tx = hex (enc_yuv_tx X tx)"

definition yuv_tx_from_hex ::
  "bitcoin_ext \<Rightarrow> (string \<Rightarrow> bytes option) \<Rightarrow> string \<Rightarrow> yuv_transaction_parse_error + yuv_transaction" where
  "yuv_tx_from_hex X unhex s =
     bindE (ok_or HexError (unhex s)) (\<lambda>bs.
       map_err (\<lambda>_. InvalidTx) (bindE (dec_yuv_tx X bs) (\<lambda>(tx, _). Inr tx)))"

definition tx_type_hex :: "bitcoin_ext \<Rightarrow> (bytes \<Rightarrow> string) \<Rightarrow> yuv_tx_type \<Rightarrow> string" where
  "tx_type_hex X hex ty = hex (enc_yuv_tx_type X ty)"

definition tx_type_from_hex ::
  "bitcoin_ext \<Rightarrow> (string \<Rightarrow> bytes option) \<Rightarrow> string \<Rightarrow> yuv_transaction_parse_error + yuv_tx_type" where
  "tx_type_from_hex X unhex s =
     bindE (ok_or HexError (unhex s)) (\<lambda>bs.
       map_err (\<lambda>_. InvalidProofs) (bindE (dec_yuv_tx_type X bs) (\<lambda>(ty, _). Inr ty)))"

section \<open>Responses\<close>

datatype yuv_transaction_status =
    StNone | StInitialized | StWaitingMined | StMined | StAttaching | StAttached | StPending

fun status_of_mempool :: "mempool_status \<Rightarrow> yuv_transaction_status" where
  "status_of_mempool Initialized = StInitialized"
| "status_of_mempool WaitingMined = StWaitingMined"
| "status_of_mempool Mined = StMined"
| "status_of_mempool Attaching = StAttaching"
| "status_of_mempool Pending = StPending"

record transaction_response =
  resp_txid :: txid
  resp_tx :: transaction

record yuv_transaction_response =
  resp_bitcoin_tx :: transaction_response
  resp_tx_type :: yuv_tx_type

definition transaction_response_from :: "bitcoin_ext \<Rightarrow> transaction \<Rightarrow> transaction_response" where
  "transaction_response_from X tx = \<lparr>resp_txid = x_txid X tx, resp_tx = tx\<rparr>"

definition response_from :: "bitcoin_ext \<Rightarrow> yuv_transaction \<Rightarrow> yuv_transaction_response" where
  "response_from X tx =
     \<lparr>resp_bitcoin_tx = transaction_response_from X (bitcoin_tx tx), resp_tx_type = tx_type tx\<rparr>"

definition tx_of_response :: "yuv_transaction_response \<Rightarrow> yuv_transaction" where
  "tx_of_response r = \<lparr>bitcoin_tx = resp_tx (resp_bitcoin_tx r), tx_type = resp_tx_type r\<rparr>"

record tx_status_response =
  rs_status :: yuv_transaction_status
  rs_data :: "yuv_transaction_response option"

record provide_yuv_proof_request =
  pr_txid :: txid
  pr_tx_type :: yuv_tx_type
  pr_blockhash :: "block_hash option"



section \<open>Methods\<close>

record rpc_controller = service +
  max_items_per_request :: nat

datatype rpc_server_error = TooManyItems | HexParseError | ServiceIsDead

type_synonym 'a rpc_call = "(rpc_controller, rpc_server_error, 'a) run"

definition send_txs_to_confirm :: "yuv_transaction list \<Rightarrow> unit rpc_call" where
  "send_txs_to_confirm txs = sendR (ToController (InitializeTxs txs))"

definition provide_yuv_proof :: "yuv_transaction \<Rightarrow> bool rpc_call" where
  "provide_yuv_proof tx = thenR (send_txs_to_confirm [tx]) (retR True)"

definition fetch_proved_txs ::
  "bitcoin_rpc \<Rightarrow> provide_yuv_proof_request list \<Rightarrow> rpc_server_error + yuv_transaction list" where
  "fetch_proved_txs rpc proofs =
     mapE (\<lambda>p. bindE (map_err (\<lambda>_. ServiceIsDead) (get_raw_transaction rpc (pr_txid p) (pr_blockhash p)))
       (\<lambda>btx. Inr \<lparr>bitcoin_tx = btx, tx_type = pr_tx_type p\<rparr>)) proofs"

definition provide_list_yuv_proofs :: "bitcoin_rpc \<Rightarrow> provide_yuv_proof_request list \<Rightarrow> bool rpc_call" where
  "provide_list_yuv_proofs rpc proofs =
     bindR (getR max_items_per_request) (\<lambda>max_items.
       if max_items < length proofs then failR TooManyItems
       else bindR (liftR (fetch_proved_txs rpc proofs)) (\<lambda>txs.
         thenR (send_txs_to_confirm txs) (retR True)))"

definition provide_yuv_proof_short ::
  "bitcoin_ext \<Rightarrow> (string \<Rightarrow> bytes option) \<Rightarrow> bitcoin_rpc \<Rightarrow> txid \<Rightarrow> string \<Rightarrow> block_hash option \<Rightarrow> bool rpc_call" where
  "provide_yuv_proof_short X unhex rpc t ty_hex h =
     bindR (liftR (map_err (\<lambda>_. HexParseError) (tx_type_from_hex X unhex ty_hex))) (\<lambda>ty.
       provide_list_yuv_proofs rpc [\<lparr>pr_txid = t, pr_tx_type = ty, pr_blockhash = h\<rparr>])"

definition get_raw_yuv_transaction :: "bitcoin_ext \<Rightarrow> txid \<Rightarrow> storage \<Rightarrow> tx_status_response" where
  "get_raw_yuv_transaction X t st =
     (case get_mempool_entry st t of
        Some e \<Rightarrow> \<lparr>rs_status = StPending, rs_data = Some (response_from X (yuv_tx e))\<rparr>
      | None \<Rightarrow>
          (case get_yuv_tx st t of
             Some tx \<Rightarrow> \<lparr>rs_status = StAttached, rs_data = Some (response_from X tx)\<rparr>
           | None \<Rightarrow> \<lparr>rs_status = StNone, rs_data = None\<rparr>))"

definition get_yuv_transaction :: "bitcoin_ext \<Rightarrow> txid \<Rightarrow> storage \<Rightarrow> tx_status_response" where
  "get_yuv_transaction X t st =
     (case get_mempool_entry st t of
        Some e \<Rightarrow> \<lparr>rs_status = status_of_mempool (status e), rs_data = Some (response_from X (yuv_tx e))\<rparr>
      | None \<Rightarrow>
          (case get_yuv_tx st t of
             Some tx \<Rightarrow> \<lparr>rs_status = StAttached, rs_data = Some (response_from X tx)\<rparr>
           | None \<Rightarrow> \<lparr>rs_status = StNone, rs_data = None\<rparr>))"

fun found_txs :: "bitcoin_ext \<Rightarrow> txid list \<Rightarrow> storage \<Rightarrow> yuv_transaction_response list" where
  "found_txs X [] st = []"
| "found_txs X (t # ts) st =
     (case get_yuv_tx st t of
        Some tx \<Rightarrow> response_from X tx # found_txs X ts st
      | None \<Rightarrow> found_txs X ts st)"

definition get_list_raw_yuv_transactions ::
  "bitcoin_ext \<Rightarrow> txid list \<Rightarrow> yuv_transaction_response list rpc_call" where
  "get_list_raw_yuv_transactions X ts =
     bindR (getR max_items_per_request) (\<lambda>max_items.
       if max_items < length ts then failR TooManyItems else getS (found_txs X ts))"

definition get_list_yuv_transactions :: "bitcoin_ext \<Rightarrow> txid list \<Rightarrow> tx_status_response list rpc_call" where
  "get_list_yuv_transactions X ts =
     bindR (getR max_items_per_request) (\<lambda>max_items.
       if max_items < length ts then failR TooManyItems
       else getS (\<lambda>st. map (\<lambda>t. get_yuv_transaction X t st) ts))"

definition list_yuv_transactions :: "bitcoin_ext \<Rightarrow> u64 \<Rightarrow> storage \<Rightarrow> yuv_transaction_response list" where
  "list_yuv_transactions X page st =
     (case get_page_by_num st page of None \<Rightarrow> [] | Some ts \<Rightarrow> found_txs X ts st)"

definition send_raw_yuv_tx :: "bitcoin_rpc \<Rightarrow> yuv_transaction \<Rightarrow> u64 option \<Rightarrow> bool rpc_call" where
  "send_raw_yuv_tx rpc tx max_burn =
     bindR (liftR (map_err (\<lambda>_. ServiceIsDead) (send_raw_transaction_opts rpc (bitcoin_tx tx) max_burn))) (\<lambda>_.
       thenR (send_txs_to_confirm [tx]) (retR True))"

definition send_yuv_tx ::
  "bitcoin_ext \<Rightarrow> (string \<Rightarrow> bytes option) \<Rightarrow> bitcoin_rpc \<Rightarrow> string \<Rightarrow> u64 option \<Rightarrow> bool rpc_call" where
  "send_yuv_tx X unhex rpc tx_hex max_burn =
     bindR (liftR (map_err (\<lambda>_. HexParseError) (yuv_tx_from_hex X unhex tx_hex))) (\<lambda>tx.
     bindR (liftR (map_err (\<lambda>_. ServiceIsDead) (send_raw_transaction_opts rpc (bitcoin_tx tx) max_burn))) (\<lambda>_.
       thenR (send_txs_to_confirm [tx]) (retR True)))"

definition is_yuv_txout_frozen :: "txid \<Rightarrow> u32 \<Rightarrow> storage \<Rightarrow> bool" where
  "is_yuv_txout_frozen t vout st \<longleftrightarrow> get_frozen_tx st \<lparr>op_txid = t, op_vout = vout\<rparr> \<noteq> None"

section \<open>The emulator\<close>

datatype emulate_error =
    CheckFailed check_error
  | ParentTransactionNotFound txid
  | ParentUtxoNotFound txid u32
  | ParentTransactionFrozen txid u32

datatype emulate_response = EmulationInvalid emulate_error | EmulationValid

text \<open>The inputs in order; the map of proofs is keyed by the index of an input.\<close>

definition collect_transfer_parents :: "yuv_transaction \<Rightarrow> proof_map \<Rightarrow> outpoint list" where
  "collect_transfer_parents tx ins =
     concat (map (\<lambda>(vin, i). case map_of ins (word_of_nat vin) of None \<Rightarrow> [] | Some _ \<Rightarrow> [previous_output i])
       (enumerate 0 (tx_input (bitcoin_tx tx))))"

definition extract_parents :: "yuv_transaction \<Rightarrow> outpoint list option" where
  "extract_parents tx =
     (case tx_type tx of
        Issue _ _ \<Rightarrow> None
      | Transfer ins _ \<Rightarrow> Some (collect_transfer_parents tx ins)
      | Announcement _ \<Rightarrow> None)"

definition is_parent_frozen :: "storage \<Rightarrow> outpoint \<Rightarrow> emulate_error + unit" where
  "is_parent_frozen st p =
     (if get_frozen_tx st p \<noteq> None then Inl (ParentTransactionFrozen (op_txid p) (op_vout p)) else Inr ())"

definition check_parent :: "storage \<Rightarrow> outpoint \<Rightarrow> emulate_error + unit" where
  "check_parent st p =
     bindE (ok_or (ParentTransactionNotFound (op_txid p)) (get_yuv_tx st (op_txid p))) (\<lambda>tx.
       case output_proofs (tx_type tx) of
         None \<Rightarrow> Inr ()
       | Some outs \<Rightarrow>
           if map_of outs (op_vout p) = None then Inl (ParentUtxoNotFound (op_txid p) (op_vout p))
           else is_parent_frozen st p)"

definition check_parents :: "storage \<Rightarrow> outpoint list \<Rightarrow> emulate_error + unit" where
  "check_parents st ps = forE (check_parent st) ps"

definition emulate :: "bitcoin_ext \<Rightarrow> storage \<Rightarrow> yuv_transaction \<Rightarrow> emulate_error + unit" where
  "emulate X st tx =
     bindE (map_err CheckFailed (check_transaction X tx)) (\<lambda>_.
       case extract_parents tx of None \<Rightarrow> Inr () | Some ps \<Rightarrow> check_parents st ps)"

definition emulate_yuv_transaction :: "bitcoin_ext \<Rightarrow> storage \<Rightarrow> yuv_transaction \<Rightarrow> emulate_response" where
  "emulate_yuv_transaction X st tx =
     (case emulate X st tx of Inr _ \<Rightarrow> EmulationValid | Inl e \<Rightarrow> EmulationInvalid e)"

section \<open>Lemmas\<close>

lemma from_hex_hex:
  assumes "\<And>bs. unhex (hex bs) = Some bs" and "wf_yuv_tx X tx"
  shows "yuv_tx_from_hex X unhex (yuv_tx_hex X hex tx) = Inr tx"
  using assms by (simp add: yuv_tx_from_hex_def yuv_tx_hex_def dec_enc_yuv_tx ok_or_def bindE_def map_err_def)

lemma found_txs_eq: "found_txs X ts st = map (response_from X) (List.map_filter (get_yuv_tx st) ts)"
  by (induction ts) (auto simp: List.map_filter_simps split: option.splits)

lemma list_page_eq: "list_yuv_transactions X (word_of_nat k) st = found_txs X (page_of st k) st"
  by (simp add: list_yuv_transactions_def page_of_def split: option.splits)

lemma found_txs_append: "found_txs X (ts @ us) st = found_txs X ts st @ found_txs X us st"
  by (induction ts) (auto split: option.splits)

lemma found_txs_concat: "found_txs X (concat tss) st = concat (map (\<lambda>ts. found_txs X ts st) tss)"
  by (induction tss) (simp_all add: found_txs_append)

text \<open>What a client gets that asks for all pages.\<close>

definition all_pages :: "bitcoin_ext \<Rightarrow> storage \<Rightarrow> yuv_transaction_response list" where
  "all_pages X st =
     concat (map (\<lambda>k. list_yuv_transactions X (word_of_nat k) st) [0..<Suc (unat (last_page st))])"

lemma all_pages_eq: "all_pages X st = found_txs X (paged st) st"
  unfolding all_pages_def paged_def found_txs_concat list_page_eq by (simp only: map_map comp_def)

lemma found_txs_cong:
  "(\<And>t. t \<in> set ts \<Longrightarrow> get_yuv_tx st' t = get_yuv_tx st t) \<Longrightarrow> found_txs X ts st' = found_txs X ts st"
  by (induction ts) (auto split: option.splits)

lemma found_txs_all:
  "(\<And>t. t \<in> set ts \<Longrightarrow> get_yuv_tx st t = Some (f t)) \<Longrightarrow> found_txs X ts st = map (response_from X \<circ> f) ts"
  by (induction ts) auto

lemma forE_Inr: "forE f xs = Inr () \<longleftrightarrow> (\<forall>x \<in> set xs. f x = Inr ())"
  by (induction xs) (auto simp: bindE_def split: sum.splits)

lemma check_parent_ok:
  "check_parent st p = Inr () \<longleftrightarrow>
     (\<exists>tx. get_yuv_tx st (op_txid p) = Some tx \<and>
        (\<forall>outs. output_proofs (tx_type tx) = Some outs \<longrightarrow>
           map_of outs (op_vout p) \<noteq> None \<and> get_frozen_tx st p = None))"
  by (auto simp: check_parent_def is_parent_frozen_def bindE_def ok_or_def split: option.splits)

lemma spent_in_parents:
  assumes "(i, pf) \<in> set ins" and "unat i < length (tx_input (bitcoin_tx tx))"
  shows "spent_output tx i \<in> set (collect_transfer_parents tx ins)"
proof -
  have "map_of ins i \<noteq> None" using assms(1) by (auto dest: weak_map_of_SomeI)
  then have "spent_output tx i \<in> set (case map_of ins (word_of_nat (unat i)) of None \<Rightarrow> []
      | Some _ \<Rightarrow> [previous_output (tx_input (bitcoin_tx tx) ! unat i)])"
    by (auto simp: spent_output_def)
  moreover have "(unat i, tx_input (bitcoin_tx tx) ! unat i) \<in> set (enumerate 0 (tx_input (bitcoin_tx tx)))"
    using assms(2) by (simp add: in_set_enumerate_eq)
  ultimately show ?thesis
    unfolding collect_transfer_parents_def by (force simp: split_def)
qed

lemma parents_spent:
  assumes "length (tx_input (bitcoin_tx tx)) < 2 ^ 32" and "p \<in> set (collect_transfer_parents tx ins)"
  shows "\<exists>i pf. (i, pf) \<in> set ins \<and> p = spent_output tx i"
proof -
  obtain vin pf where "vin < length (tx_input (bitcoin_tx tx))" "map_of ins (word_of_nat vin) = Some pf"
    "p = previous_output (tx_input (bitcoin_tx tx) ! vin)"
    using assms(2) by (fastforce simp: collect_transfer_parents_def in_set_enumerate_eq split: option.splits)
  moreover from this assms(1) have "unat (word_of_nat vin :: u32) = vin" by (simp add: unat_of_nat)
  ultimately show ?thesis
    by (intro exI [of _ "word_of_nat vin"] exI [of _ pf]) (auto simp: spent_output_def dest: map_of_SomeD)
qed

lemma emulate_transfer_parents:
  assumes "emulate X st tx = Inr ()" and "tx_type tx = Transfer ins outs"
  shows "check_transfer_isolated X (bitcoin_tx tx) ins outs = Inr ()"
    and "(i, pf) \<in> set ins \<Longrightarrow> check_parent st (spent_output tx i) = Inr ()"
proof -
  have ok: "check_transfer_isolated X (bitcoin_tx tx) ins outs = Inr ()"
    and ps: "forE (check_parent st) (collect_transfer_parents tx ins) = Inr ()"
    using assms by (auto simp: emulate_def check_transaction_def extract_parents_def check_parents_def
        bindE_def map_err_def split: sum.splits)
  show "check_transfer_isolated X (bitcoin_tx tx) ins outs = Inr ()" by (fact ok)
  show "check_parent st (spent_output tx i) = Inr ()" if "(i, pf) \<in> set ins"
    using ps spent_in_parents [OF that] isolated_input_range [OF ok] that by (auto simp: forE_Inr)
qed

section \<open>Properties\<close>

text \<open>Sending the hex form of a transaction is sending the transaction.\<close>

lemma hex_send_same:
  assumes "\<And>bs. unhex (hex bs) = Some bs" and "wf_yuv_tx X tx"
  shows "send_yuv_tx X unhex rpc (yuv_tx_hex X hex tx) max_burn = send_raw_yuv_tx rpc tx max_burn"
  by (simp add: send_yuv_tx_def send_raw_yuv_tx_def from_hex_hex [OF assms] map_err_def liftR_def bindR_def fun_eq_iff)

text \<open>C35. A client that reads all pages sees the attached transactions in the order in which they were
  attached: handling a batch appends its transactions to the listing and leaves the rest.\<close>

theorem attached_txs_listed:
  assumes "keyed X (svc_storage s)" and "distinct ts"
    and "\<And>t. t \<in> set ts \<Longrightarrow> get_mempool_entry (svc_storage s) t \<noteq> None"
    and "tx_per_page s \<noteq> 0" and "pages_wf (tx_per_page s) (svc_storage s)"
    and "unat (last_page (svc_storage s)) + length ts < 2 ^ 64"
    and "set (paged (svc_storage s)) \<inter> set ts = {}"
  shows "\<exists>s'. handle_attached_txs X ts s = (Inr (), s') \<and>
    all_pages X (svc_storage s') = all_pages X (svc_storage s) @
      map (\<lambda>t. response_from X (yuv_tx (the (get_mempool_entry (svc_storage s) t)))) ts"
proof -
  obtain st' where st': "handle_attached_txs X ts s = (Inr (), s\<lparr>svc_storage := st'\<rparr>)"
    "\<And>t. t \<in> set ts \<Longrightarrow> get_yuv_tx st' t = map_option yuv_tx (get_mempool_entry (svc_storage s) t)"
    "\<And>t. t \<notin> set ts \<Longrightarrow> get_yuv_tx st' t = get_yuv_tx (svc_storage s) t"
    "paged st' = paged (svc_storage s) @ ts"
    using handle_attached_ok [OF assms(1-6)] by blast
  have "found_txs X (paged (svc_storage s)) st' = found_txs X (paged (svc_storage s)) (svc_storage s)"
    using st'(3) assms(7) by (intro found_txs_cong) blast
  moreover have "found_txs X ts st' =
      map (response_from X \<circ> (\<lambda>t. yuv_tx (the (get_mempool_entry (svc_storage s) t)))) ts"
    using st'(2) assms(3) by (intro found_txs_all) force
  ultimately show ?thesis
    using st'(1,4) by (simp add: all_pages_eq found_txs_append comp_def)
qed

section \<open>Witnesses\<close>

definition sample_hex :: "bytes \<Rightarrow> string" where
  "sample_hex bs = map (\<lambda>b. char_of (unat b)) bs"

definition sample_unhex :: "string \<Rightarrow> bytes option" where
  "sample_unhex s = Some (map (\<lambda>c. word_of_nat (of_char c)) s)"

lemma sample_unhex_hex: "sample_unhex (sample_hex bs) = Some bs"
proof -
  have "word_of_nat (unat b mod 256) = b" for b :: u8
    using unat_bound [of b] by simp
  then show ?thesis by (simp add: sample_unhex_def sample_hex_def comp_def)
qed

lemma hex_send_same_witness:
  "send_yuv_tx sample_ext sample_unhex sample_rpc (yuv_tx_hex sample_ext sample_hex sample_transfer_tx) (Some 9) =
   send_raw_yuv_tx sample_rpc sample_transfer_tx (Some 9)"
  by (rule hex_send_same [OF sample_unhex_hex sample_wf_yuv_txs(1)])

theorem attached_txs_listed_witness:
  "let s = sample_controller; ts = [yuv_txid sample_ext (sample_ytx 1)]
   in \<exists>s'. handle_attached_txs sample_ext ts s = (Inr (), s') \<and>
    all_pages sample_ext (svc_storage s') = all_pages sample_ext (svc_storage s) @
      map (\<lambda>t. response_from sample_ext (yuv_tx (the (get_mempool_entry (svc_storage s) t)))) ts"
  unfolding Let_def
  by (rule attached_txs_listed) (simp_all add: sample_keyed pages_wf_def paged_def)

end
