(* ===== verification/Indexer.thy ===== *)
theory Indexer
  imports Services Bitcoin_Rpc "HOL-Library.Multiset"
begin

text \<open>
  The indexer (\<open>indexers/src/indexer.rs\<close>), its sub-indexers (\<open>subindexer/\<close>) and the loader of
  missed blocks (\<open>blockloader/\<close>) with its workers. The tasks of the loader talk over channels: the
  order in which they run, and what the Bitcoin node answers each time, is a schedule, an argument
  of the loader. The events the indexer receives are the list the loader has sent. \<open>hash_of_str\<close> is \<open>BlockHash::from_str\<close> on the
  hashes the source contains.
\<close>

section \<open>Genesis blocks\<close>

definition MAINNET_GENESIS_BLOCK :: string where
  "MAINNET_GENESIS_BLOCK = ''00000000000000000000cde86faf8ea6994e4ca31ed351e55912f617f5dd8ee8''"

definition TESTNET_GENESIS_BLOCK :: string where
  "TESTNET_GENESIS_BLOCK = ''000000008ce763d0e9906fc5b50acdd7c8ddc5b1413b1b526f386500628a505c''"

definition MUTINY_GENESIS_BLOCK :: string where
  "MUTINY_GENESIS_BLOCK = ''000002d06087e074a71f1e8e805dcb3264fa9ff4700250ba3f0e95ab05e61afa''"

fun get_block_by_network :: "network \<Rightarrow> string option" where
  "get_block_by_network Bitcoin = Some MAINNET_GENESIS_BLOCK"
| "get_block_by_network Testnet = Some TESTNET_GENESIS_BLOCK"
| "get_block_by_network Mutiny = Some MUTINY_GENESIS_BLOCK"
| "get_block_by_network _ = None"

definition yuv_genesis_block :: "(string \<Rightarrow> block_hash) \<Rightarrow> network \<Rightarrow> block_hash option" where
  "yuv_genesis_block hash_of_str net = map_option hash_of_str (get_block_by_network net)"

section \<open>Sub-indexers\<close>

datatype subindexer = AnnouncementsIndexer network | ConfirmationIndexer

fun last_announcement :: "bitcoin_ext \<Rightarrow> txout list \<Rightarrow> announcement option \<Rightarrow> announcement option" where
  "last_announcement X [] found = found"
| "last_announcement X (out # outs) found =
     last_announcement X outs
       (case announcement_from_script X (script_pubkey out) of Inr a \<Rightarrow> Some a | Inl _ \<Rightarrow> found)"

fun announcements_in :: "bitcoin_ext \<Rightarrow> network \<Rightarrow> nat \<Rightarrow> transaction list \<Rightarrow> yuv_transaction list" where
  "announcements_in X net height [] = []"
| "announcements_in X net height (tx # txs) =
     (if x_is_coin_base X tx then announcements_in X net height txs
      else case last_announcement X (tx_output tx) None of
        None \<Rightarrow> announcements_in X net height txs
      | Some a \<Rightarrow>
          if height < minimal_block_height a net then announcements_in X net height txs
          else \<lparr>bitcoin_tx = tx, tx_type = Announcement a\<rparr> # announcements_in X net height txs)"

definition find_announcements ::
  "bitcoin_ext \<Rightarrow> network \<Rightarrow> block \<Rightarrow> ('z service_scheme, 'e, unit) run" where
  "find_announcements X net b =
     (let txs = announcements_in X net (block_height b) (block_tx b)
      in whenR (txs \<noteq> []) (sendR (ToController (InitializeTxs txs))))"

definition handle_new_block_confirmation :: "block \<Rightarrow> ('z service_scheme, 'e, unit) run" where
  "handle_new_block_confirmation b = sendR (ToTxConfirm (ConfirmBlock b))"

fun subindex :: "bitcoin_ext \<Rightarrow> subindexer \<Rightarrow> block \<Rightarrow> ('z service_scheme, 'e, unit) run" where
  "subindex X (AnnouncementsIndexer net) b = find_announcements X net b"
| "subindex X ConfirmationIndexer b = handle_new_block_confirmation b"

section \<open>The indexer\<close>

record indexer = service +
  subindexers :: "subindexer list"
  confirmed_block_height :: nat
  confirmed_block_hash :: "block_hash option"
  indexer_network :: network

datatype index_error =
    IndexRpc rpc_error
  | BlocksMustBeSequential nat nat
  | IndexingCancelled
  | BlockLoaderFailed
  | LoaderAndIndexerFailed index_error

type_synonym 'a indexing = "(indexer, index_error, 'a) run"

definition new_indexer :: "storage \<Rightarrow> network \<Rightarrow> indexer" where
  "new_indexer st net =
     \<lparr>svc_storage = st, svc_sent = [], subindexers = [], confirmed_block_height = 0,
      confirmed_block_hash = None, indexer_network = net\<rparr>"

definition add_subindexer :: "subindexer \<Rightarrow> indexer \<Rightarrow> indexer" where
  "add_subindexer i s = s\<lparr>subindexers := subindexers s @ [i]\<rparr>"

definition get_block_height :: "bitcoin_rpc \<Rightarrow> block_hash \<Rightarrow> nat indexing" where
  "get_block_height rpc h =
     bindR (liftR (map_err IndexRpc (get_block_info rpc h))) (\<lambda>b. retR (block_height b))"

definition get_block_by_height :: "bitcoin_rpc \<Rightarrow> nat \<Rightarrow> block indexing" where
  "get_block_by_height rpc height =
     liftR (map_err IndexRpc (bindE (get_block_hash rpc height) (get_block_txs rpc)))"

definition index_block :: "bitcoin_ext \<Rightarrow> block \<Rightarrow> unit indexing" where
  "index_block X b =
     bindR (getR subindexers) (\<lambda>subs.
       thenR (forR (\<lambda>i. subindex X i b) subs) (modS (put_last_indexed_hash (block_hash b))))"

definition handle_reorganization_indexer :: "bitcoin_rpc \<Rightarrow> nat \<Rightarrow> unit indexing" where
  "handle_reorganization_indexer rpc new_height =
     thenR (modR (\<lambda>s. s\<lparr>confirmed_block_height := new_height\<rparr>))
       (bindR (get_block_by_height rpc new_height) (\<lambda>b.
          modR (\<lambda>s. s\<lparr>confirmed_block_hash := Some (block_hash b)\<rparr>)))"

fun handle_indexer_event :: "bitcoin_rpc \<Rightarrow> indexer_message \<Rightarrow> unit indexing" where
  "handle_indexer_event rpc (IndexerReorganization height) = handle_reorganization_indexer rpc height"

definition handle_new_blocks :: "bitcoin_ext \<Rightarrow> bitcoin_rpc \<Rightarrow> unit indexing" where
  "handle_new_blocks X rpc =
     bindR (liftR (map_err IndexRpc (get_block_count rpc))) (\<lambda>best.
     bindR (getR confirmed_block_height) (\<lambda>confirmed.
       if best = confirmed then retR ()
       else
         bindR (get_block_by_height rpc (confirmed + 1)) (\<lambda>b.
         bindR (getR confirmed_block_hash) (\<lambda>last_hash.
           if last_hash = Some (block_hash b) then retR ()
           else
             thenR (index_block X b)
               (modR (\<lambda>s. s\<lparr>confirmed_block_height := block_height b,
                            confirmed_block_hash := Some (block_hash b)\<rparr>))))))"

section \<open>Initial indexing\<close>

datatype index_blocks_event = LoadedBlocks "block list" | FinishLoading | Cancelled

fun init_blocks_handle :: "bitcoin_ext \<Rightarrow> block list \<Rightarrow> nat \<Rightarrow> nat indexing" where
  "init_blocks_handle X [] next_height = retR next_height"
| "init_blocks_handle X (b # bs) next_height =
     (if block_height b \<noteq> next_height then failR (BlocksMustBeSequential next_height (block_height b))
      else thenR (index_block X b) (init_blocks_handle X bs (next_height + 1)))"

fun handle_initial_blocks :: "bitcoin_ext \<Rightarrow> index_blocks_event list \<Rightarrow> nat \<Rightarrow> unit indexing" where
  "handle_initial_blocks X [] next_height = retR ()"
| "handle_initial_blocks X (FinishLoading # evs) next_height = retR ()"
| "handle_initial_blocks X (LoadedBlocks bs # evs) next_height =
     bindR (init_blocks_handle X bs next_height) (\<lambda>next_height. handle_initial_blocks X evs next_height)"
| "handle_initial_blocks X (Cancelled # evs) next_height = failR IndexingCancelled"

definition get_starting_block_height ::
  "(string \<Rightarrow> block_hash) \<Rightarrow> bitcoin_rpc \<Rightarrow> block_hash option \<Rightarrow> nat indexing" where
  "get_starting_block_height hash_of_str rpc starting_block_hash =
     bindR (getR indexer_network) (\<lambda>net.
     bindR (case yuv_genesis_block hash_of_str net of
              None \<Rightarrow> retR 0
            | Some h \<Rightarrow> get_block_height rpc h) (\<lambda>start.
     bindR (getS get_is_indexed) (\<lambda>is_indexed.
       if is_indexed = None then retR start
       else
         bindR (getS get_last_indexed_hash) (\<lambda>last_indexed.
         bindR (case last_indexed of
                  None \<Rightarrow> retR start
                | Some h \<Rightarrow> bindR (get_block_height rpc h) (\<lambda>n. retR (n + 1))) (\<lambda>start.
           case starting_block_hash of
             None \<Rightarrow> retR start
           | Some h \<Rightarrow> get_block_height rpc h)))))"

text \<open>
  \<open>run_loader\<close> gives, for a starting height, the result of the loader task and the events it has sent
  when it returns. The header of the last indexed block is read with \<open>get_block_info\<close>.
\<close>

definition index_init ::
  "bitcoin_ext \<Rightarrow> (string \<Rightarrow> block_hash) \<Rightarrow> bitcoin_rpc \<Rightarrow> (nat \<Rightarrow> bool \<times> index_blocks_event list) \<Rightarrow>
   block_hash option \<Rightarrow> nat \<Rightarrow> unit indexing" where
  "index_init X hash_of_str rpc run_loader starting_block_hash confirmations_number =
     bindR (get_starting_block_height hash_of_str rpc starting_block_hash) (\<lambda>start.
       let start = start - usize_pred confirmations_number;
           (loader_ok, evs) = run_loader start
       in (\<lambda>s. case handle_initial_blocks X evs start s of
              (Inl e, s) \<Rightarrow> (Inl (if loader_ok then e else LoaderAndIndexerFailed e), s)
            | (Inr _, s) \<Rightarrow>
                if \<not> loader_ok then (Inl BlockLoaderFailed, s)
                else bindR (getS get_last_indexed_hash) (\<lambda>last_indexed.
                  bindR (liftR (map_err IndexRpc (case last_indexed of
                           Some h \<Rightarrow> Inr h | None \<Rightarrow> get_block_hash rpc 0))) (\<lambda>h.
                  bindR (liftR (map_err IndexRpc (get_block_info rpc h))) (\<lambda>b.
                  thenR (modR (\<lambda>s. s\<lparr>confirmed_block_hash := Some h, confirmed_block_height := block_height b\<rparr>))
                    (modS put_is_indexed)))) s))"

section \<open>The block loader\<close>

datatype fetch_loaded_block_event = Loaded block | FailedBlock nat

text \<open>A worker and the request it is working on.\<close>

record worker =
  rate_limit_reached :: bool
  w_request :: "nat option"

text \<open>
  The loader, its workers and the two channels between them: \<open>load_requests\<close> to the workers and
  \<open>load_answers\<close> back.
\<close>

record block_loader =
  loaded_blocks :: "block list"
  received_blocks :: nat
  load_requests :: "nat list"
  load_answers :: "fetch_loaded_block_event list"
  workers :: "worker list"

definition new_worker :: worker where
  "new_worker = \<lparr>rate_limit_reached = False, w_request = None\<rparr>"

definition new_block_loader :: "nat \<Rightarrow> block_loader" where
  "new_block_loader workers_number =
     \<lparr>loaded_blocks = [], received_blocks = 0, load_requests = [], load_answers = [],
      workers = replicate workers_number new_worker\<rparr>"

text \<open>
  A worker answers a request with the block or with its height. \<open>limited\<close> says whether an error
  is the one of the rate limit.
\<close>

definition handle_load_event ::
  "(rpc_error \<Rightarrow> bool) \<Rightarrow> bitcoin_rpc \<Rightarrow> nat \<Rightarrow> worker \<Rightarrow> fetch_loaded_block_event \<times> worker" where
  "handle_load_event limited rpc height w =
     (case bindE (get_block_hash rpc height) (get_block_txs rpc) of
        Inr b \<Rightarrow> (Loaded b, w)
      | Inl e \<Rightarrow> (FailedBlock height, if limited e then w\<lparr>rate_limit_reached := True\<rparr> else w))"

text \<open>
  A turn of worker \<open>i\<close>: it answers the request it is working on, or its sleep ends, or it takes the
  next request, or there is none and it waits. \<open>rpc\<close> is how the node answers in this turn.
\<close>

definition worker_run :: "(rpc_error \<Rightarrow> bool) \<Rightarrow> nat \<Rightarrow> bitcoin_rpc \<Rightarrow> block_loader \<Rightarrow> block_loader" where
  "worker_run limited i rpc l =
     (if length (workers l) \<le> i then l
      else let w = workers l ! i in
        case w_request w of
          Some height \<Rightarrow>
            (case handle_load_event limited rpc height w of (ev, w) \<Rightarrow>
               l\<lparr>load_answers := load_answers l @ [ev], workers := (workers l)[i := w\<lparr>w_request := None\<rparr>]\<rparr>)
        | None \<Rightarrow>
            if rate_limit_reached w then l\<lparr>workers := (workers l)[i := w\<lparr>rate_limit_reached := False\<rparr>]\<rparr>
            else (case load_requests l of
                    [] \<Rightarrow> l
                  | height # rest \<Rightarrow>
                      l\<lparr>load_requests := rest, workers := (workers l)[i := w\<lparr>w_request := Some height\<rparr>]\<rparr>))"

fun handle_fetch_event :: "fetch_loaded_block_event \<Rightarrow> block_loader \<Rightarrow> block_loader" where
  "handle_fetch_event (Loaded b) l =
     l\<lparr>loaded_blocks := loaded_blocks l @ [b], received_blocks := received_blocks l + 1\<rparr>"
| "handle_fetch_event (FailedBlock height) l = l\<lparr>load_requests := load_requests l @ [height]\<rparr>"

definition send_load_blocks :: "nat list \<Rightarrow> block_loader \<Rightarrow> block_loader" where
  "send_load_blocks heights l = l\<lparr>load_requests := load_requests l @ heights\<rparr>"

text \<open>
  The loop that waits for the blocks of a chunk, along a schedule of turns. The result is the loader
  and what is left of the schedule when the chunk is complete, or \<open>None\<close> if it is still waiting.
\<close>

datatype loader_turn = WorkerRuns nat bitcoin_rpc | LoaderReceives

fun handle_loaded_blocks ::
  "(rpc_error \<Rightarrow> bool) \<Rightarrow> loader_turn list \<Rightarrow> nat \<Rightarrow> block_loader \<Rightarrow> (block_loader \<times> loader_turn list) option" where
  "handle_loaded_blocks limited [] size_of_chunk l = None"
| "handle_loaded_blocks limited (WorkerRuns i rpc # turns) size_of_chunk l =
     handle_loaded_blocks limited turns size_of_chunk (worker_run limited i rpc l)"
| "handle_loaded_blocks limited (LoaderReceives # turns) size_of_chunk l =
     (case load_answers l of
        [] \<Rightarrow> handle_loaded_blocks limited turns size_of_chunk l
      | ev # evs \<Rightarrow>
          let l = handle_fetch_event ev (l\<lparr>load_answers := evs\<rparr>) in
          if received_blocks l = size_of_chunk then Some (l\<lparr>received_blocks := 0\<rparr>, turns)
          else handle_loaded_blocks limited turns size_of_chunk l)"

fun sequential_prefix :: "block list \<Rightarrow> block list" where
  "sequential_prefix (a # b # bs) =
     (if block_height a + 1 \<noteq> block_height b then [a] else a # sequential_prefix (b # bs))"
| "sequential_prefix bs = bs"

definition send_loaded_blocks :: "block_loader \<Rightarrow> index_blocks_event \<times> block_loader" where
  "send_loaded_blocks l =
     (LoadedBlocks (sequential_prefix (sort_key block_height (loaded_blocks l))), l\<lparr>loaded_blocks := []\<rparr>)"

fun load_chunks ::
  "(rpc_error \<Rightarrow> bool) \<Rightarrow> nat list list \<Rightarrow> loader_turn list \<Rightarrow> block_loader \<Rightarrow> index_blocks_event list option" where
  "load_chunks limited [] turns l = Some []"
| "load_chunks limited (c # cs) turns l =
     (case handle_loaded_blocks limited turns (length c) (send_load_blocks c l) of
        None \<Rightarrow> None
      | Some (l, turns) \<Rightarrow>
          (case send_loaded_blocks l of (ev, l) \<Rightarrow> map_option (\<lambda>evs. ev # evs) (load_chunks limited cs turns l)))"

fun handle_remained_blocks :: "fetch_loaded_block_event list \<Rightarrow> block_loader \<Rightarrow> block_loader" where
  "handle_remained_blocks [] l = l"
| "handle_remained_blocks (ev # evs) l = handle_remained_blocks evs (handle_fetch_event ev l)"

text \<open>
  The events the loader has sent when its task returns, and whether it returns without a panic. An
  error of \<open>handle_new_blocks\<close> is dropped by \<open>select!\<close>; a chunk size of zero panics.
\<close>

definition run_loader ::
  "(rpc_error \<Rightarrow> bool) \<Rightarrow> bitcoin_rpc \<Rightarrow> nat \<Rightarrow> loader_turn list \<Rightarrow> nat \<Rightarrow> nat \<Rightarrow> (bool \<times> index_blocks_event list) option" where
  "run_loader limited rpc workers_number turns size_of_chunk start =
     (if size_of_chunk = 0 then Some (False, [])
      else case get_block_count rpc of
        Inl _ \<Rightarrow> Some (True, [])
      | Inr n \<Rightarrow>
          map_option (\<lambda>evs. (True, evs @ [FinishLoading]))
            (load_chunks limited (chunks size_of_chunk [start..<Suc n]) turns (new_block_loader workers_number)))"

definition cancel_loader ::
  "fetch_loaded_block_event list \<Rightarrow> block_loader \<Rightarrow> index_blocks_event list" where
  "cancel_loader evs l = [fst (send_loaded_blocks (handle_remained_blocks evs l)), Cancelled]"

section \<open>What is sent for a block\<close>

fun subindex_events :: "bitcoin_ext \<Rightarrow> subindexer \<Rightarrow> block \<Rightarrow> bus_message list" where
  "subindex_events X (AnnouncementsIndexer net) b =
     (let txs = announcements_in X net (block_height b) (block_tx b)
      in if txs = [] then [] else [ToController (InitializeTxs txs)])"
| "subindex_events X ConfirmationIndexer b = [ToTxConfirm (ConfirmBlock b)]"

definition index_events :: "bitcoin_ext \<Rightarrow> subindexer list \<Rightarrow> block \<Rightarrow> bus_message list" where
  "index_events X subs b = concat (map (\<lambda>i. subindex_events X i b) subs)"

lemma subindex_eq: "subindex X i b s = (Inr (), s\<lparr>svc_sent := svc_sent s @ subindex_events X i b\<rparr>)"
  by (cases i) (simp_all add: find_announcements_def handle_new_block_confirmation_def Let_def whenR_def
      service_eqs retR_def)

lemma for_subindex: "forR (\<lambda>i. subindex X i b) subs s = (Inr (), s\<lparr>svc_sent := svc_sent s @ index_events X subs b\<rparr>)"
  by (induction subs arbitrary: s)
     (simp_all add: retR_def bindR_def subindex_eq [of X _ b s for s] index_events_def)

lemma index_block_eq:
  "index_block X b s = (Inr (), s\<lparr>svc_sent := svc_sent s @ index_events X (subindexers s) b,
     svc_storage := put_last_indexed_hash (block_hash b) (svc_storage s)\<rparr>)"
  by (simp add: index_block_def run_defs for_subindex service_eqs)

text \<open>\<open>indexed X bs s\<close>: the service after the blocks \<open>bs\<close> were indexed.\<close>

definition indexed :: "bitcoin_ext \<Rightarrow> block list \<Rightarrow> indexer \<Rightarrow> indexer" where
  "indexed X bs s = s\<lparr>svc_sent := svc_sent s @ concat (map (index_events X (subindexers s)) bs),
     svc_storage := foldl (\<lambda>st b. put_last_indexed_hash (block_hash b) st) (svc_storage s) bs\<rparr>"

lemma indexed_simps [simp]:
  "indexed X [] s = s" "subindexers (indexed X bs s) = subindexers s"
  "confirmed_block_height (indexed X bs s) = confirmed_block_height s"
  by (simp_all add: indexed_def)

lemma indexed_append: "indexed X (as @ bs) s = indexed X bs (indexed X as s)"
  by (simp add: indexed_def)

lemma index_block_indexed: "index_block X b s = (Inr (), indexed X [b] s)"
  by (simp add: index_block_eq indexed_def)

lemma init_blocks_sequential:
  "map block_height bs = [h..<h + length bs] \<Longrightarrow>
   init_blocks_handle X bs h s = (Inr (h + length bs), indexed X bs s)"
proof (induction bs arbitrary: h s)
  case (Cons b bs)
  then have "block_height b = h" "map block_height bs = [Suc h..<Suc h + length bs]"
    by (simp_all add: upt_conv_Cons del: upt_Suc)
  with Cons.IH [of "Suc h" "indexed X [b] s"] indexed_append [of X "[b]" bs s] show ?case
    by (simp add: thenR_def bindR_def index_block_indexed)
qed (simp add: retR_def)

section \<open>The loader delivers a chunk\<close>

text \<open>\<open>serves rpc chain n\<close>: the node has the blocks \<open>chain 0, \<dots>, chain n\<close>.\<close>

definition serves :: "bitcoin_rpc \<Rightarrow> (nat \<Rightarrow> block) \<Rightarrow> nat \<Rightarrow> bool" where
  "serves rpc chain n \<longleftrightarrow>
     get_block_count rpc = Inr n \<and>
     (\<forall>h \<le> n. get_block_hash rpc h = Inr (block_hash (chain h)) \<and>
        get_block_txs rpc (block_hash (chain h)) = Inr (chain h) \<and>
        get_block_info rpc (block_hash (chain h)) = Inr (chain h) \<and> block_height (chain h) = h)"

text \<open>
  \<open>on_chain chain rpc\<close>: a request for a block may fail, but a block the node gives for a height is
  the one of the chain. A schedule is on the chain if the node is, in every turn of a worker.
\<close>

definition on_chain :: "(nat \<Rightarrow> block) \<Rightarrow> bitcoin_rpc \<Rightarrow> bool" where
  "on_chain chain rpc \<longleftrightarrow>
     (\<forall>h x b. get_block_hash rpc h = Inr x \<longrightarrow> get_block_txs rpc x = Inr b \<longrightarrow> b = chain h)"

lemma on_chainD: "on_chain chain rpc \<Longrightarrow> get_block_hash rpc h = Inr x \<Longrightarrow> get_block_txs rpc x = Inr b \<Longrightarrow> b = chain h"
  unfolding on_chain_def by blast

definition turns_on_chain :: "(nat \<Rightarrow> block) \<Rightarrow> loader_turn list \<Rightarrow> bool" where
  "turns_on_chain chain turns \<longleftrightarrow> (\<forall>i rpc. WorkerRuns i rpc \<in> set turns \<longrightarrow> on_chain chain rpc)"

text \<open>A round: every worker has a turn in which the node answers, then the loader.\<close>

definition loader_round :: "bitcoin_rpc \<Rightarrow> nat \<Rightarrow> loader_turn list" where
  "loader_round rpc w = map (\<lambda>i. WorkerRuns i rpc) [0..<w] @ [LoaderReceives]"

text \<open>
  Where the heights of a chunk are: still requested, with a worker, in an answer, or loaded. They
  never get lost.
\<close>

fun answered_height :: "fetch_loaded_block_event \<Rightarrow> nat" where
  "answered_height (Loaded b) = block_height b"
| "answered_height (FailedBlock h) = h"

fun held :: "worker \<Rightarrow> nat multiset" where
  "held w = (case w_request w of None \<Rightarrow> {#} | Some h \<Rightarrow> {#h#})"

primrec in_work :: "worker list \<Rightarrow> nat multiset" where
  "in_work [] = {#}"
| "in_work (w # ws) = held w + in_work ws"

definition chunk_inv :: "(nat \<Rightarrow> block) \<Rightarrow> nat list \<Rightarrow> block_loader \<Rightarrow> bool" where
  "chunk_inv chain c l \<longleftrightarrow>
     mset (load_requests l) + in_work (workers l) + mset (map answered_height (load_answers l)) + mset (map block_height (loaded_blocks l)) = mset c \<and>
     (\<forall>b. Loaded b \<in> set (load_answers l) \<or> b \<in> set (loaded_blocks l) \<longrightarrow> b = chain (block_height b)) \<and>
     received_blocks l = length (loaded_blocks l)"

lemma in_work_split:
  "i < length ws \<Longrightarrow> \<exists>rest. in_work ws = held (ws ! i) + rest \<and> (\<forall>w. in_work (ws[i := w]) = held w + rest)"
proof (induction ws arbitrary: i)
  case (Cons v ws)
  show ?case
  proof (cases i)
    case (Suc j)
    with Cons obtain rest where "in_work ws = held (ws ! j) + rest" "\<And>w. in_work (ws[j := w]) = held w + rest" by auto
    with Suc show ?thesis by (intro exI [of _ "held v + rest"]) (simp add: ac_simps del: held.simps)
  qed (intro exI [of _ "in_work ws"], simp)
qed simp

text \<open>A turn, without the test for the end of the chunk.\<close>

fun loader_turn_step :: "(rpc_error \<Rightarrow> bool) \<Rightarrow> loader_turn \<Rightarrow> block_loader \<Rightarrow> block_loader" where
  "loader_turn_step limited (WorkerRuns i rpc) l = worker_run limited i rpc l"
| "loader_turn_step limited LoaderReceives l =
     (case load_answers l of [] \<Rightarrow> l | ev # evs \<Rightarrow> handle_fetch_event ev (l\<lparr>load_answers := evs\<rparr>))"

lemma worker_run_frame [simp]:
  "received_blocks (worker_run limited i rpc l) = received_blocks l"
  "loaded_blocks (worker_run limited i rpc l) = loaded_blocks l"
  "length (workers (worker_run limited i rpc l)) = length (workers l)"
  by (auto simp: worker_run_def Let_def split: option.splits list.splits prod.splits)

lemma handle_loaded_step:
  assumes "received_blocks l < n"
  shows "handle_loaded_blocks limited (a # turns) n l =
    (let l' = loader_turn_step limited a l in
     if received_blocks l' = n then Some (l'\<lparr>received_blocks := 0\<rparr>, turns) else handle_loaded_blocks limited turns n l')"
  using assms by (cases a) (auto simp: Let_def split: list.splits)

lemma worker_run_inv:
  assumes "chunk_inv chain c l" and "\<And>h. block_height (chain h) = h" and "on_chain chain rpc"
  shows "chunk_inv chain c (worker_run limited i rpc l)"
proof (cases "i < length (workers l)")
  case True
  let ?w = "workers l ! i"
  obtain rest where rest: "in_work (workers l) = held ?w + rest" "\<And>w. in_work ((workers l)[i := w]) = held w + rest"
    using in_work_split [OF True] by blast
  show ?thesis
  proof (cases "w_request ?w")
    case (Some h)
    obtain ev w where ev: "handle_load_event limited rpc h ?w = (ev, w)" by (cases "handle_load_event limited rpc h ?w")
    have "answered_height ev = h \<and> (\<forall>b. ev = Loaded b \<longrightarrow> b = chain (block_height b))"
      using ev assms(2) by (auto simp: handle_load_event_def bindE_def dest!: on_chainD [OF assms(3)] split: sum.splits)
    with Some True assms(1) ev rest show ?thesis by (auto simp: worker_run_def Let_def chunk_inv_def)
  next
    case None
    with True assms(1) rest show ?thesis by (auto simp: worker_run_def Let_def chunk_inv_def split: list.splits)
  qed
qed (use assms(1) in \<open>simp add: worker_run_def\<close>)

lemma turn_inv:
  assumes "chunk_inv chain c l" and "\<And>h. block_height (chain h) = h" and "turns_on_chain chain [a]"
  shows "chunk_inv chain c (loader_turn_step limited a l)"
proof (cases a)
  case (WorkerRuns i rpc)
  with worker_run_inv [OF assms(1,2)] assms(3) show ?thesis by (simp add: turns_on_chain_def)
next
  case LoaderReceives
  show ?thesis
  proof (cases "load_answers l")
    case (Cons ev evs)
    with assms(1) LoaderReceives show ?thesis by (cases ev) (auto simp: chunk_inv_def)
  qed (use assms(1) LoaderReceives in simp)
qed

text \<open>
  Progress: a turn in which the node answers either leaves everything as it is or brings the chunk
  nearer to its end. The weight of a height is three while it is requested, two with a worker, one
  in an answer with the block and four in an answer without.
\<close>

fun answer_weight :: "fetch_loaded_block_event \<Rightarrow> nat" where
  "answer_weight (Loaded _) = 1"
| "answer_weight (FailedBlock _) = 4"

definition chunk_weight :: "block_loader \<Rightarrow> nat" where
  "chunk_weight l = 3 * length (load_requests l) + 2 * size (in_work (workers l)) + sum_list (map answer_weight (load_answers l)) +
     length (filter rate_limit_reached (workers l))"

lemma limited_split:
  "i < length ws \<Longrightarrow> \<exists>n. length (filter rate_limit_reached ws) = of_bool (rate_limit_reached (ws ! i)) + n \<and>
     (\<forall>w. length (filter rate_limit_reached (ws[i := w])) = of_bool (rate_limit_reached w) + n)"
proof (induction ws arbitrary: i)
  case (Cons v ws)
  show ?case
  proof (cases i)
    case (Suc j)
    with Cons obtain n where "length (filter rate_limit_reached ws) = of_bool (rate_limit_reached (ws ! j)) + n"
      "\<And>w. length (filter rate_limit_reached (ws[j := w])) = of_bool (rate_limit_reached w) + n" by auto
    with Suc show ?thesis by (intro exI [of _ "of_bool (rate_limit_reached v) + n"]) simp
  qed (intro exI [of _ "length (filter rate_limit_reached ws)"], simp)
qed simp

lemma worker_run_weight:
  assumes "serves rpc chain n" and "set_mset (in_work (workers l)) \<subseteq> {..n}"
  shows "worker_run limited i rpc l = l \<or> chunk_weight (worker_run limited i rpc l) < chunk_weight l"
proof (cases "i < length (workers l)")
  case True
  let ?w = "workers l ! i"
  obtain rest where rest: "in_work (workers l) = held ?w + rest" "\<And>w. in_work ((workers l)[i := w]) = held w + rest"
    using in_work_split [OF True] by blast
  obtain k where lim: "length (filter rate_limit_reached (workers l)) = of_bool (rate_limit_reached ?w) + k"
    "\<And>w. length (filter rate_limit_reached ((workers l)[i := w])) = of_bool (rate_limit_reached w) + k"
    using limited_split [OF True] by blast
  show ?thesis
  proof (cases "w_request ?w")
    case (Some h)
    then have "h \<le> n" using assms(2) rest(1) by simp
    then have "handle_load_event limited rpc h ?w = (Loaded (chain h), ?w)"
      using assms(1) by (simp add: handle_load_event_def serves_def)
    with True Some rest lim show ?thesis by (simp add: worker_run_def chunk_weight_def)
  next
    case None
    with True rest lim show ?thesis by (auto simp: worker_run_def chunk_weight_def Let_def split: list.splits)
  qed
qed (simp add: worker_run_def)

lemma turn_weight:
  assumes "serves rpc chain n" and "chunk_inv chain c l" and "set c \<subseteq> {..n}" and "a \<in> set (loader_round rpc w)"
  shows "loader_turn_step limited a l = l \<or> chunk_weight (loader_turn_step limited a l) < chunk_weight l"
proof -
  have "set_mset (in_work (workers l)) \<subseteq> set_mset (mset c)"
    using assms(2) unfolding chunk_inv_def by (metis mset_subset_eq_add_left mset_subset_eq_add_right set_mset_mono subset_mset.order_trans)
  then have work: "set_mset (in_work (workers l)) \<subseteq> {..n}" using assms(3) by auto
  from assms(4) consider i where "a = WorkerRuns i rpc" | "a = LoaderReceives" by (auto simp: loader_round_def)
  then show ?thesis
  proof cases
    case 1
    with worker_run_weight [OF assms(1) work] show ?thesis by simp
  next
    case 2
    show ?thesis
    proof (cases "load_answers l")
      case (Cons ev evs)
      with 2 show ?thesis by (cases ev) (simp_all add: chunk_weight_def)
    qed (simp add: 2)
  qed
qed

text \<open>A round that changes nothing has nothing left to do.\<close>

lemma idle_round:
  assumes "\<forall>a \<in> set (loader_round rpc (length (workers l))). loader_turn_step limited a l = l" and "0 < length (workers l)"
  shows "load_requests l = [] \<and> in_work (workers l) = {#} \<and> load_answers l = []"
proof -
  have answers: "load_answers l = []"
  proof (rule ccontr)
    assume "load_answers l \<noteq> []"
    then obtain ev evs where ev: "load_answers l = ev # evs" by (cases "load_answers l") auto
    have "loader_turn_step limited LoaderReceives l = l" using assms(1) by (simp add: loader_round_def)
    with ev have "load_answers (handle_fetch_event ev (l\<lparr>load_answers := evs\<rparr>)) = ev # evs" by simp
    then show False by (cases ev) simp_all
  qed
  have idle: "w_request (workers l ! i) = None \<and> load_requests l = []" if i: "i < length (workers l)" for i
  proof -
    have same: "worker_run limited i rpc l = l" using assms(1) i by (simp add: loader_round_def)
    have "w_request (workers l ! i) = None"
    proof (rule ccontr)
      assume "w_request (workers l ! i) \<noteq> None"
      then have "load_answers (worker_run limited i rpc l) \<noteq> load_answers l"
        using i by (auto simp: worker_run_def Let_def split: prod.splits)
      with same show False by simp
    qed
    moreover have "\<not> rate_limit_reached (workers l ! i)"
    proof
      assume "rate_limit_reached (workers l ! i)"
      with calculation i have "\<not> rate_limit_reached (workers (worker_run limited i rpc l) ! i)" by (simp add: worker_run_def)
      with same \<open>rate_limit_reached (workers l ! i)\<close> show False by simp
    qed
    moreover have "load_requests l = []"
    proof (rule ccontr)
      assume "load_requests l \<noteq> []"
      with calculation i have "length (load_requests (worker_run limited i rpc l)) < length (load_requests l)"
        by (auto simp: worker_run_def split: list.splits)
      with same show False by simp
    qed
    ultimately show ?thesis by blast
  qed
  have "in_work ws = {#}" if "\<And>i. i < length ws \<Longrightarrow> w_request (ws ! i) = None" for ws
    using that by (induction ws) (force simp: nth_Cons')+
  with idle idle [OF assms(2)] answers show ?thesis by blast
qed

lemma turn_workers [simp]: "length (workers (loader_turn_step limited a l)) = length (workers l)"
proof (cases a)
  case LoaderReceives
  then show ?thesis by (cases "load_answers l"; cases "hd (load_answers l)") auto
qed simp

lemma fold_workers [simp]: "length (workers (fold (loader_turn_step limited) turns l)) = length (workers l)"
  by (induction turns arbitrary: l) simp_all

lemma round_on_chain: "on_chain chain rpc \<Longrightarrow> turns_on_chain chain (loader_round rpc w)"
  by (auto simp: turns_on_chain_def loader_round_def)

lemma turns_on_chain_subset: "turns_on_chain chain ts \<Longrightarrow> set us \<subseteq> set ts \<Longrightarrow> turns_on_chain chain us"
  by (auto simp: turns_on_chain_def)

lemma turns_weight:
  assumes "serves rpc chain n" and "\<And>h. block_height (chain h) = h" and "on_chain chain rpc" and "set c \<subseteq> {..n}"
    and "chunk_inv chain c l" and "set turns \<subseteq> set (loader_round rpc w)"
  shows "(\<forall>a \<in> set turns. loader_turn_step limited a l = l) \<and> fold (loader_turn_step limited) turns l = l \<or>
    chunk_weight (fold (loader_turn_step limited) turns l) < chunk_weight l"
  using assms(5,6)
proof (induction turns arbitrary: l)
  case (Cons a turns)
  let ?l = "loader_turn_step limited a l"
  have "turns_on_chain chain [a]"
    by (rule turns_on_chain_subset [OF round_on_chain [OF assms(3), of w]]) (use Cons.prems(2) in simp)
  then have "chunk_inv chain c ?l" by (rule turn_inv [OF Cons.prems(1) assms(2)])
  with Cons.IH [of ?l] turn_weight [OF assms(1) Cons.prems(1) assms(4), of a w limited] Cons.prems(2) show ?case
    by (auto elim: less_trans)
qed simp

lemma chunk_inv_size:
  assumes "chunk_inv chain c l"
  shows "length (load_requests l) + size (in_work (workers l)) + length (load_answers l) + length (loaded_blocks l) = length c"
proof -
  have "mset (load_requests l) + in_work (workers l) + mset (map answered_height (load_answers l)) +
      mset (map block_height (loaded_blocks l)) = mset c" using assms by (simp only: chunk_inv_def)
  from arg_cong [OF this, of size] show ?thesis by simp
qed

lemma chunk_weight_bound:
  assumes "chunk_inv chain c l"
  shows "chunk_weight l \<le> 4 * length c + length (workers l)"
proof -
  note chunk_inv_size [OF assms]
  moreover have "answer_weight ev \<le> 4" for ev by (cases ev) simp_all
  then have "sum_list (map answer_weight evs) \<le> 4 * length evs" for evs by (induction evs) (simp_all add: add_le_mono)
  then have "sum_list (map answer_weight (load_answers l)) \<le> 4 * length (load_answers l)" .
  moreover have "length (filter rate_limit_reached (workers l)) \<le> length (workers l)" by simp
  ultimately show ?thesis unfolding chunk_weight_def by linarith
qed

text \<open>Between two chunks the loader, the workers and the channels hold nothing but the loaded blocks.\<close>

definition loaded_chunk :: "(nat \<Rightarrow> block) \<Rightarrow> nat list \<Rightarrow> nat \<Rightarrow> block_loader \<Rightarrow> bool" where
  "loaded_chunk chain c w l \<longleftrightarrow>
     mset (loaded_blocks l) = mset (map chain c) \<and> received_blocks l = 0 \<and> load_requests l = [] \<and>
     in_work (workers l) = {#} \<and> load_answers l = [] \<and> length (workers l) = w"

lemma chunk_complete:
  assumes "chunk_inv chain c l" and "received_blocks l = length c"
  shows "loaded_chunk chain c (length (workers l)) (l\<lparr>received_blocks := 0\<rparr>)"
proof -
  have all: "mset (load_requests l) + in_work (workers l) + mset (map answered_height (load_answers l)) +
      mset (map block_height (loaded_blocks l)) = mset c"
    and chain: "\<forall>b \<in> set (loaded_blocks l). b = chain (block_height b)" and len: "length (loaded_blocks l) = length c"
    using assms by (auto simp: chunk_inv_def)
  from chunk_inv_size [OF assms(1)] len have none: "load_requests l = []" "in_work (workers l) = {#}" "load_answers l = []" by simp_all
  with all have heights: "image_mset block_height (mset (loaded_blocks l)) = mset c" by simp
  have "image_mset chain (image_mset block_height (mset (loaded_blocks l))) = image_mset id (mset (loaded_blocks l))"
    using chain unfolding image_mset.compositionality by (intro image_mset_cong) auto
  then have "mset (loaded_blocks l) = image_mset chain (mset c)" by (simp add: heights)
  with none show ?thesis by (simp add: loaded_chunk_def)
qed

lemma turns_run:
  assumes "\<And>h. block_height (chain h) = h" and "chunk_inv chain c l" and "received_blocks l < length c" and "turns_on_chain chain turns"
  shows "(\<exists>l' rest. (\<forall>ys. handle_loaded_blocks limited (turns @ ys) (length c) l = Some (l', rest @ ys)) \<and>
      set rest \<subseteq> set turns \<and> loaded_chunk chain c (length (workers l)) l') \<or>
    (\<exists>l'. l' = fold (loader_turn_step limited) turns l \<and> chunk_inv chain c l' \<and> received_blocks l' < length c \<and>
      (\<forall>ys. handle_loaded_blocks limited (turns @ ys) (length c) l = handle_loaded_blocks limited ys (length c) l'))"
  using assms(2-4)
proof (induction turns arbitrary: l)
  case Nil
  then show ?case by simp
next
  case (Cons a turns)
  let ?l = "loader_turn_step limited a l"
  have "turns_on_chain chain [a]" "turns_on_chain chain turns"
    using Cons.prems(3) by (auto simp: turns_on_chain_def)
  then have inv: "chunk_inv chain c ?l" using turn_inv [OF Cons.prems(1) assms(1)] by blast
  note step = handle_loaded_step [OF Cons.prems(2), of limited a, unfolded Let_def]
  have bound: "received_blocks ?l \<le> length c"
    using chunk_inv_size [OF inv] inv by (simp add: chunk_inv_def)
  show ?case
  proof (cases "received_blocks ?l = length c")
    case True
    with chunk_complete [OF inv True] step show ?thesis
      by (intro disjI1 exI [of _ "?l\<lparr>received_blocks := 0\<rparr>"] exI [of _ turns]) auto
  next
    case False
    with bound have "received_blocks ?l < length c" by simp
    from Cons.IH [OF inv this \<open>turns_on_chain chain turns\<close>] False step show ?thesis by fastforce
  qed
qed

lemma rounds_run:
  assumes "serves rpc chain n" and "\<And>h. block_height (chain h) = h" and "on_chain chain rpc" and "set c \<subseteq> {..n}" and "0 < w"
    and "chunk_inv chain c l" and "received_blocks l < length c" and "length (workers l) = w" and "chunk_weight l < N"
  shows "\<exists>l' rest M. handle_loaded_blocks limited (concat (replicate N (loader_round rpc w))) (length c) l =
      Some (l', rest @ concat (replicate M (loader_round rpc w))) \<and>
    turns_on_chain chain rest \<and> N \<le> M + chunk_weight l + 1 \<and> loaded_chunk chain c w l'"
  using assms(6-9)
proof (induction N arbitrary: l)
  case (Suc N)
  let ?round = "loader_round rpc w" and ?l = "fold (loader_turn_step limited) (loader_round rpc w) l"
  note on = round_on_chain [OF assms(3), of w]
  from turns_run [OF assms(2) Suc.prems(1,2) on, of limited] show ?case
  proof (elim disjE exE conjE)
    fix l' rest
    assume "\<forall>ys. handle_loaded_blocks limited (?round @ ys) (length c) l = Some (l', rest @ ys)" "set rest \<subseteq> set ?round"
      "loaded_chunk chain c (length (workers l)) l'"
    with turns_on_chain_subset [OF on] Suc.prems(3) show ?thesis
      by (intro exI [of _ l'] exI [of _ rest] exI [of _ N]) auto
  next
    fix l'
    assume l': "l' = ?l" "chunk_inv chain c l'" "received_blocks l' < length c"
      "\<forall>ys. handle_loaded_blocks limited (?round @ ys) (length c) l = handle_loaded_blocks limited ys (length c) l'"
    have "chunk_weight l' < chunk_weight l"
    proof (rule ccontr)
      assume "\<not> chunk_weight l' < chunk_weight l"
      with turns_weight [OF assms(1-4) Suc.prems(1) order_refl] l'(1) have "\<forall>a \<in> set ?round. loader_turn_step limited a l = l" by blast
      then have "load_requests l = []" "in_work (workers l) = {#}" "load_answers l = []"
        using idle_round [of rpc l limited] Suc.prems(3) assms(5) by simp_all
      with chunk_inv_size [OF Suc.prems(1)] Suc.prems(1,2) show False by (simp add: chunk_inv_def)
    qed
    with Suc.IH [OF l'(2,3)] l' Suc.prems(3,4) obtain l2 rest M where
      "handle_loaded_blocks limited (concat (replicate N ?round)) (length c) l' = Some (l2, rest @ concat (replicate M ?round))"
      "turns_on_chain chain rest" "N \<le> M + chunk_weight l' + 1" "loaded_chunk chain c w l2" by auto
    with l'(4) \<open>chunk_weight l' < chunk_weight l\<close> show ?thesis
      by (intro exI [of _ l2] exI [of _ rest] exI [of _ M]) simp
  qed
qed simp

lemma chunk_run:
  assumes "serves rpc chain n" and "\<And>h. block_height (chain h) = h" and "on_chain chain rpc" and "set c \<subseteq> {..n}" and "0 < w"
    and "c \<noteq> []" and "loaded_chunk chain [] w l" and "turns_on_chain chain turns" and "4 * length c + w + 1 \<le> N"
  shows "\<exists>l' rest M. handle_loaded_blocks limited (turns @ concat (replicate N (loader_round rpc w))) (length c) (send_load_blocks c l) =
      Some (l', rest @ concat (replicate M (loader_round rpc w))) \<and>
    turns_on_chain chain rest \<and> N \<le> M + (4 * length c + w + 1) \<and> loaded_chunk chain c w l'"
proof -
  let ?rounds = "\<lambda>N. concat (replicate N (loader_round rpc w))" and ?l = "send_load_blocks c l"
  have inv: "chunk_inv chain c ?l" "received_blocks ?l < length c" and w: "length (workers ?l) = w"
    using assms(6,7) by (simp_all add: send_load_blocks_def chunk_inv_def loaded_chunk_def)
  from turns_run [OF assms(2) inv assms(8), of limited] show ?thesis
  proof (elim disjE exE conjE)
    fix l' rest
    assume "\<forall>ys. handle_loaded_blocks limited (turns @ ys) (length c) ?l = Some (l', rest @ ys)" "set rest \<subseteq> set turns"
      "loaded_chunk chain c (length (workers ?l)) l'"
    with turns_on_chain_subset [OF assms(8)] w show ?thesis by (intro exI [of _ l'] exI [of _ rest] exI [of _ N]) auto
  next
    fix l'
    assume l': "l' = fold (loader_turn_step limited) turns ?l" "chunk_inv chain c l'" "received_blocks l' < length c"
      "\<forall>ys. handle_loaded_blocks limited (turns @ ys) (length c) ?l = handle_loaded_blocks limited ys (length c) l'"
    have w': "length (workers l') = w" using l'(1) w by simp
    with chunk_weight_bound [OF l'(2)] assms(9) have "chunk_weight l' < N" by simp
    from rounds_run [OF assms(1-5) l'(2,3) w' this, of limited] obtain l2 rest M where
      "handle_loaded_blocks limited (?rounds N) (length c) l' = Some (l2, rest @ ?rounds M)"
      "turns_on_chain chain rest" "N \<le> M + chunk_weight l' + 1" "loaded_chunk chain c w l2" by blast
    with l'(4) chunk_weight_bound [OF l'(2)] w' show ?thesis
      by (intro exI [of _ l2] exI [of _ rest] exI [of _ M]) simp
  qed
qed

text \<open>The channels never hold more than the chunk: with room for a chunk, no send to them has to wait.\<close>

lemma channels_have_room:
  assumes "\<And>h. block_height (chain h) = h" and "loaded_chunk chain [] w l" and "turns_on_chain chain turns"
  shows "length (load_requests (fold (loader_turn_step limited) turns (send_load_blocks c l))) \<le> length c \<and>
    length (load_answers (fold (loader_turn_step limited) turns (send_load_blocks c l))) \<le> length c"
proof -
  have "chunk_inv chain c (fold (loader_turn_step limited) turns l')" if "chunk_inv chain c l'" for l'
    using that assms(3)
  proof (induction turns arbitrary: l')
    case (Cons a turns)
    then have "chunk_inv chain c (loader_turn_step limited a l')"
      by (intro turn_inv [OF _ assms(1)]) (auto simp: turns_on_chain_def)
    with Cons show ?case by (auto simp: turns_on_chain_def)
  qed simp
  moreover have "chunk_inv chain c (send_load_blocks c l)"
    using assms(2) by (simp add: send_load_blocks_def chunk_inv_def loaded_chunk_def)
  ultimately have "chunk_inv chain c (fold (loader_turn_step limited) turns (send_load_blocks c l))" by blast
  from chunk_inv_size [OF this] show ?thesis by simp
qed

lemma sequential_prefix_all: "map block_height bs = [h..<h + length bs] \<Longrightarrow> sequential_prefix bs = bs"
proof (induction bs arbitrary: h rule: sequential_prefix.induct)
  case (1 a b bs)
  then have "block_height a = h" "map block_height (b # bs) = [Suc h..<Suc h + length (b # bs)]"
    by (simp_all add: upt_conv_Cons del: upt_Suc)
  moreover from this(2) have "block_height b = Suc h" by (simp add: upt_conv_Cons del: upt_Suc)
  ultimately show ?case using 1(1) [of "Suc h"] by simp
qed simp_all

lemma send_loaded_chunk:
  assumes "\<And>h. block_height (chain h) = h" and "loaded_chunk chain c w l" and "c = [h..<h + length c]"
  shows "\<exists>l'. send_loaded_blocks l = (LoadedBlocks (map chain c), l') \<and> loaded_chunk chain [] w l'"
proof -
  have m: "mset (loaded_blocks l) = mset (map chain c)" using assms(2) by (simp add: loaded_chunk_def)
  have heights: "map block_height (map chain c) = c" using assms(1) by (simp add: comp_def)
  have "inj_on block_height (set (loaded_blocks l))"
    using assms(1) by (auto simp: inj_on_def mset_eq_setD [OF m])
  moreover have "sorted (map block_height (map chain c))" using assms(3) by (metis heights sorted_upt)
  ultimately have "sort_key block_height (loaded_blocks l) = map chain c"
    using m by (intro sort_key_inj_key_eq) auto
  moreover have "sequential_prefix (map chain c) = map chain c"
    by (rule sequential_prefix_all [of _ h]) (use heights assms(3) in simp)
  ultimately show ?thesis using assms(2) by (simp add: send_loaded_blocks_def loaded_chunk_def)
qed

lemma take_upt_self: "take k [start..<n] = [start..<start + length (take k [start..<n])]"
  by (rule nth_equalityI) (simp_all add: less_diff_conv add.commute)

lemma load_all_chunks:
  assumes "serves rpc chain n" and "\<And>h. block_height (chain h) = h" and "on_chain chain rpc" and "0 < w" and "0 < k"
    and "loaded_chunk chain [] w l" and "turns_on_chain chain turns" and "(Suc n - start) * (4 * k + w + 1) \<le> N"
  shows "load_chunks limited (chunks k [start..<Suc n]) (turns @ concat (replicate N (loader_round rpc w))) l =
    Some (map (\<lambda>c. LoadedBlocks (map chain c)) (chunks k [start..<Suc n]))"
  using assms(6-8)
proof (induction "Suc n - start" arbitrary: start l turns N rule: less_induct)
  case less
  let ?rounds = "\<lambda>N. concat (replicate N (loader_round rpc w))"
  show ?case
  proof (cases "start < Suc n")
    case True
    let ?c = "take k [start..<Suc n]" and ?K = "4 * k + w + 1"
    have c: "?c = [start..<start + length ?c]" "?c \<noteq> []" "set ?c \<subseteq> {..n}"
      using True assms(5) take_upt_self by (auto simp del: upt_Suc dest: in_set_takeD)
    have bound: "4 * length ?c + w + 1 \<le> ?K" by simp
    have "1 \<le> Suc n - start" using True by simp
    from mult_le_mono1 [OF this, of ?K] have "?K \<le> (Suc n - start) * ?K" by (simp only: mult_1)
    then have room: "4 * length ?c + w + 1 \<le> N" by (rule order_trans [OF bound order_trans [OF _ less.prems(3)]])
    obtain l1 rest M where 1:
      "handle_loaded_blocks limited (turns @ ?rounds N) (length ?c) (send_load_blocks ?c l) = Some (l1, rest @ ?rounds M)"
      "turns_on_chain chain rest" "N \<le> M + (4 * length ?c + w + 1)" "loaded_chunk chain ?c w l1"
      using chunk_run [OF assms(1-3) c(3) assms(4) c(2) less.prems(1,2) room, of limited] by blast
    obtain l2 where 2: "send_loaded_blocks l1 = (LoadedBlocks (map chain ?c), l2)" "loaded_chunk chain [] w l2"
      using send_loaded_chunk [OF assms(2) 1(4) c(1)] by blast
    have smaller: "Suc n - (start + k) < Suc n - start" using True assms(5) by simp
    have "Suc (Suc n - (start + k)) * ?K \<le> (Suc n - start) * ?K" using smaller by (intro mult_le_mono1) simp
    with less.prems(3) 1(3) bound have "(Suc n - (start + k)) * ?K \<le> M" by simp
    note rest = less.hyps [OF smaller 2(2) 1(2) this]
    have "chunks k [start..<Suc n] = ?c # chunks k [start + k..<Suc n]"
      using True assms(5) by (subst chunks.simps) (simp del: upt_Suc)
    with 1(1) 2(1) rest show ?thesis by (simp del: upt_Suc)
  next
    case False
    then show ?thesis by (simp add: chunks.simps)
  qed
qed

lemma handle_chunks:
  assumes "\<And>h. block_height (chain h) = h" and "0 < k"
  shows "handle_initial_blocks X (map (\<lambda>c. LoadedBlocks (map chain c)) (chunks k [start..<n]) @ [FinishLoading]) start s =
    (Inr (), indexed X (map chain [start..<n]) s)"
proof (induction "n - start" arbitrary: start s rule: less_induct)
  case less
  show ?case
  proof (cases "start < n")
    case True
    let ?c = "take k [start..<n]"
    have c: "?c = [start..<start + length ?c]" by (rule take_upt_self)
    have "map block_height (map chain ?c) = ?c" using assms(1) by (simp add: comp_def)
    then have "init_blocks_handle X (map chain ?c) start s = (Inr (start + length ?c), indexed X (map chain ?c) s)"
      using init_blocks_sequential [of "map chain ?c" start X s] c by simp
    moreover have "chunks k [start..<n] = ?c # chunks k [start + k..<n]"
      using True assms(2) by (subst chunks.simps) simp
    moreover have "handle_initial_blocks X (map (\<lambda>c. LoadedBlocks (map chain c)) (chunks k [start + k..<n]) @ [FinishLoading])
        (start + length ?c) s' = (Inr (), indexed X (map chain [start + k..<n]) s')" for s'
    proof (cases "start + k \<le> n")
      case True
      with less.hyps [of "start + k" s'] \<open>start < n\<close> assms(2) show ?thesis by simp
    next
      case False
      then show ?thesis by (simp add: chunks.simps retR_def)
    qed
    moreover have "map chain [start..<n] = map chain ?c @ map chain [start + k..<n]"
      by (metis append_take_drop_id drop_upt map_append)
    ultimately show ?thesis by (simp add: bindR_def indexed_append)
  next
    case False
    then show ?thesis by (simp add: chunks.simps retR_def)
  qed
qed

section \<open>Polling\<close>

lemma poll_once:
  assumes "serves rpc chain n" and "confirmed_block_height s = h" and "h < n"
    and "confirmed_block_hash s \<noteq> Some (block_hash (chain (Suc h)))"
  shows "handle_new_blocks X rpc s = (Inr (), (indexed X [chain (Suc h)] s)
    \<lparr>confirmed_block_height := Suc h, confirmed_block_hash := Some (block_hash (chain (Suc h)))\<rparr>)"
  using assms
  by (simp add: handle_new_blocks_def serves_def run_defs get_block_by_height_def index_block_indexed)

lemma poll_idle:
  "serves rpc chain n \<Longrightarrow> confirmed_block_height s = n \<Longrightarrow> handle_new_blocks X rpc s = (Inr (), s)"
  by (simp add: handle_new_blocks_def serves_def run_defs)

fun polls :: "bitcoin_ext \<Rightarrow> bitcoin_rpc \<Rightarrow> nat \<Rightarrow> unit indexing" where
  "polls X rpc 0 = retR ()"
| "polls X rpc (Suc k) = thenR (handle_new_blocks X rpc) (polls X rpc k)"

lemma polls_follow_chain:
  assumes "serves rpc chain n" and "inj_on (\<lambda>h. block_hash (chain h)) {..n}"
    and "confirmed_block_height s = h" and "h + k \<le> n"
    and "confirmed_block_hash s = Some (block_hash (chain h))"
  shows "\<exists>s'. polls X rpc k s = (Inr (), s') \<and> confirmed_block_height s' = h + k \<and>
    confirmed_block_hash s' = Some (block_hash (chain (h + k))) \<and>
    svc_sent s' = svc_sent s @ concat (map (\<lambda>i. index_events X (subindexers s) (chain i)) [Suc h..<Suc (h + k)]) \<and>
    subindexers s' = subindexers s"
  using assms(3-5)
proof (induction k arbitrary: h s)
  case 0
  then show ?case by (simp add: retR_def)
next
  case (Suc k)
  have "block_hash (chain (Suc h)) \<noteq> block_hash (chain h)"
    using inj_onD [OF assms(2), of "Suc h" h] Suc.prems(2) by auto
  then have one: "handle_new_blocks X rpc s = (Inr (), (indexed X [chain (Suc h)] s)
      \<lparr>confirmed_block_height := Suc h, confirmed_block_hash := Some (block_hash (chain (Suc h)))\<rparr>)"
    using poll_once [OF assms(1) Suc.prems(1)] Suc.prems by auto
  have "[Suc h..<Suc (h + Suc k)] = Suc h # [Suc (Suc h)..<Suc (Suc h + k)]"
    by (simp add: upt_conv_Cons del: upt_Suc)
  with Suc.IH [of "(indexed X [chain (Suc h)] s)
      \<lparr>confirmed_block_height := Suc h, confirmed_block_hash := Some (block_hash (chain (Suc h)))\<rparr>" "Suc h"] Suc.prems
  show ?case by (auto simp: thenR_def bindR_def one indexed_def simp del: upt_Suc)
qed

section \<open>The initial indexing\<close>

lemma initial_indexing:
  assumes "serves rpc chain n" and "\<And>h. block_height (chain h) = h" and "on_chain chain rpc" and "0 < w" and "0 < k"
    and "turns_on_chain chain turns" and "(Suc n - start) * (4 * k + w + 1) \<le> N"
  shows "\<exists>evs s'. run_loader limited rpc w (turns @ concat (replicate N (loader_round rpc w))) k start = Some (True, evs) \<and>
    handle_initial_blocks X evs start s = (Inr (), s') \<and>
    svc_sent s' = svc_sent s @ concat (map (\<lambda>h. index_events X (subindexers s) (chain h)) [start..<Suc n])"
proof -
  let ?evs = "map (\<lambda>c. LoadedBlocks (map chain c)) (chunks k [start..<Suc n]) @ [FinishLoading]"
  have "in_work (replicate w new_worker) = {#}" by (induction w) (simp_all add: new_worker_def)
  then have "loaded_chunk chain [] w (new_block_loader w)" by (simp add: loaded_chunk_def new_block_loader_def)
  from load_all_chunks [OF assms(1-5) this assms(6,7), of limited] assms(1,5)
  have "run_loader limited rpc w (turns @ concat (replicate N (loader_round rpc w))) k start = Some (True, ?evs)"
    by (simp add: run_loader_def serves_def del: upt_Suc)
  moreover have "handle_initial_blocks X ?evs start s = (Inr (), indexed X (map chain [start..<Suc n]) s)"
    using handle_chunks [OF assms(2,5)] .
  ultimately show ?thesis by (auto simp: indexed_def comp_def simp del: upt_Suc)
qed

section \<open>Properties\<close>


section \<open>Witnesses\<close>

definition sample_height_block :: "transaction list \<Rightarrow> nat \<Rightarrow> block" where
  "sample_height_block txs h = \<lparr>block_hash = replicate h 1, block_height = h,
     previousblockhash = (if h = 0 then None else Some (replicate (h - 1) 1)), block_tx = txs\<rparr>"

definition sample_chain_rpc :: "transaction list \<Rightarrow> nat \<Rightarrow> bitcoin_rpc" where
  "sample_chain_rpc txs n = \<lparr>get_raw_transaction_info = (\<lambda>t. Inl OtherRpcError),
     get_block_info = (\<lambda>h. Inr (sample_height_block txs (length h))),
     get_block_txs = (\<lambda>h. Inr (sample_height_block txs (length h))),
     get_block_count = Inr n, get_block_hash = (\<lambda>h. Inr (replicate h 1)),
     get_raw_transaction = (\<lambda>t h. Inl OtherRpcError),
     send_raw_transaction_opts = (\<lambda>tx n. Inl OtherRpcError)\<rparr>"

lemma sample_serves: "serves (sample_chain_rpc txs n) (sample_height_block txs) n"
  by (simp add: serves_def sample_chain_rpc_def sample_height_block_def)

text \<open>A schedule in which a worker takes the first request, fails and hits the rate limit.\<close>

definition sample_failing_rpc :: bitcoin_rpc where
  "sample_failing_rpc = (sample_chain_rpc [] 0)\<lparr>get_block_hash := (\<lambda>h. Inl (JsonRpcCode 49))\<rparr>"

definition sample_turns :: "loader_turn list" where
  "sample_turns = [LoaderReceives, WorkerRuns 0 sample_failing_rpc, WorkerRuns 0 sample_failing_rpc, LoaderReceives, WorkerRuns 1 sample_failing_rpc]"

definition sample_limited :: "rpc_error \<Rightarrow> bool" where
  "sample_limited e \<longleftrightarrow> e = JsonRpcCode 49"

lemma sample_on_chain:
  "on_chain (sample_height_block txs) (sample_chain_rpc txs n)" "turns_on_chain (sample_height_block txs) sample_turns"
  by (auto simp: on_chain_def turns_on_chain_def sample_turns_def sample_chain_rpc_def sample_failing_rpc_def sample_height_block_def)


end
