(* ===== verification/Node.thy ===== *)
theory Node
  imports Rpc_Server Indexer
begin

text \<open>
  The node (\<open>apps/node/src/cli/node.rs\<close>): the event bus it sets up, the part of the bus every
  service takes, and the properties that span services.
\<close>

section \<open>The bus\<close>

definition DEFAULT_CHANNEL_SIZE :: nat where
  "DEFAULT_CHANNEL_SIZE = 1000"

definition init_event_bus :: "event_bus \<times> channels" where
  "init_event_bus =
     (case register TidTxChecker (Some DEFAULT_CHANNEL_SIZE) default_bus [] of (_, b, chs) \<Rightarrow>
      case register TidGraphBuilder (Some DEFAULT_CHANNEL_SIZE) b chs of (_, b, chs) \<Rightarrow>
      case register TidController (Some DEFAULT_CHANNEL_SIZE) b chs of (_, b, chs) \<Rightarrow>
      case register TidTxConfirm (Some DEFAULT_CHANNEL_SIZE) b chs of (_, b, chs) \<Rightarrow>
      case register TidIndexer (Some DEFAULT_CHANNEL_SIZE) b chs of (_, b, chs) \<Rightarrow> (b, chs))"

definition tx_confirmator_bus :: "event_bus \<Rightarrow> bus_error + event_bus" where
  "tx_confirmator_bus full = extract_bus full [TidController] [TidTxConfirm]"

definition tx_checker_bus :: "event_bus \<Rightarrow> bus_error + event_bus" where
  "tx_checker_bus full = extract_bus full [TidGraphBuilder, TidController] [TidTxChecker]"

definition graph_builder_bus :: "event_bus \<Rightarrow> bus_error + event_bus" where
  "graph_builder_bus full = extract_bus full [TidController] [TidGraphBuilder]"

definition indexer_bus :: "event_bus \<Rightarrow> bus_error + event_bus" where
  "indexer_bus full = extract_bus full [TidController] [TidIndexer]"

definition announcements_indexer_bus :: "event_bus \<Rightarrow> bus_error + event_bus" where
  "announcements_indexer_bus full = extract_bus full [TidController] []"

definition confirmation_indexer_bus :: "event_bus \<Rightarrow> bus_error + event_bus" where
  "confirmation_indexer_bus full = extract_bus full [TidTxConfirm] []"

definition controller_bus :: "event_bus \<Rightarrow> bus_error + event_bus" where
  "controller_bus full =
     extract_bus full [TidTxConfirm, TidTxChecker, TidGraphBuilder, TidIndexer] [TidController]"

definition rpc_bus :: "event_bus \<Rightarrow> bus_error + event_bus" where
  "rpc_bus full = extract_bus full [TidController] []"

text \<open>The client takes a bus from the bus of the node, its state machine one from that of the client.\<close>

definition p2p_client_bus :: "event_bus \<Rightarrow> bus_error + event_bus" where
  "p2p_client_bus full = extract_bus full [TidController] []"

definition state_machine_bus :: "event_bus \<Rightarrow> bus_error + event_bus" where
  "state_machine_bus full = bindE (p2p_client_bus full) (\<lambda>b. extract_bus b [TidController] [])"

lemmas bus_defs = tx_confirmator_bus_def tx_checker_bus_def graph_builder_bus_def indexer_bus_def
  announcements_indexer_bus_def confirmation_indexer_bus_def controller_bus_def rpc_bus_def
  p2p_client_bus_def state_machine_bus_def

lemma init_event_bus_eq:
  "init_event_bus =
     (let ends = [(TidTxChecker, 0), (TidGraphBuilder, 1), (TidController, 2), (TidTxConfirm, 3), (TidIndexer, 4)]
      in (\<lparr>bus_txs = ends, bus_rxs = ends\<rparr>, replicate 5 \<lparr>ch_size = Some 1000, ch_queue = []\<rparr>))"
  by (simp add: init_event_bus_def register_def default_bus_def DEFAULT_CHANNEL_SIZE_def Let_def
      numeral_eq_Suc)

section \<open>Every event has a channel\<close>

text \<open>The events \<open>new\<close> adds to \<open>old\<close> have a sender in the bus.\<close>

definition sends_on :: "bus_error + event_bus \<Rightarrow> bus_message list \<Rightarrow> bus_message list \<Rightarrow> bool" where
  "sends_on eb old new \<longleftrightarrow>
     (\<exists>b evs. eb = Inr b \<and> new = old @ evs \<and> (\<forall>ev \<in> set evs. map_of (bus_txs b) (type_of_event ev) \<noteq> None))"

definition adds_types :: "type_id set \<Rightarrow> bus_message list \<Rightarrow> bus_message list \<Rightarrow> bool" where
  "adds_types T old new \<longleftrightarrow> (\<exists>evs. new = old @ evs \<and> (\<forall>ev \<in> set evs. type_of_event ev \<in> T))"

lemma adds_types_refl [simp]: "adds_types T old old"
  by (simp add: adds_types_def)

lemma adds_types_snoc: "adds_types T old new \<Longrightarrow> type_of_event ev \<in> T \<Longrightarrow> adds_types T old (new @ [ev])"
  by (auto simp: adds_types_def)

lemma sends_onI:
  "eb = Inr b \<Longrightarrow> T \<subseteq> dom (map_of (bus_txs b)) \<Longrightarrow> adds_types T old new \<Longrightarrow> sends_on eb old new"
  by (fastforce simp: sends_on_def adds_types_def)

lemma sends_on_added:
  assumes "\<exists>b. eb = Inr b \<and> T \<subseteq> dom (map_of (bus_txs b))" and "adds_types T old new"
  shows "sends_on eb old new"
  using assms sends_onI by blast

lemma extract_ok_init:
  "\<exists>b. tx_checker_bus (fst init_event_bus) = Inr b \<and> {TidGraphBuilder, TidController} \<subseteq> dom (map_of (bus_txs b))"
  "\<exists>b. graph_builder_bus (fst init_event_bus) = Inr b \<and> {TidController} \<subseteq> dom (map_of (bus_txs b))"
  "\<exists>b. tx_confirmator_bus (fst init_event_bus) = Inr b \<and> {TidController} \<subseteq> dom (map_of (bus_txs b))"
  "\<exists>b. indexer_bus (fst init_event_bus) = Inr b \<and> {TidController} \<subseteq> dom (map_of (bus_txs b))"
  "\<exists>b. announcements_indexer_bus (fst init_event_bus) = Inr b \<and> {TidController} \<subseteq> dom (map_of (bus_txs b))"
  "\<exists>b. confirmation_indexer_bus (fst init_event_bus) = Inr b \<and> {TidTxConfirm} \<subseteq> dom (map_of (bus_txs b))"
  "\<exists>b. controller_bus (fst init_event_bus) = Inr b \<and>
     {TidTxConfirm, TidTxChecker, TidGraphBuilder, TidIndexer} \<subseteq> dom (map_of (bus_txs b))"
  "\<exists>b. rpc_bus (fst init_event_bus) = Inr b \<and> {TidController} \<subseteq> dom (map_of (bus_txs b))"
  "\<exists>b. state_machine_bus (fst init_event_bus) = Inr b \<and> {TidController} \<subseteq> dom (map_of (bus_txs b))"
  by (simp_all add: bus_defs init_event_bus_eq extract_bus_def Let_def bindE_def ok_or_def)

abbreviation added :: "type_id set \<Rightarrow> bus_message list \<Rightarrow> 'z service_scheme \<Rightarrow> bool" where
  "added T old \<equiv> \<lambda>s. adds_types T old (svc_sent s)"

lemma added_modS [keeps_intros]: "keepsR (added T old) (modS g)"
  unfolding modS_def by (rule keepsR_mod) simp

lemma added_sendR: "type_of_event ev \<in> T \<Longrightarrow> keepsR (added T old) (sendR ev)"
  unfolding sendR_def by (rule keepsR_mod) (simp add: adds_types_snoc)

lemma sends_on_run:
  assumes "\<exists>b. eb = Inr b \<and> T \<subseteq> dom (map_of (bus_txs b))" and "\<And>old. keepsR (added T old) m"
  shows "sends_on eb (svc_sent s) (svc_sent (snd (m s)))"
  by (rule sends_on_added [OF assms(1)]) (rule keepsR_D [OF assms(2)], simp)

interpretation checker_types: checker_frame "added T old :: 'z service_scheme \<Rightarrow> bool" "\<lambda>_. True" X
  by unfold_locales (rule added_modS)+

lemma added_checker: "keepsR (added {TidGraphBuilder, TidController} old) (handle_checker_event X it m)"
proof -
  have invalid: "keepsR (added {TidGraphBuilder, TidController} old) (handle_invalid_txs_checker X txs)" for txs
    unfolding handle_invalid_txs_checker_def by (intro keeps_intros added_sendR) simp
  show ?thesis
    by (cases m) (auto simp: check_txs_full_def check_txs_isolated_def Let_def
        intro!: keeps_intros added_sendR invalid checker_types.keeps_loop)
qed

lemma added_p2p [keeps_intros]: "keepsR (added T old) (p2p net c)"
  by (auto simp: p2p_def intro!: keeps_intros keepsR_mod)

abbreviation controller_types :: "type_id set" where
  "controller_types \<equiv> {TidTxConfirm, TidTxChecker, TidGraphBuilder, TidIndexer}"

lemma added_accept: "keepsR (added T old) (accept_new_txs X peer txs)"
  by (induction txs) (auto split: option.splits intro!: keeps_intros)

lemma added_parts:
  "keepsR (added T old) (put_in_pages ts)" "keepsR (added T old) (set_status X st t)"
  "keepsR (added T old) (store_attached X t)" "keepsR (added T old) (store_announcement X tx)"
  "keepsR (added T old) (handle_invalid_tx net t)"
  unfolding put_in_pages_def set_status_def store_attached_def store_announcement_def handle_invalid_tx_def
  by (intro keeps_intros)+

lemma added_mine: "keepsR (added T old) (mine_entries X ts)"
  by (induction ts) (auto intro!: keeps_intros added_parts)

lemma added_controller: "keepsR (added controller_types old) (handle_controller_event X net m)"
proof (cases m)
  case (P2P p)
  then show ?thesis
    by (cases p) (auto simp: handle_inv_def handle_get_data_def handle_new_yuv_txs_def
        intro!: keeps_intros added_accept added_sendR)
qed (auto simp: send_get_data_def handle_partially_checked_txs_def handle_fully_checked_txs_def
      handle_mined_txs_def handle_confirmed_txs_def handle_new_yuv_txs_def handle_reorganization_def
      handle_attached_txs_def handle_checked_announcements_def handle_invalid_txs_def Let_def
      intro!: keeps_intros added_parts keeps_confirmed added_accept added_sendR added_mine)

lemma added_recover: "keepsR (added controller_types old) handle_mempool_txs"
proof -
  have "keepsR (added controller_types old) (resend_mempool ts)" for ts
    by (induction ts) (auto simp: resend_entry_def intro!: keeps_intros added_sendR split: mempool_status.splits)
  then show ?thesis unfolding handle_mempool_txs_def by (intro keeps_intros)
qed

lemma added_graph: "adds_types {TidController} (svc_sent s) (svc_sent (handle_graph_event X it now m s))"
proof (cases m)
  case (CheckedTxs txs)
  obtain q att s1 where one: "foldl (\<lambda>a tx. attach_checked X now tx a) ([], [], s) txs = (q, att, s1)"
    by (metis prod_cases3)
  obtain att' s2 where two: "attach_rounds X it q att s1 = (att', s2)" by fastforce
  have "svc_sent s2 = svc_sent s"
    using sent_frame_batch [OF one] sent_frame_rounds [OF two] by simp
  then show ?thesis
    using CheckedTxs one two
    by (auto simp: attach_txs_def handle_fully_attached_txs_def adds_types_def)
qed

abbreviation tc_added :: "bus_message list \<Rightarrow> tx_confirmator \<Rightarrow> bool" where
  "tc_added old \<equiv> \<lambda>s. adds_types {TidController} old (tc_sent s)"

lemma added_send_controller [keeps_intros]: "keepsR (tc_added old) (send_controller m)"
  unfolding send_controller_def by (rule keepsR_mod) (simp add: adds_types_snoc)

lemma added_new_confirmed: "keepsR (tc_added old) (new_confirmed_txs ts)"
  unfolding new_confirmed_txs_def by (intro keeps_intros keepsR_mod) simp

lemma added_oldest: "keepsR (tc_added old) confirm_oldest"
proof (rule keepsR_I)
  fix s assume "tc_added old s"
  then have "tc_added old (snd (new_confirmed_txs ts (s\<lparr>latest_blocks := bs\<rparr>)))" for ts bs
    by (intro keepsR_D [OF added_new_confirmed]) simp
  with \<open>tc_added old s\<close> show "tc_added old (snd (confirm_oldest s))"
    by (simp add: confirm_oldest_def Let_def split: list.splits)
qed

lemma added_reorg: "keepsR (tc_added old) (handle_reorg rpc b)"
  by (rule keepsR_I)
     (auto simp: handle_reorg_def send_controller_def modR_def adds_types_snoc split: prod.splits sum.splits)

lemma added_confirm: "keepsR (tc_added old) (handle_confirm_event X rpc now m)"
proof (cases m)
  case (ConfirmTxs ts)
  have "keepsR (tc_added old) (handle_tx_to_confirm rpc now t)" for t
    unfolding handle_tx_to_confirm_def handle_mined_txs_confirm_def
    by (auto split: sum.splits option.splits intro!: keeps_intros keepsR_mod added_new_confirmed)
  then show ?thesis using ConfirmTxs by (simp add: keepsR_for)
next
  case (ConfirmBlock b)
  then show ?thesis
    by (auto simp: handle_new_block_def handle_mined_txs_confirm_def Let_def
        intro!: keeps_intros keepsR_mod added_oldest added_reorg)
qed

lemma added_subindex:
  "adds_types {TidController} (svc_sent s) (svc_sent (snd (subindex X (AnnouncementsIndexer net) b s)))"
  "adds_types {TidTxConfirm} (svc_sent s) (svc_sent (snd (subindex X ConfirmationIndexer b s)))"
  unfolding subindex_eq by (simp_all add: adds_types_def Let_def)

lemma added_clean_up: "keepsR (tc_added old) (clean_up_waiting_txs now)"
proof -
  have "keepsR (tc_added old) (clean_up_entry now e)" for e
    unfolding clean_up_entry_def
    by (auto split: prod.splits intro!: keeps_intros keepsR_mod)
  then show ?thesis
    by (auto simp: clean_up_waiting_txs_def intro!: keeps_intros keepsR_for)
qed

lemma added_confirmed_txs: "keepsR (added {TidController} old) (send_txs_to_confirm txs)"
  unfolding send_txs_to_confirm_def by (rule added_sendR) simp

lemma added_rpc: "keepsR (added {TidController} old) (provide_list_yuv_proofs rpc proofs)"
  "keepsR (added {TidController} old) (send_raw_yuv_tx rpc tx burn)"
  "keepsR (added {TidController} old) (provide_yuv_proof tx)"
  "keepsR (added {TidController} old) (provide_yuv_proof_short X unhex rpc t ty_hex h)"
  "keepsR (added {TidController} old) (send_yuv_tx X unhex rpc tx_hex burn)"
  unfolding provide_list_yuv_proofs_def send_raw_yuv_tx_def provide_yuv_proof_def provide_yuv_proof_short_def
    send_yuv_tx_def
  by (intro keeps_intros added_confirmed_txs)+

section \<open>The start of the node\<close>

text \<open>
  \<open>Node::run\<close> waits for the initial indexing before it starts the controller. Meanwhile the
  indexer sends its events one by one, the checker, the graph builder and the confirmator run,
  and nobody receives from the channel of the controller. \<open>startup_run todo evs chs\<close>: of the
  events \<open>todo\<close> the indexer has yet to send \<open>evs\<close>.
\<close>

inductive startup_run :: "bus_message list \<Rightarrow> bus_message list \<Rightarrow> channels \<Rightarrow> bool" for todo where
  started: "startup_run todo todo (snd init_event_bus)"
| indexer_sends: "startup_run todo (ev # evs) chs \<Longrightarrow>
    try_send (fst init_event_bus) ev chs = Inr (Some chs') \<Longrightarrow> startup_run todo evs chs'"
| service_sends: "startup_run todo evs chs \<Longrightarrow>
    try_send (fst init_event_bus) ev chs = Inr (Some chs') \<Longrightarrow> startup_run todo evs chs'"
| service_receives: "startup_run todo evs chs \<Longrightarrow> e \<noteq> TidController \<Longrightarrow>
    try_subscribe (fst init_event_bus) e = Inr i \<Longrightarrow> recv e i chs = Received ev chs' \<Longrightarrow>
    startup_run todo evs chs'"

definition for_controller :: "bus_message list \<Rightarrow> nat" where
  "for_controller evs = length (filter (\<lambda>ev. type_of_event ev = TidController) evs)"

text \<open>The indexer as \<open>spawn_indexer\<close> sets it up.\<close>

definition node_indexer :: "storage \<Rightarrow> network \<Rightarrow> indexer" where
  "node_indexer st net =
     add_subindexer ConfirmationIndexer (add_subindexer (AnnouncementsIndexer net) (new_indexer st net))"

definition node_subindexers :: "network \<Rightarrow> subindexer list" where
  "node_subindexers net = [AnnouncementsIndexer net, ConfirmationIndexer]"

lemma node_indexer_simps [simp]:
  "subindexers (node_indexer st net) = node_subindexers net" "svc_sent (node_indexer st net) = []"
  by (simp_all add: node_indexer_def node_subindexers_def add_subindexer_def new_indexer_def)

lemma init_ends:
  "map_of (bus_txs (fst init_event_bus)) e = Some i \<Longrightarrow> i < 5 \<and> (i = 2 \<longleftrightarrow> e = TidController)"
  "map_of (bus_rxs (fst init_event_bus)) e = Some i \<Longrightarrow> i < 5 \<and> (i = 2 \<longleftrightarrow> e = TidController)"
  by (auto simp: init_event_bus_eq Let_def split: if_splits)

lemma send_controller_queue:
  assumes "try_send (fst init_event_bus) ev chs = Inr (Some chs')" and "length chs = 5"
    and "ch_size (chs ! 2) = Some 1000" and "length (ch_queue (chs ! 2)) \<le> 1000"
  shows "length chs' = 5 \<and> ch_size (chs' ! 2) = Some 1000 \<and> length (ch_queue (chs' ! 2)) \<le> 1000 \<and>
    length (ch_queue (chs' ! 2)) = length (ch_queue (chs ! 2)) + for_controller [ev]"
proof -
  obtain i where i: "map_of (bus_txs (fst init_event_bus)) (type_of_event ev) = Some i"
    and room: "\<not> channel_full (chs ! i)"
    and chs': "chs' = chs[i := (chs ! i)\<lparr>ch_queue := ch_queue (chs ! i) @ [ev]\<rparr>]"
    using assms(1) by (auto simp: try_send_def result_simps split: if_splits)
  show ?thesis
    using init_ends(1) [OF i] room assms(2-4)
    by (cases "i = 2") (auto simp: chs' channel_full_def for_controller_def)
qed

lemma startup_queue:
  "startup_run todo evs chs \<Longrightarrow>
   length chs = 5 \<and> ch_size (chs ! 2) = Some 1000 \<and> length (ch_queue (chs ! 2)) \<le> 1000 \<and>
   for_controller todo \<le> for_controller evs + length (ch_queue (chs ! 2))"
proof (induction rule: startup_run.induct)
  case started
  show ?case by (simp add: init_event_bus_eq Let_def)
next
  case (indexer_sends ev evs chs chs')
  then show ?case using send_controller_queue [OF indexer_sends(2)] by (auto simp: for_controller_def)
next
  case (service_sends evs chs ev chs')
  then show ?case using send_controller_queue [OF service_sends(2)] by auto
next
  case (service_receives evs chs e i ev chs')
  then have "i \<noteq> 2" using init_ends(2) [of e i] by (auto simp: try_subscribe_def result_simps)
  with service_receives show ?case by (auto simp: recv_def split: list.splits if_splits)
qed

lemma for_controller_index:
  "for_controller (concat (map (index_events X (node_subindexers net)) bs)) =
     length (filter (\<lambda>b. announcements_in X net (block_height b) (block_tx b) \<noteq> []) bs)"
  by (induction bs) (auto simp: for_controller_def node_subindexers_def index_events_def Let_def)

text \<open>C34. A node that has to index more than a thousand blocks with announcements never starts: the
  channel of the controller is full before the initial indexing is through, and the controller
  that would empty it is started only afterwards.
\<close>

theorem startup_never_completes:
  assumes "serves rpc chain n" and "\<And>h. block_height (chain h) = h" and "on_chain chain rpc" and "0 < w" and "0 < k"
    and "turns_on_chain chain turns" and "(Suc n - start) * (4 * k + w + 1) \<le> N" and "s = node_indexer st net"
    and "DEFAULT_CHANNEL_SIZE <
      length (filter (\<lambda>h. announcements_in X net h (block_tx (chain h)) \<noteq> []) [start..<Suc n])"
  shows "\<exists>evs s'. run_loader limited rpc w (turns @ concat (replicate N (loader_round rpc w))) k start = Some (True, evs) \<and>
    handle_initial_blocks X evs start s = (Inr (), s') \<and>
    (\<forall>left chs. startup_run (svc_sent s') left chs \<longrightarrow> left \<noteq> [])"
proof -
  obtain evs s' where run: "run_loader limited rpc w (turns @ concat (replicate N (loader_round rpc w))) k start = Some (True, evs)"
    "handle_initial_blocks X evs start s = (Inr (), s')"
    and sent: "svc_sent s' = concat (map (index_events X (node_subindexers net)) (map chain [start..<Suc n]))"
    using initial_indexing [OF assms(1-7), where X = X and s = s and limited = limited] assms(8) by (auto simp: comp_def)
  have many: "DEFAULT_CHANNEL_SIZE < for_controller (svc_sent s')"
    using assms(2,9) unfolding sent for_controller_index by (simp add: filter_map comp_def)
  have "left \<noteq> []" if "startup_run (svc_sent s') left chs" for left chs
    using startup_queue [OF that] many by (auto simp: DEFAULT_CHANNEL_SIZE_def for_controller_def)
  with run show ?thesis by blast
qed

section \<open>Following the chain\<close>

text \<open>The events for the confirmator among those the indexer sends.\<close>

fun confirm_messages :: "bus_message list \<Rightarrow> tx_confirm_message list" where
  "confirm_messages [] = []"
| "confirm_messages (ToTxConfirm m # evs) = m # confirm_messages evs"
| "confirm_messages (ev # evs) = confirm_messages evs"

lemma confirm_messages_append: "confirm_messages (as @ bs) = confirm_messages as @ confirm_messages bs"
  by (induction as rule: confirm_messages.induct) simp_all

lemma confirm_messages_index:
  "confirm_messages (concat (map (index_events X (node_subindexers net)) bs)) = map ConfirmBlock bs"
  by (induction bs) (simp_all add: confirm_messages_append node_subindexers_def index_events_def Let_def)

lemma confirm_blocks: "forR (handle_confirm_event X rpc now) (map ConfirmBlock bs) = forR (handle_new_block X rpc) bs"
  by (induction bs) simp_all

lemma linked_chain:
  "(\<And>i. i < h + k \<Longrightarrow> previousblockhash (chain (Suc i)) = Some (block_hash (chain i))) \<Longrightarrow>
   linked (Some (block_hash (chain h))) (map chain [Suc h..<Suc (h + k)])"
proof (induction k arbitrary: h)
  case (Suc k)
  have "[Suc h..<Suc (h + Suc k)] = Suc h # [Suc (Suc h)..<Suc (Suc h + k)]"
    by (simp add: upt_conv_Cons del: upt_Suc)
  with Suc.IH [of "Suc h"] Suc.prems show ?case by (simp del: upt_Suc)
qed simp

text \<open>C17. The indexer and the confirmator together: while the chain grows, polling \<open>k\<close> times makes the
  confirmator announce exactly the waiting transactions of the blocks that are deep enough, and
  it never sees a reorganization.
\<close>

theorem node_confirms_chain:
  assumes "serves rpc chain n" and "inj_on (\<lambda>h. block_hash (chain h)) {..n}"
    and "\<And>i. i < n \<Longrightarrow> previousblockhash (chain (Suc i)) = Some (block_hash (chain i))"
    and "confirmed_block_height s = h" and "confirmed_block_hash s = Some (block_hash (chain h))" and "h + k \<le> n"
    and "subindexers s = node_subindexers net"
    and "newest (latest_blocks c) \<in> {None, Some (block_hash (chain h))}" and "in_window c"
    and "bs = latest_blocks c @ map (\<lambda>i. block_info_from X (chain i)) [Suc h..<Suc (h + k)]"
    and "d = unat (confirmations_number c)"
  shows "\<exists>s' c'. polls X rpc k s = (Inr (), s') \<and> confirmed_block_height s' = h + k \<and>
    forR (handle_confirm_event X rpc now) (confirm_messages (drop (length (svc_sent s)) (svc_sent s'))) c = (Inr (), c') \<and>
    latest_blocks c' = drop (length bs + 1 - d) bs \<and>
    confirmed_by c c' = {t \<in> waiting c. \<exists>b \<in> set (take (length bs + 1 - d) bs). t \<in> set (bi_txs b)} \<and>
    waiting c' = waiting c - confirmed_by c c' \<and> reorged_by c c' = {}"
proof -
  let ?blocks = "map chain [Suc h..<Suc (h + k)]"
  obtain s' where s': "polls X rpc k s = (Inr (), s')" "confirmed_block_height s' = h + k"
    "svc_sent s' = svc_sent s @ concat (map (\<lambda>i. index_events X (subindexers s) (chain i)) [Suc h..<Suc (h + k)])"
    using polls_follow_chain [OF assms(1,2,4,6,5)] by blast
  have msgs: "confirm_messages (drop (length (svc_sent s)) (svc_sent s')) = map ConfirmBlock ?blocks"
    using confirm_messages_index [of X net ?blocks] assms(7) by (simp add: s'(3) comp_def del: upt_Suc)
  have "linked (Some (block_hash (chain h))) ?blocks" using assms(3,6) by (intro linked_chain) simp
  then have linked: "linked (newest (latest_blocks c)) ?blocks"
    using assms(8) linked_None by (elim insertE emptyE) simp_all
  have bs: "bs = latest_blocks c @ map (block_info_from X) ?blocks"
    using assms(10) by (simp add: comp_def del: upt_Suc)
  have "\<exists>c'. forR (handle_new_block X rpc) ?blocks c = (Inr (), c') \<and>
    latest_blocks c' = drop (length bs + 1 - d) bs \<and>
    confirmed_by c c' = {t \<in> waiting c. \<exists>b \<in> set (take (length bs + 1 - d) bs). t \<in> set (bi_txs b)} \<and>
    waiting c' = waiting c - confirmed_by c c' \<and> reorged_by c c' = {}"
    by (rule blocks_confirmed [OF linked assms(9) bs assms(11)])
  then show ?thesis using s'(1,2) unfolding confirm_blocks [symmetric, where now = now] msgs [symmetric] by blast
qed

section \<open>Witnesses\<close>

text \<open>A transaction that announces a chroma.\<close>

definition sample_announcing :: transaction where
  "sample_announcing = \<lparr>tx_version = 2, tx_lock_time = 5, tx_input = [sample_in],
     tx_output = [\<lparr>txout_value = 0,
       script_pubkey = announcement_to_script sample_ext (ChromaAnn sample_chroma_announcement)\<rparr>]\<rparr>"

lemma sample_announcing_found: "announcements_in sample_ext Regtest h [sample_announcing] \<noteq> []"
proof -
  have "\<not> x_is_coin_base sample_ext sample_announcing"
    by (simp add: sample_ext_def sample_announcing_def)
  moreover have "last_announcement sample_ext (tx_output sample_announcing) None = Some (ChromaAnn sample_chroma_announcement)"
    by (simp add: sample_announcing_def
        from_script_to_script [OF sample_builder_laws sample_op_return_law sample_chroma_wf])
  ultimately show ?thesis by simp
qed

theorem startup_never_completes_witness:
  "\<exists>evs s'. run_loader sample_limited (sample_chain_rpc [sample_announcing] 1001) 2
      (sample_turns @ concat (replicate 31031 (loader_round (sample_chain_rpc [sample_announcing] 1001) 2))) 7 1 = Some (True, evs) \<and>
    handle_initial_blocks sample_ext evs 1 (node_indexer empty_storage Regtest) = (Inr (), s') \<and>
    (\<forall>left chs. startup_run (svc_sent s') left chs \<longrightarrow> left \<noteq> [])"
proof -
  have "block_tx (sample_height_block txs h) = txs" "block_height (sample_height_block txs h) = h" for txs h
    by (simp_all add: sample_height_block_def)
  then show ?thesis
    by - (rule startup_never_completes [OF sample_serves _ sample_on_chain(1) _ _ sample_on_chain(2) _ refl],
        simp_all add: sample_announcing_found DEFAULT_CHANNEL_SIZE_def del: upt_Suc upt_rec_numeral announcements_in.simps)
qed

definition sample_waiting :: tx_confirmator where
  "sample_waiting = (new_tx_confirmator 100 10 2)
     \<lparr>queue := [(x_txid sample_ext (sample_tx 3), 0)],
      latest_blocks := [block_info_from sample_ext (sample_height_block [sample_tx 3] 1)]\<rparr>"

definition sample_following :: indexer where
  "sample_following = (node_indexer empty_storage Regtest)
     \<lparr>confirmed_block_height := 1, confirmed_block_hash := Some (replicate 1 1)\<rparr>"

theorem node_confirms_chain_witness:
  "let chain = sample_height_block [sample_tx 3]; c = sample_waiting; s = sample_following;
     bs = latest_blocks c @ map (\<lambda>i. block_info_from sample_ext (chain i)) [Suc 1..<Suc (1 + 3)]
   in \<exists>s' c'. polls sample_ext (sample_chain_rpc [sample_tx 3] 4) 3 s = (Inr (), s') \<and> confirmed_block_height s' = 1 + 3 \<and>
    forR (handle_confirm_event sample_ext (sample_chain_rpc [sample_tx 3] 4) 9)
      (confirm_messages (drop (length (svc_sent s)) (svc_sent s'))) c = (Inr (), c') \<and>
    latest_blocks c' = drop (length bs + 1 - 2) bs \<and>
    confirmed_by c c' = {t \<in> waiting c. \<exists>b \<in> set (take (length bs + 1 - 2) bs). t \<in> set (bi_txs b)} \<and>
    waiting c' = waiting c - confirmed_by c c' \<and> reorged_by c c' = {}"
  unfolding Let_def
proof (rule node_confirms_chain [OF sample_serves, where net = Regtest])
  show "inj_on (\<lambda>h. block_hash (sample_height_block [sample_tx 3] h)) {..4}"
    by (rule inj_onI) (simp add: sample_height_block_def)
qed (simp_all add: sample_following_def sample_waiting_def sample_height_block_def new_tx_confirmator_def
    newest_def block_info_from_def in_window_def)

end
