(* ===== verification/Transfers.thy ===== *)
theory Transfers
  imports Rpc_Server
begin

text \<open>
  What happens to one transfer on its way through the services: the emulator of the RPC server,
  the checker and the graph builder.
\<close>

section \<open>The full check of a clean transfer\<close>

text \<open>The outputs a transfer spends belong to stored transactions and have no freeze entry.\<close>

definition spends_clean :: "storage \<Rightarrow> yuv_transaction \<Rightarrow> proof_map \<Rightarrow> bool" where
  "spends_clean st tx ins \<longleftrightarrow>
     (\<forall>(i, pf) \<in> set ins. get_yuv_tx st (op_txid (spent_output tx i)) \<noteq> None \<and>
        get_frozen_tx st (spent_output tx i) = None)"

lemma is_output_frozen_clean:
  "get_frozen_tx (svc_storage s) p = None \<Longrightarrow> is_output_frozen X p pf s = (Inr False, s)"
  by (simp add: is_output_frozen_def Let_def run_defs service_eqs)

lemma check_inputs_clean:
  "\<forall>(i, pf) \<in> set ins. unat i < length (tx_input (bitcoin_tx tx)) \<Longrightarrow> spends_clean (svc_storage s) tx ins \<Longrightarrow>
   check_transfer_inputs X tx sndr checked m ins s = (Inr (True, m), s)"
proof (induction ins)
  case (Cons e ins)
  obtain i pf where e: "e = (i, pf)" by (cases e)
  have "spends_clean (svc_storage s) tx ins" using Cons.prems(2) by (simp add: spends_clean_def)
  with Cons show ?case
    by (auto simp: e Let_def spends_clean_def spent_output_def [symmetric] bindR_def service_eqs
        is_output_frozen_clean)
qed (simp add: retR_def)

lemma full_check_clean:
  assumes "tx_type tx = Transfer ins outs" and "check_transfer_isolated X (bitcoin_tx tx) ins outs = Inr ()"
    and "spends_clean (svc_storage s) tx ins" and "it [] = []"
  shows "handle_checker_event X it (FullCheck [(tx, sndr)]) s =
    (Inr (), s\<lparr>svc_sent := svc_sent s @ [ToController (FullyCheckedTxs [tx])]\<rparr>)"
  using check_inputs_clean [OF isolated_input_range [OF assms(2)] assms(3)] assms(1,4)
  by (simp add: check_txs_full_def check_transaction_full_def check_transfer_def run_defs service_eqs
      whenR_def handle_invalid_txs_checker_def)

section \<open>Attaching a transfer whose parents are stored\<close>

lemma attach_queued_extends: "attach_queued X t (q, att, s) = (q', att', s') \<Longrightarrow> \<exists>zs. att' = att @ zs"
  by (auto simp: remove_attached_parents_def Let_def split: option.splits if_splits)

lemma attach_queue_extends: "attach_queue X ts (q, att, s) = (q', att', s') \<Longrightarrow> \<exists>zs. att' = att @ zs"
proof (induction ts arbitrary: q att s)
  case Nil
  then show ?case by (simp add: attach_queue_def)
next
  case (Cons t ts)
  obtain q1 att1 s1 where one: "attach_queued X t (q, att, s) = (q1, att1, s1)" by (metis prod_cases3)
  moreover have "attach_queue X ts (q1, att1, s1) = (q', att', s')"
    using Cons.prems one by (simp add: attach_queue_def)
  ultimately show ?case using Cons.IH attach_queued_extends by fastforce
qed

lemma attach_rounds_extends: "attach_rounds X it q att s = (att', s') \<Longrightarrow> \<exists>zs. att' = att @ zs"
proof (induction X it q att s rule: attach_rounds.induct)
  case (1 X it q att s)
  show ?case
  proof (cases "q = []")
    case True
    with 1(2) show ?thesis by (simp add: attach_rounds.simps [of X it "[]"])
  next
    case False
    obtain lq att1 s1 where pass: "attach_queue X (it q) ([], att, s) = (lq, att1, s1)" by (metis prod_cases3)
    have "attach_rounds X it lq att1 s1 = (att', s')"
      using 1(2) False pass by (simp add: attach_rounds.simps [of X it q])
    with 1(1) [OF False pass [symmetric] refl] attach_queue_extends [OF pass] show ?thesis by fastforce
  qed
qed

lemma add_missing_none:
  "\<forall>i \<in> set is. unat i < length (tx_input (bitcoin_tx tx)) \<longrightarrow> is_attached g att (op_txid (spent_output tx i)) \<Longrightarrow>
   add_missing_parents tx child att is g = g"
  by (induction "is") (auto simp: Let_def spent_output_def)

lemma attach_clean:
  assumes "tx_type tx = Transfer ins outs" and "spends_clean (svc_storage g) tx ins"
    and "entry_or_default (yuv_txid X tx) (deps g) = []"
  shows "\<exists>rest. svc_sent (handle_graph_event X it now (CheckedTxs [tx]) g) =
    svc_sent g @ [ToController (AttachedTxs (yuv_txid X tx # rest))]"
proof -
  let ?t = "yuv_txid X tx"
  have "is_attached g [] (op_txid (spent_output tx i))" if "(i, pf) \<in> set ins" for i pf
    using assms(2) that by (auto simp: spends_clean_def is_attached_def)
  then have none: "add_missing_parents tx ?t [] (map fst ins) g = g"
    by (intro add_missing_none) auto
  obtain q g1 where one: "attach_checked X now tx ([], [], g) = (q, [?t], g1)"
    using assms(1,3) none by (cases "map_of (inverse_deps g) ?t") (simp_all add: handle_transfer_def Let_def)
  obtain att' g2 where two: "attach_rounds X it q [?t] g1 = (att', g2)" by fastforce
  obtain rest where "att' = ?t # rest" using attach_rounds_extends [OF two] by auto
  then show ?thesis
    using one two sent_frame_checked [OF one] sent_frame_rounds [OF two]
    by (simp add: attach_txs_def handle_fully_attached_txs_def)
qed

section \<open>Properties\<close>

text \<open>C16. The emulator is on the safe side, up to freezes it does not look at: it tests no freeze entry
  of an output whose transaction is stored without output proofs. A transfer it calls valid, and that
  spends no such output with a freeze entry, passes the isolated check and the full check, is not reported as
  invalid, asks for no parent, and is attached by a graph builder it does not already wait in.
\<close>

theorem emulated_transfer_accepted:
  assumes "tx_type tx = Transfer ins outs" and "emulate_yuv_transaction X (svc_storage s) tx = EmulationValid"
    and "\<And>i pf p. (i, pf) \<in> set ins \<Longrightarrow> get_yuv_tx (svc_storage s) (op_txid (spent_output tx i)) = Some p \<Longrightarrow>
      output_proofs (tx_type p) = None \<Longrightarrow> get_frozen_tx (svc_storage s) (spent_output tx i) = None"
    and "it [] = []" and "svc_storage g = svc_storage s" and "entry_or_default (yuv_txid X tx) (deps g) = []"
  shows "handle_checker_event X it (IsolatedCheck [tx]) s =
      (Inr (), s\<lparr>svc_sent := svc_sent s @ [ToController (PartiallyCheckedTxs [yuv_txid X tx])]\<rparr>) \<and>
    handle_checker_event X it (FullCheck [(tx, sndr)]) s =
      (Inr (), s\<lparr>svc_sent := svc_sent s @ [ToController (FullyCheckedTxs [tx])]\<rparr>) \<and>
    (\<exists>rest. svc_sent (handle_graph_event X it2 now (CheckedTxs [tx]) g) =
       svc_sent g @ [ToController (AttachedTxs (yuv_txid X tx # rest))])"
proof -
  have em: "emulate X (svc_storage s) tx = Inr ()"
    using assms(2) by (simp add: emulate_yuv_transaction_def split: sum.splits)
  note iso = emulate_transfer_parents(1) [OF em assms(1)]
  have "get_yuv_tx (svc_storage s) (op_txid (spent_output tx i)) \<noteq> None \<and>
      get_frozen_tx (svc_storage s) (spent_output tx i) = None" if i: "(i, pf) \<in> set ins" for i pf
    using emulate_transfer_parents(2) [OF em assms(1) i, unfolded check_parent_ok] assms(3) [OF i]
    by (metis not_None_eq)
  then have clean: "spends_clean (svc_storage s) tx ins" by (auto simp: spends_clean_def)
  have "handle_checker_event X it (IsolatedCheck [tx]) s =
      (Inr (), s\<lparr>svc_sent := svc_sent s @ [ToController (PartiallyCheckedTxs [yuv_txid X tx])]\<rparr>)"
    using iso assms(1)
    by (simp add: check_txs_isolated_def check_transaction_def is_ok_def run_defs service_eqs whenR_def
        handle_invalid_txs_checker_def)
  with full_check_clean [where s = s and it = it, OF assms(1) iso clean assms(4)] attach_clean [of tx ins outs g X]
    assms(1,5,6) clean show ?thesis by auto
qed

text \<open>C33. The amounts of a transfer need no backing when its parents are announcements: an announcement
  is stored without output proofs, and neither check compares the spent pixel with what the
  parent's output carries. A transfer that spends outputs of stored announcement transactions is
  called valid by the emulator, passes the full check and is attached.
\<close>

theorem unbacked_transfer_accepted:
  assumes "tx_type tx = Transfer ins outs" and "check_transfer_isolated X (bitcoin_tx tx) ins outs = Inr ()"
    and "\<And>i pf. (i, pf) \<in> set ins \<Longrightarrow> \<exists>p a. get_yuv_tx (svc_storage s) (op_txid (spent_output tx i)) = Some p \<and>
      tx_type p = Announcement a"
    and "\<And>i pf. (i, pf) \<in> set ins \<Longrightarrow> get_frozen_tx (svc_storage s) (spent_output tx i) = None"
    and "length (tx_input (bitcoin_tx tx)) < 2 ^ 32"
    and "it [] = []" and "svc_storage g = svc_storage s" and "entry_or_default (yuv_txid X tx) (deps g) = []"
  shows "emulate_yuv_transaction X (svc_storage s) tx = EmulationValid \<and>
    handle_checker_event X it (FullCheck [(tx, sndr)]) s =
      (Inr (), s\<lparr>svc_sent := svc_sent s @ [ToController (FullyCheckedTxs [tx])]\<rparr>) \<and>
    (\<exists>rest. svc_sent (handle_graph_event X it2 now (CheckedTxs [tx]) g) =
       svc_sent g @ [ToController (AttachedTxs (yuv_txid X tx # rest))])"
proof -
  have clean: "spends_clean (svc_storage s) tx ins"
    using assms(3,4) by (fastforce simp: spends_clean_def)
  have "check_parent (svc_storage s) p = Inr ()" if p: "p \<in> set (collect_transfer_parents tx ins)" for p
  proof -
    obtain i pf where "(i, pf) \<in> set ins" "p = spent_output tx i"
      using parents_spent [OF assms(5) p] by blast
    then show ?thesis using assms(3) by (fastforce simp: check_parent_ok)
  qed
  then have "emulate_yuv_transaction X (svc_storage s) tx = EmulationValid"
    using assms(1,2)
    by (simp add: emulate_yuv_transaction_def emulate_def check_transaction_def extract_parents_def
        check_parents_def bindE_def map_err_def forE_Inr [THEN iffD2])
  with full_check_clean [where s = s and it = it, OF assms(1,2) clean assms(6)] attach_clean [of tx ins outs g X]
    assms(1,7,8) clean show ?thesis by auto
qed

section \<open>Witnesses\<close>

text \<open>A store with one transaction, the parent of the sample payment.\<close>

definition sample_parent :: "yuv_tx_type \<Rightarrow> yuv_transaction" where
  "sample_parent ty = \<lparr>bitcoin_tx = (sample_tx 0)\<lparr>tx_output := [sample_out]\<rparr>, tx_type = ty\<rparr>"

definition sample_parents :: "yuv_tx_type \<Rightarrow> storage" where
  "sample_parents ty = put_yuv_tx sample_ext (sample_parent ty) empty_storage"

lemma sample_parent_found:
  "get_yuv_tx (sample_parents ty) (op_txid (previous_output sample_in)) = Some (sample_parent ty)"
  "tx_type (sample_parent ty) = ty" "get_frozen_tx (sample_parents ty) p = None"
proof -
  have "to_be_bytes 4 (0 :: u32) = replicate 4 0" by code_simp
  then have "yuv_txid sample_ext (sample_parent ty) = op_txid (previous_output sample_in)"
    by (simp add: sample_parent_def yuv_txid_def sample_ext_def sample_tx_def sample_in_def replicate_add [symmetric])
  then show "get_yuv_tx (sample_parents ty) (op_txid (previous_output sample_in)) = Some (sample_parent ty)"
    by (simp add: sample_parents_def get_yuv_tx_put)
qed (simp_all add: sample_parent_def sample_parents_def store_defs empty_storage_def)

lemma sample_pay_type: "tx_type sample_pay_tx = Transfer [(0, sample_proof 5 7)] [(0, sample_proof 5 9)]"
  by (simp add: sample_pay_tx_def)

lemma sample_pay_inputs: "tx_input (sample_spend outs) = [sample_in]"
  by (simp add: sample_spend_def)

lemma sample_builder: "svc_storage (new_graph_builder st) = st" "entry_or_default t (deps (new_graph_builder st)) = []"
  by (simp_all add: new_graph_builder_def entry_or_default_def)

theorem emulated_transfer_accepted_witness:
  "let st = sample_parents (Transfer [] [(0, sample_proof 5 7)]); tx = sample_pay_tx; s = sample_service st;
     g = new_graph_builder st
   in handle_checker_event sample_ext id (IsolatedCheck [tx]) s =
      (Inr (), s\<lparr>svc_sent := svc_sent s @ [ToController (PartiallyCheckedTxs [yuv_txid sample_ext tx])]\<rparr>) \<and>
    handle_checker_event sample_ext id (FullCheck [(tx, Some (sample_peer 8))]) s =
      (Inr (), s\<lparr>svc_sent := svc_sent s @ [ToController (FullyCheckedTxs [tx])]\<rparr>) \<and>
    (\<exists>rest. svc_sent (handle_graph_event sample_ext id 0 (CheckedTxs [tx]) g) =
       svc_sent g @ [ToController (AttachedTxs (yuv_txid sample_ext tx # rest))])"
proof -
  have parents: "collect_transfer_parents sample_pay_tx [(0, sample_proof 5 7)] = [previous_output sample_in]"
    by (simp add: collect_transfer_parents_def sample_pay_tx_def sample_spend_def)
  have "op_vout (previous_output sample_in) = 0" by (simp add: sample_in_def)
  then have "check_parent (sample_parents (Transfer [] [(0, sample_proof 5 7)])) (previous_output sample_in) = Inr ()"
    by (simp add: check_parent_ok sample_parent_found)
  with parents have "emulate_yuv_transaction sample_ext (sample_parents (Transfer [] [(0, sample_proof 5 7)])) sample_pay_tx =
      EmulationValid"
    by (simp add: emulate_yuv_transaction_def emulate_def check_transaction_def extract_parents_def
        check_parents_def sample_pay_type sample_pay_ok sample_parent_found
        bindE_def map_err_def)
  then show ?thesis
    unfolding Let_def
    by - (rule emulated_transfer_accepted [OF sample_pay_type, where s = "sample_service (sample_parents (Transfer [] [(0, sample_proof 5 7)]))"],
      simp_all add: sample_builder sample_parent_found)
qed

theorem unbacked_transfer_accepted_witness:
  "let st = sample_parents (Announcement (IssueAnn (sample_issue 1))); tx = sample_pay_tx; s = sample_service st;
     g = new_graph_builder st
   in emulate_yuv_transaction sample_ext (svc_storage s) tx = EmulationValid \<and>
    handle_checker_event sample_ext id (FullCheck [(tx, Some (sample_peer 8))]) s =
      (Inr (), s\<lparr>svc_sent := svc_sent s @ [ToController (FullyCheckedTxs [tx])]\<rparr>) \<and>
    (\<exists>rest. svc_sent (handle_graph_event sample_ext id 0 (CheckedTxs [tx]) g) =
       svc_sent g @ [ToController (AttachedTxs (yuv_txid sample_ext tx # rest))])"
  unfolding Let_def
  by (rule unbacked_transfer_accepted [OF sample_pay_type, where s = "sample_service (sample_parents (Announcement (IssueAnn (sample_issue 1))))"])
     (simp_all add: sample_pay_ok sample_pay_inputs sample_builder sample_parent_found)

end
