(* ===== verification/Network_Messages.thy ===== *)
theory Network_Messages
  imports Consensus
begin

text \<open>
  The messages between peers and their wire format (\<open>types/src/messages/p2p.rs\<close>). The frame of
  a message, magic number, command and checked payload, and the formats of addresses and of
  the version message belong to the \<open>bitcoin\<close> crate: they are fields of a record, an argument of
  the encoder and the decoder.
\<close>

section \<open>Messages\<close>

type_synonym magic = bytes
type_synonym service_flags = u64

record net_address =
  na_services :: service_flags
  na_address :: "u16 list"
  na_port :: u16

record version_message =
  vm_version :: u32
  vm_services :: service_flags
  vm_timestamp :: "64 word"
  vm_receiver :: net_address
  vm_sender :: net_address
  vm_nonce :: u64
  vm_user_agent :: string
  vm_start_height :: u32
  vm_relay :: bool

datatype network_message =
    Inv "inventory list"
  | Addr "(u32 \<times> net_address) list"
  | GetAddr
  | MsgGetData "inventory list"
  | YuvTx "yuv_transaction list"
  | Ping u64
  | Pong u64
  | Verack
  | Version version_message
  | WtxidRelay
  | YtxidRelay
  | Ytxidack
  | Unknown string bytes

record raw_network_message =
  rm_magic :: magic
  rm_payload :: network_message

fun cmd :: "network_message \<Rightarrow> string" where
  "cmd (Inv _) = ''inv''"
| "cmd (Addr _) = ''addr''"
| "cmd (MsgGetData _) = ''getdata''"
| "cmd (YuvTx _) = ''yuvtx''"
| "cmd (Ping _) = ''ping''"
| "cmd (Pong _) = ''pong''"
| "cmd Verack = ''verack''"
| "cmd (Version _) = ''version''"
| "cmd WtxidRelay = ''wtxidrelay''"
| "cmd YtxidRelay = ''ytxidrelay''"
| "cmd Ytxidack = ''ytxidack''"
| "cmd GetAddr = ''getaddr''"
| "cmd (Unknown _ _) = ''unknown''"

section \<open>Wire format\<close>

record wire_ext =
  w_enc_magic :: "magic \<Rightarrow> bytes"
  w_dec_magic :: "magic decoder"
  w_enc_command :: "string \<Rightarrow> bytes"
  w_dec_command :: "string decoder"
  w_enc_checked :: "bytes \<Rightarrow> bytes"
  w_dec_checked :: "bytes decoder"
  w_enc_bytes :: "bytes \<Rightarrow> bytes"
  w_enc_addrs :: "(u32 \<times> net_address) list \<Rightarrow> bytes"
  w_dec_addrs :: "(u32 \<times> net_address) list decoder"
  w_enc_version :: "version_message \<Rightarrow> bytes"
  w_dec_version :: "version_message decoder"

definition enc_u64 :: "u64 \<Rightarrow> bytes" where
  "enc_u64 w = to_le_bytes 8 w"

definition dec_u64 :: "u64 decoder" where
  "dec_u64 bs = bindE (read_exact 8 bs) (\<lambda>(a, rest). Inr (from_le_bytes a, rest))"

definition MAX_MSG_SIZE :: nat where
  "MAX_MSG_SIZE = 5000000"

fun enc_payload :: "bitcoin_ext \<Rightarrow> wire_ext \<Rightarrow> network_message \<Rightarrow> bytes" where
  "enc_payload X W (Inv invs) = enc_inventories invs"
| "enc_payload X W (Addr addrs) = w_enc_addrs W addrs"
| "enc_payload X W (MsgGetData invs) = enc_inventories invs"
| "enc_payload X W (YuvTx txs) = enc_yuv_txs X txs"
| "enc_payload X W (Ping n) = enc_u64 n"
| "enc_payload X W (Pong n) = enc_u64 n"
| "enc_payload X W Verack = []"
| "enc_payload X W WtxidRelay = []"
| "enc_payload X W YtxidRelay = []"
| "enc_payload X W Ytxidack = []"
| "enc_payload X W GetAddr = []"
| "enc_payload X W (Version v) = w_enc_version W v"
| "enc_payload X W (Unknown _ payload) = w_enc_bytes W payload"

definition enc_raw_message :: "bitcoin_ext \<Rightarrow> wire_ext \<Rightarrow> raw_network_message \<Rightarrow> bytes" where
  "enc_raw_message X W m =
     w_enc_magic W (rm_magic m) @ w_enc_command W (cmd (rm_payload m)) @
     w_enc_checked W (enc_payload X W (rm_payload m))"

definition dec_payload :: "bitcoin_ext \<Rightarrow> wire_ext \<Rightarrow> string \<Rightarrow> bytes \<Rightarrow> decode_error + network_message" where
  "dec_payload X W command raw =
     (if command = ''inv'' then bindE (dec_inventories raw) (\<lambda>(is, _). Inr (Inv is))
      else if command = ''getdata'' then bindE (dec_inventories raw) (\<lambda>(is, _). Inr (MsgGetData is))
      else if command = ''yuvtx'' then bindE (dec_yuv_txs X raw) (\<lambda>(txs, _). Inr (YuvTx txs))
      else if command = ''ping'' then bindE (dec_u64 raw) (\<lambda>(n, _). Inr (Ping n))
      else if command = ''pong'' then bindE (dec_u64 raw) (\<lambda>(n, _). Inr (Pong n))
      else if command = ''addr'' then bindE (w_dec_addrs W raw) (\<lambda>(a, _). Inr (Addr a))
      else if command = ''version'' then bindE (w_dec_version W raw) (\<lambda>(v, _). Inr (Version v))
      else if command = ''verack'' then Inr Verack
      else if command = ''wtxidrelay'' then Inr WtxidRelay
      else if command = ''ytxidrelay'' then Inr YtxidRelay
      else if command = ''ytxidack'' then Inr Ytxidack
      else if command = ''getaddr'' then Inr GetAddr
      else Inr (Unknown command raw))"

definition dec_raw_finite :: "bitcoin_ext \<Rightarrow> wire_ext \<Rightarrow> raw_network_message decoder" where
  "dec_raw_finite X W bs =
     bindE (w_dec_magic W bs) (\<lambda>(mg, bs).
     bindE (w_dec_command W bs) (\<lambda>(command, bs).
     bindE (w_dec_checked W bs) (\<lambda>(raw, bs).
     bindE (dec_payload X W command raw) (\<lambda>payload.
       Inr (\<lparr>rm_magic = mg, rm_payload = payload\<rparr>, bs)))))"

text \<open>The reader hands out at most \<open>MAX_MSG_SIZE\<close> bytes.\<close>

definition dec_raw_message :: "bitcoin_ext \<Rightarrow> wire_ext \<Rightarrow> raw_network_message decoder" where
  "dec_raw_message X W bs =
     bindE (dec_raw_finite X W (take MAX_MSG_SIZE bs)) (\<lambda>(m, rest). Inr (m, rest @ drop MAX_MSG_SIZE bs))"

section \<open>Round trip\<close>

text \<open>
  The documented behaviour of the formats of the \<open>bitcoin\<close> crate is that they read back what they
  wrote, within their limits: an address has eight segments and a magic number four bytes; a command
  is padded with zero bytes to twelve, so it has at most twelve characters and none of them is zero;
  commands and user agents are text, here ASCII; and a decoder is handed at most \<open>MAX_VEC_SIZE\<close>
  bytes, which for a checked payload include its length and its checksum.
\<close>

definition MAX_VEC_SIZE :: nat where
  "MAX_VEC_SIZE = 4000000"

definition ascii :: "char \<Rightarrow> bool" where
  "ascii c \<longleftrightarrow> 0 < (of_char c :: nat) \<and> (of_char c :: nat) < 128"

definition wf_command :: "string \<Rightarrow> bool" where
  "wf_command c \<longleftrightarrow> length c \<le> 12 \<and> list_all ascii c"

definition wf_net_address :: "net_address \<Rightarrow> bool" where
  "wf_net_address a \<longleftrightarrow> length (na_address a) = 8"

definition wf_version :: "version_message \<Rightarrow> bool" where
  "wf_version v \<longleftrightarrow> wf_net_address (vm_receiver v) \<and> wf_net_address (vm_sender v) \<and>
     length (vm_user_agent v) < 2 ^ 32 \<and> list_all ascii (vm_user_agent v)"

definition wf_addrs :: "(u32 \<times> net_address) list \<Rightarrow> bool" where
  "wf_addrs addrs \<longleftrightarrow> length addrs < 2 ^ 32 \<and> list_all (wf_net_address \<circ> snd) addrs"

definition wf_checked :: "bytes \<Rightarrow> bool" where
  "wf_checked d \<longleftrightarrow> length d + 8 \<le> MAX_VEC_SIZE"

definition frame_laws :: "wire_ext \<Rightarrow> bool" where
  "frame_laws W \<longleftrightarrow>
     codec (w_enc_magic W) (w_dec_magic W) (\<lambda>mg. length mg = 4) \<and>
     codec (w_enc_command W) (w_dec_command W) wf_command \<and>
     codec (w_enc_checked W) (w_dec_checked W) wf_checked \<and>
     codec (w_enc_addrs W) (w_dec_addrs W) (\<lambda>addrs. wf_addrs addrs \<and> length (w_enc_addrs W addrs) \<le> MAX_VEC_SIZE) \<and>
     codec (w_enc_version W) (w_dec_version W) (\<lambda>v. wf_version v \<and> length (w_enc_version W v) \<le> MAX_VEC_SIZE)"

lemma frame_lawsD:
  assumes "frame_laws W"
  shows "codec (w_enc_magic W) (w_dec_magic W) (\<lambda>mg. length mg = 4)"
    and "codec (w_enc_command W) (w_dec_command W) wf_command"
    and "codec (w_enc_checked W) (w_dec_checked W) wf_checked"
    and "codec (w_enc_addrs W) (w_dec_addrs W) (\<lambda>addrs. wf_addrs addrs \<and> length (w_enc_addrs W addrs) \<le> MAX_VEC_SIZE)"
    and "codec (w_enc_version W) (w_dec_version W) (\<lambda>v. wf_version v \<and> length (w_enc_version W v) \<le> MAX_VEC_SIZE)"
  using assms by (simp_all only: frame_laws_def)

fun wf_message :: "bitcoin_ext \<Rightarrow> network_message \<Rightarrow> bool" where
  "wf_message X (Inv is) = (length is < 2 ^ 32 \<and> list_all (\<lambda>(Ytx t) \<Rightarrow> length t = 32) is)"
| "wf_message X (MsgGetData is) = (length is < 2 ^ 32 \<and> list_all (\<lambda>(Ytx t) \<Rightarrow> length t = 32) is)"
| "wf_message X (YuvTx txs) =
     (length txs < 2 ^ 32 \<and> list_all (wf_yuv_tx X) txs \<and>
      list_all (\<lambda>t. \<not> is_announcement_tx (tx_type t)) (butlast txs))"
| "wf_message X (Addr addrs) = wf_addrs addrs"
| "wf_message X (Version v) = wf_version v"
| "wf_message X (Unknown _ _) = False"
| "wf_message X _ = True"

interpretation u64_codec: codec enc_u64 dec_u64 "\<lambda>_. True"
  by unfold_locales (simp add: enc_u64_def dec_u64_def codec_simps)

lemma dec_enc_inventories:
  "length is < 2 ^ 32 \<Longrightarrow> list_all (\<lambda>(Ytx t) \<Rightarrow> length t = 32) is \<Longrightarrow>
   dec_inventories (enc_inventories is) = Inr (is, [])"
  using inventory_codec.dec_times_enc [of "is" "[]"]
  by (simp add: dec_inventories_def enc_inventories_def codec_simps unat_of_nat_u32 list_all_iff)

lemma dec_enc_payload:
  assumes "frame_laws W" and "wf_message X m" and "wf_checked (enc_payload X W m)"
  shows "dec_payload X W (cmd m) (enc_payload X W m) = Inr m"
  using assms(2,3)
  by (cases m) (simp_all add: dec_payload_def dec_enc_inventories u64_codec.dec_enc_nil dec_enc_yuv_txs wf_checked_def
      codec.dec_enc_nil [OF frame_lawsD(4) [OF assms(1)]] codec.dec_enc_nil [OF frame_lawsD(5) [OF assms(1)]])

lemma wf_cmd: "wf_command (cmd m)"
  by (cases m) (simp_all add: wf_command_def ascii_def)

lemma dec_raw_finite_enc:
  assumes "frame_laws W" and "wf_message X (rm_payload m)" and "length (rm_magic m) = 4"
    and "wf_checked (enc_payload X W (rm_payload m))"
  shows "dec_raw_finite X W (enc_raw_message X W m @ rest) = Inr (m, rest)"
  using assms(3,4) wf_cmd [of "rm_payload m"]
  by (simp add: dec_raw_finite_def enc_raw_message_def dec_enc_payload [OF assms(1,2,4)]
      codec.dec_enc [OF frame_lawsD(1) [OF assms(1)]] codec.dec_enc [OF frame_lawsD(2) [OF assms(1)]]
      codec.dec_enc [OF frame_lawsD(3) [OF assms(1)]])


section \<open>The frame of the Bitcoin protocol\<close>

text \<open>
  The frame as the protocol documents it, with a simple checksum in the place of the double SHA-256:
  four bytes of magic, the command padded with zero bytes to twelve, length, checksum and payload;
  counts and lengths inside a payload are compact sizes; addresses and ports are big-endian. The
  decoders of the crate read at most \<open>MAX_VEC_SIZE\<close> bytes.
\<close>

definition at_most :: "nat \<Rightarrow> 'a decoder \<Rightarrow> 'a decoder" where
  "at_most n dec bs = bindE (dec (take n bs)) (\<lambda>(x, rest). Inr (x, rest @ drop n bs))"

lemma at_most_codec:
  assumes "codec enc dec ok"
  shows "codec enc (at_most n dec) (\<lambda>x. ok x \<and> length (enc x) \<le> n)"
  by unfold_locales (simp add: at_most_def codec.dec_enc [OF assms])

definition enc_u16_be :: "u16 \<Rightarrow> bytes" where
  "enc_u16_be w = rev (enc_u16 w)"

definition dec_u16_be :: "u16 decoder" where
  "dec_u16_be bs = bindE (read_exact 2 bs) (\<lambda>(a, rest). Inr (from_le_bytes (rev a), rest))"

definition enc_compact :: "nat \<Rightarrow> bytes" where
  "enc_compact n =
     (if n < 253 then [word_of_nat n]
      else if n < 2 ^ 16 then 253 # enc_u16 (word_of_nat n)
      else 254 # enc_u32 (word_of_nat n))"

definition dec_compact :: "nat decoder" where
  "dec_compact bs =
     bindE (dec_u8 bs) (\<lambda>(b, bs).
       if b = 253 then bindE (dec_u16 bs) (\<lambda>(w, bs). Inr (unat w, bs))
       else if b = 254 then bindE (dec_u32 bs) (\<lambda>(w, bs). Inr (unat w, bs))
       else Inr (unat b, bs))"

definition enc_bytes :: "bytes \<Rightarrow> bytes" where
  "enc_bytes d = enc_compact (length d) @ d"

definition dec_bytes :: "bytes decoder" where
  "dec_bytes bs = bindE (dec_compact bs) (\<lambda>(n, bs). read_exact n bs)"

definition byte_of :: "char \<Rightarrow> byte" where
  "byte_of c = word_of_nat (of_char c)"

definition char_of_byte :: "byte \<Rightarrow> char" where
  "char_of_byte b = char_of (unat b)"

definition enc_text :: "string \<Rightarrow> bytes" where
  "enc_text s = enc_bytes (map byte_of s)"

definition dec_text :: "string decoder" where
  "dec_text bs = bindE (dec_bytes bs) (\<lambda>(d, bs). Inr (map char_of_byte d, bs))"

definition enc_padded :: "string \<Rightarrow> bytes" where
  "enc_padded c = map byte_of c @ replicate (12 - length c) 0"

definition dec_padded :: "string decoder" where
  "dec_padded bs = bindE (read_exact 12 bs) (\<lambda>(d, bs). Inr (map char_of_byte (filter (\<lambda>b. b \<noteq> 0) d), bs))"

definition sample_checksum :: "bytes \<Rightarrow> bytes" where
  "sample_checksum d = enc_u32 (sum_list (map ucast d))"

definition enc_checked :: "bytes \<Rightarrow> bytes" where
  "enc_checked d = enc_u32 (of_nat (length d)) @ sample_checksum d @ d"

definition dec_checked :: "bytes decoder" where
  "dec_checked bs =
     bindE (dec_u32 bs) (\<lambda>(n, bs). bindE (read_exact 4 bs) (\<lambda>(c, bs). bindE (read_exact (unat n) bs) (\<lambda>(d, bs).
       if c \<noteq> sample_checksum d then Inl (ParseFailed ''invalid checksum'') else Inr (d, bs))))"

definition enc_net_address :: "net_address \<Rightarrow> bytes" where
  "enc_net_address a = enc_u64 (na_services a) @ concat (map enc_u16_be (na_address a)) @ enc_u16_be (na_port a)"

definition dec_net_address :: "net_address decoder" where
  "dec_net_address bs =
     bindE (dec_u64 bs) (\<lambda>(sv, bs).
     bindE (dec_times 8 dec_u16_be bs) (\<lambda>(ad, bs).
     bindE (dec_u16_be bs) (\<lambda>(pt, bs). Inr (\<lparr>na_services = sv, na_address = ad, na_port = pt\<rparr>, bs))))"

definition enc_addrs :: "(u32 \<times> net_address) list \<Rightarrow> bytes" where
  "enc_addrs addrs = enc_compact (length addrs) @ concat (map (\<lambda>(t, a). enc_u32 t @ enc_net_address a) addrs)"

definition dec_addrs :: "(u32 \<times> net_address) list decoder" where
  "dec_addrs bs =
     bindE (dec_compact bs) (\<lambda>(n, bs). dec_times n (\<lambda>bs.
       bindE (dec_u32 bs) (\<lambda>(t, bs). bindE (dec_net_address bs) (\<lambda>(a, bs). Inr ((t, a), bs)))) bs)"

definition enc_version :: "version_message \<Rightarrow> bytes" where
  "enc_version v = enc_u32 (vm_version v) @ enc_u64 (vm_services v) @ enc_u64 (vm_timestamp v) @
     enc_net_address (vm_receiver v) @ enc_net_address (vm_sender v) @ enc_u64 (vm_nonce v) @
     enc_text (vm_user_agent v) @ enc_u32 (vm_start_height v) @ [if vm_relay v then 1 else 0]"

definition dec_version :: "version_message decoder" where
  "dec_version bs =
     bindE (dec_u32 bs) (\<lambda>(ver, bs). bindE (dec_u64 bs) (\<lambda>(sv, bs). bindE (dec_u64 bs) (\<lambda>(ts, bs).
     bindE (dec_net_address bs) (\<lambda>(rcv, bs). bindE (dec_net_address bs) (\<lambda>(snd, bs).
     bindE (dec_u64 bs) (\<lambda>(n, bs). bindE (dec_text bs) (\<lambda>(ua, bs).
     bindE (dec_u32 bs) (\<lambda>(h, bs). bindE (dec_u8 bs) (\<lambda>(r, bs).
       Inr (\<lparr>vm_version = ver, vm_services = sv, vm_timestamp = ts, vm_receiver = rcv, vm_sender = snd,
         vm_nonce = n, vm_user_agent = ua, vm_start_height = h, vm_relay = (r \<noteq> 0)\<rparr>, bs))))))))))"

definition sample_wire :: wire_ext where
  "sample_wire = \<lparr>w_enc_magic = id, w_dec_magic = read_exact 4, w_enc_command = enc_padded,
     w_dec_command = dec_padded, w_enc_checked = enc_checked, w_dec_checked = at_most MAX_VEC_SIZE dec_checked,
     w_enc_bytes = enc_bytes, w_enc_addrs = enc_addrs, w_dec_addrs = at_most MAX_VEC_SIZE dec_addrs,
     w_enc_version = enc_version, w_dec_version = at_most MAX_VEC_SIZE dec_version\<rparr>"

interpretation u16_be_codec: codec enc_u16_be dec_u16_be "\<lambda>_. True"
  by unfold_locales (simp add: dec_u16_be_def enc_u16_be_def enc_u16_def codec_simps)

lemma unat_small: "n < 2 ^ 16 \<Longrightarrow> unat (word_of_nat n :: u16) = n" "n < 2 ^ 8 \<Longrightarrow> unat (word_of_nat n :: byte) = n"
  by (simp_all add: unsigned_of_nat take_bit_nat_eq_self)

interpretation compact_codec: codec enc_compact dec_compact "\<lambda>n. n < 2 ^ 32"
proof
  fix n :: nat and rest
  assume n: "n < 2 ^ 32"
  have "word_of_nat n \<noteq> (253 :: byte)" "word_of_nat n \<noteq> (254 :: byte)" if "n < 253"
    using unat_small(2) [of n] that by (auto dest!: arg_cong [of _ _ unat])
  with n show "dec_compact (enc_compact n @ rest) = Inr (n, rest)"
    by (auto simp: dec_compact_def enc_compact_def codec_simps unat_of_nat_u32 unat_small)
qed

interpretation bytes_codec: codec enc_bytes dec_bytes "\<lambda>d. length d < 2 ^ 32"
  by unfold_locales (simp add: dec_bytes_def enc_bytes_def compact_codec.dec_enc codec_simps)

lemma char_byte [simp]: "char_of_byte (byte_of c) = c"
  by (simp add: char_of_byte_def byte_of_def unat_of_nat char_of_def [symmetric])

interpretation text_codec: codec enc_text dec_text "\<lambda>s. length s < 2 ^ 32"
  by unfold_locales (simp add: dec_text_def enc_text_def bytes_codec.dec_enc comp_def)

lemma byte_of_ascii: "ascii c \<Longrightarrow> byte_of c \<noteq> 0"
  by (auto simp: ascii_def byte_of_def unat_small dest!: arg_cong [of _ _ unat])

interpretation padded_codec: codec enc_padded dec_padded wf_command
proof
  fix c :: string and rest
  assume c: "wf_command c"
  then have "filter (\<lambda>b. b \<noteq> 0) (map byte_of c) = map byte_of c"
    by (auto simp: wf_command_def list_all_iff byte_of_ascii filter_id_conv)
  with c show "dec_padded (enc_padded c @ rest) = Inr (c, rest)"
    using read_exact_append [of "enc_padded c" 12 rest]
    by (simp add: dec_padded_def enc_padded_def wf_command_def comp_def)
qed

lemma length_checksum [simp]: "length (sample_checksum d) = 4"
  by (simp add: sample_checksum_def)

lemma length_enc_checked [simp]: "length (enc_checked d) = length d + 8"
  by (simp add: enc_checked_def)

interpretation checked_codec: codec enc_checked dec_checked "\<lambda>d. length d < 2 ^ 32"
  by unfold_locales (simp add: dec_checked_def enc_checked_def codec_simps unat_of_nat_u32)

interpretation net_address_codec: codec enc_net_address dec_net_address wf_net_address
proof
  fix a :: net_address and rest
  assume "wf_net_address a"
  then have "dec_times 8 dec_u16_be (concat (map enc_u16_be (na_address a)) @ r) = Inr (na_address a, r)" for r
    using u16_be_codec.dec_times_enc [of "na_address a" r] by (simp add: wf_net_address_def)
  then show "dec_net_address (enc_net_address a @ rest) = Inr (a, rest)"
    by (simp add: dec_net_address_def enc_net_address_def u64_codec.dec_enc u16_be_codec.dec_enc)
qed

interpretation timed_address_codec: codec "\<lambda>(t, a). enc_u32 t @ enc_net_address a"
  "\<lambda>bs. bindE (dec_u32 bs) (\<lambda>(t, bs). bindE (dec_net_address bs) (\<lambda>(a, bs). Inr ((t, a), bs)))"
  "\<lambda>ta. wf_net_address (snd ta)"
  by unfold_locales (auto simp: codec_simps net_address_codec.dec_enc)

interpretation addrs_codec: codec enc_addrs dec_addrs wf_addrs
  by unfold_locales (auto simp: wf_addrs_def dec_addrs_def enc_addrs_def compact_codec.dec_enc
      list_all_iff timed_address_codec.dec_times_enc)

interpretation version_codec: codec enc_version dec_version wf_version
  by unfold_locales (simp add: wf_version_def dec_version_def enc_version_def codec_simps
      u64_codec.dec_enc net_address_codec.dec_enc text_codec.dec_enc)

lemma sample_frame_laws: "frame_laws sample_wire"
proof -
  have "codec enc_checked (at_most MAX_VEC_SIZE dec_checked) wf_checked"
    using codec.dec_enc [OF at_most_codec [OF checked_codec.codec_axioms, of MAX_VEC_SIZE]]
    by unfold_locales (simp add: wf_checked_def MAX_VEC_SIZE_def)
  then show ?thesis
    using raw_codec [of 4] padded_codec.codec_axioms at_most_codec [OF addrs_codec.codec_axioms]
      at_most_codec [OF version_codec.codec_axioms]
    by (simp only: frame_laws_def sample_wire_def wire_ext.simps)
qed


end
