(* ===== verification/P2p_Base.thy ===== *)
theory P2p_Base
  imports Network_Messages Event_Bus
begin

text \<open>
  What the managers of the peer-to-peer client share: local time and timers
  (\<open>p2p/src/net/time.rs\<close>), the network-adjusted clock (\<open>common/time.rs\<close>), the reasons of a
  disconnection and the outputs of the state machine (\<open>net/mod.rs\<close>, \<open>fsm/handler.rs\<close>,
  \<open>fsm/output.rs\<close>). Times and durations are milliseconds, natural numbers, so the difference of
  two times saturates at zero as in the source.
\<close>

unbundle bit_operations_syntax

section \<open>Time\<close>

type_synonym local_time = nat
type_synonym local_duration = nat

definition secs :: "nat \<Rightarrow> local_duration" where
  "secs n = n * 1000"

definition mins :: "nat \<Rightarrow> local_duration" where
  "mins n = secs (n * 60)"

definition time_diff :: "local_time \<Rightarrow> local_time \<Rightarrow> local_duration" where
  "time_diff a b = (if b < a then a - b else b - a)"

text \<open>The timers, the earliest one last.\<close>

record 'k timeout_manager =
  timeouts :: "('k \<times> local_time) list"
  threshold :: local_duration

definition new_timeouts :: "local_duration \<Rightarrow> 'k timeout_manager" where
  "new_timeouts th = \<lparr>timeouts = [], threshold = th\<rparr>"

text \<open>\<open>sort_unstable_by\<close> may permute timers of the same time; \<open>srt\<close> is the sort.\<close>

definition register_timeout ::
  "(('k \<times> local_time) list \<Rightarrow> ('k \<times> local_time) list) \<Rightarrow> 'k \<Rightarrow> local_time \<Rightarrow> 'k timeout_manager \<Rightarrow>
   bool \<times> 'k timeout_manager" where
  "register_timeout srt key time tm =
     (if list_ex (\<lambda>(_, t). time_diff t time < threshold tm) (timeouts tm) then (False, tm)
      else (True, tm\<lparr>timeouts := srt (timeouts tm @ [(key, time)])\<rparr>))"

definition next_timeout :: "local_time \<Rightarrow> 'k timeout_manager \<Rightarrow> local_duration option" where
  "next_timeout now tm =
     (if timeouts tm = [] then None
      else let (_, t) = last (timeouts tm) in Some (if now \<le> t then t - now else 0))"

function wake_timeouts :: "local_time \<Rightarrow> ('k \<times> local_time) list \<Rightarrow> 'k list \<Rightarrow> 'k list \<times> ('k \<times> local_time) list" where
  "wake_timeouts now ts woken =
     (if ts = [] then (woken, [])
      else let (k, t) = last ts in
        if t \<le> now then wake_timeouts now (butlast ts) (woken @ [k])
        else (woken, ts))"
  by pat_completeness auto
termination
  by (relation "measure (\<lambda>(now, ts, woken). length ts)") simp_all

declare wake_timeouts.simps [simp del]

definition wake :: "local_time \<Rightarrow> 'k timeout_manager \<Rightarrow> 'k list \<Rightarrow> nat \<times> 'k list \<times> 'k timeout_manager" where
  "wake now tm woken =
     (case wake_timeouts now (timeouts tm) woken of
        (woken', ts) \<Rightarrow> (length woken' - length woken, woken', tm\<lparr>timeouts := ts\<rparr>))"

section \<open>Timers keep their distance and wake in order\<close>

definition descending :: "(('k \<times> local_time) list \<Rightarrow> ('k \<times> local_time) list) \<Rightarrow> bool" where
  "descending srt \<longleftrightarrow> (\<forall>ts. mset (srt ts) = mset ts \<and> sorted (rev (map snd (srt ts))))"

definition timers_wf :: "'k timeout_manager \<Rightarrow> bool" where
  "timers_wf tm \<longleftrightarrow>
     sorted_wrt (\<lambda>a b. snd b \<le> snd a \<and> threshold tm \<le> time_diff (snd a) (snd b)) (timeouts tm)"

lemma time_diff_sym: "time_diff a b = time_diff b a"
  by (simp add: time_diff_def)

lemma wake_timeouts_eq:
  "sorted (rev (map snd ts)) \<Longrightarrow>
   wake_timeouts now ts woken =
     (woken @ map fst (filter (\<lambda>(_, t). t \<le> now) (rev ts)), filter (\<lambda>(_, t). now < t) ts)"
proof (induction ts arbitrary: woken rule: rev_induct)
  case Nil
  then show ?case by (simp add: wake_timeouts.simps)
next
  case (snoc e us)
  obtain k t where e: "e = (k, t)" by (cases e)
  have us: "sorted (rev (map snd us))" and le: "\<forall>u \<in> set us. t \<le> snd u"
    using snoc.prems by (auto simp: e)
  show ?case
  proof (cases "t \<le> now")
    case True
    then have "wake_timeouts now (us @ [e]) woken = wake_timeouts now us (woken @ [k])"
      by (subst wake_timeouts.simps) (simp add: e)
    with snoc.IH [OF us] True show ?thesis by (simp add: e)
  next
    case False
    then have "filter (\<lambda>(_, t). t \<le> now) (rev us) = []" "filter (\<lambda>(_, t). now < t) us = us"
      using le by (force simp: filter_empty_conv filter_id_conv)+
    with False show ?thesis by (subst wake_timeouts.simps) (simp add: e)
  qed
qed

lemma sorted_wrt_conj: "sorted_wrt P xs \<Longrightarrow> sorted_wrt Q xs \<Longrightarrow> sorted_wrt (\<lambda>a b. P a b \<and> Q a b) xs"
  by (induction xs) auto

lemma sorted_wrt_perm:
  assumes "\<And>a b. R a b \<Longrightarrow> R b a" and "mset ts = mset us" and "sorted_wrt R us"
  shows "sorted_wrt R ts"
  using assms(2,3)
proof (induction ts arbitrary: us)
  case (Cons x ts)
  then obtain as bs where us: "us = as @ x # bs" by (metis list.set_intros(1) set_mset_mset split_list)
  with Cons.prems have perm: "mset ts = mset (as @ bs)" and "sorted_wrt R (as @ bs)"
    by (auto simp: sorted_wrt_append)
  with Cons.IH have "sorted_wrt R ts" by blast
  moreover have "R x y" if "y \<in> set ts" for y
  proof -
    have "y \<in> set as \<union> set bs" using that perm by (metis set_append set_mset_mset)
    then show "R x y" using Cons.prems(2) us assms(1) by (auto simp: sorted_wrt_append)
  qed
  ultimately show ?case by simp
qed simp

lemma timers_sorted: "timers_wf tm \<Longrightarrow> sorted (rev (map snd (timeouts tm)))"
  unfolding timers_wf_def by (auto simp: sorted_wrt_rev sorted_wrt_map elim: sorted_wrt_mono_rel [rotated])

lemma register_wf:
  assumes "timers_wf tm" and "descending srt" and "register_timeout srt key time tm = (r, tm')"
  shows "timers_wf tm'"
proof (cases r)
  case False
  with assms show ?thesis by (auto simp: register_timeout_def split: if_splits)
next
  case True
  let ?us = "timeouts tm @ [(key, time)]" and ?R = "\<lambda>a b. threshold tm \<le> time_diff (snd a) (snd b)"
  have tm': "tm' = tm\<lparr>timeouts := srt ?us\<rparr>" and far: "\<forall>e \<in> set (timeouts tm). ?R e (key, time)"
    using assms(3) True by (auto simp: register_timeout_def list_ex_iff not_less split: if_splits)
  have "sorted_wrt ?R (timeouts tm)"
    using assms(1) unfolding timers_wf_def by (auto elim: sorted_wrt_mono_rel [rotated])
  with far have us: "sorted_wrt ?R ?us" by (simp add: sorted_wrt_append)
  have "sorted_wrt ?R (srt ?us)"
    by (rule sorted_wrt_perm [OF _ _ us]) (use assms(2) in \<open>auto simp: time_diff_sym descending_def\<close>)
  moreover have "sorted_wrt (\<lambda>a b. snd b \<le> snd a) (srt ?us)"
    using assms(2) by (simp add: descending_def sorted_wrt_rev sorted_wrt_map)
  ultimately show ?thesis by (simp add: tm' timers_wf_def sorted_wrt_conj)
qed

text \<open>C38. A request for a timer is served: the timers stay sorted and apart by the threshold, and
  there is a timer at the requested time or closer to it than the threshold. Waking removes
  exactly the timers that are due and reports their keys, the earliest first.
\<close>

theorem timers_served:
  assumes "timers_wf tm" and "descending srt" and "register_timeout srt key time tm = (r, tm')"
  shows "timers_wf tm' \<and> (\<exists>e \<in> set (timeouts tm'). snd e = time \<or> time_diff (snd e) time < threshold tm) \<and>
    (\<exists>tm''. wake now tm' woken = (length (filter (\<lambda>e. snd e \<le> now) (timeouts tm')),
         woken @ map fst (filter (\<lambda>e. snd e \<le> now) (rev (timeouts tm'))), tm'') \<and>
       timers_wf tm'' \<and> timeouts tm'' = filter (\<lambda>e. now < snd e) (timeouts tm'))"
proof -
  have wf: "timers_wf tm'" using register_wf [OF assms] .
  have "(key, time) \<in> set (srt (timeouts tm @ [(key, time)]))"
    using assms(2) by (metis descending_def in_set_conv_decomp set_mset_mset)
  then have "\<exists>e \<in> set (timeouts tm'). snd e = time \<or> time_diff (snd e) time < threshold tm"
    using assms(3) by (force simp: register_timeout_def list_ex_iff split: if_splits)
  moreover have "wake_timeouts now (timeouts tm') woken =
      (woken @ map fst (filter (\<lambda>e. snd e \<le> now) (rev (timeouts tm'))), filter (\<lambda>e. now < snd e) (timeouts tm'))"
    using wake_timeouts_eq [OF timers_sorted [OF wf], of now woken] by (simp add: split_def)
  moreover have "timers_wf (tm'\<lparr>timeouts := filter (\<lambda>e. now < snd e) (timeouts tm')\<rparr>)"
    using wf by (simp add: timers_wf_def sorted_wrt_filter)
  moreover have "length (filter (\<lambda>e. snd e \<le> now) (rev (timeouts tm'))) = length (filter (\<lambda>e. snd e \<le> now) (timeouts tm'))"
    by (simp add: rev_filter [symmetric])
  ultimately show ?thesis using wf by (simp add: wake_def)
qed

lemma descending_sort: "descending (\<lambda>ts. rev (sort_key snd ts))"
  by (simp add: descending_def rev_map)

definition sample_timers :: "nat timeout_manager" where
  "sample_timers = \<lparr>timeouts = [(1, 90), (2, 50)], threshold = 10\<rparr>"

theorem timers_served_witness:
  "\<exists>tm'. register_timeout (\<lambda>ts. rev (sort_key snd ts)) 3 70 sample_timers = (True, tm') \<and> timers_wf tm' \<and>
    timeouts tm' = [(1, 90), (3, 70), (2, 50)] \<and> fst (wake 70 tm' []) = 2 \<and> fst (snd (wake 70 tm' [])) = [2, 3]"
proof -
  let ?srt = "\<lambda>ts :: (nat \<times> nat) list. rev (sort_key snd ts)"
  let ?tm = "sample_timers\<lparr>timeouts := [(1, 90), (3, 70), (2, 50)]\<rparr>"
  have "timers_wf sample_timers" by (simp add: timers_wf_def sample_timers_def time_diff_def)
  moreover have reg: "register_timeout ?srt 3 70 sample_timers = (True, ?tm)" by code_simp
  ultimately have "timers_wf ?tm \<and> (\<exists>tm''. wake 70 ?tm [] = (length (filter (\<lambda>e. snd e \<le> 70) (timeouts ?tm)),
      [] @ map fst (filter (\<lambda>e. snd e \<le> 70) (rev (timeouts ?tm))), tm''))"
    using timers_served [OF _ descending_sort, of sample_timers 3 70 True ?tm 70 "[]"] by blast
  with reg show ?thesis by auto
qed

section \<open>The network-adjusted clock\<close>

type_synonym time_offset = "64 word"

definition MAX_TIME_ADJUSTMENT :: int where
  "MAX_TIME_ADJUSTMENT = 70 * 60"

definition MIN_TIME_SAMPLES :: nat where
  "MIN_TIME_SAMPLES = 5"

definition MAX_TIME_SAMPLES :: nat where
  "MAX_TIME_SAMPLES = 200"

record adjusted_time =
  sources :: "socket_addr list"
  samples :: "time_offset list"
  offset :: time_offset
  clock_time :: local_time

definition new_adjusted_time :: "local_time \<Rightarrow> adjusted_time" where
  "new_adjusted_time t = \<lparr>sources = [], samples = [0], offset = 0, clock_time = t\<rparr>"

text \<open>\<open>i64::abs\<close> wraps on the smallest number.\<close>

definition i64_abs :: "time_offset \<Rightarrow> time_offset" where
  "i64_abs w = (if sint w < 0 then - w else w)"

definition record_offset :: "socket_addr \<Rightarrow> time_offset \<Rightarrow> adjusted_time \<Rightarrow> adjusted_time" where
  "record_offset src sample c =
     (if length (sources c) = MAX_TIME_SAMPLES then c
      else if src \<in> set (sources c) then c
      else
        let c = c\<lparr>sources := hs_insert src (sources c), samples := samples c @ [sample]\<rparr>;
            offsets = sort_key sint (samples c);
            count = length offsets
        in if count < MIN_TIME_SAMPLES then c
           else if count mod 2 = 1 then
             let median_offset = offsets ! (count div 2)
             in c\<lparr>offset := (if sint (i64_abs median_offset) \<le> MAX_TIME_ADJUSTMENT then median_offset else 0)\<rparr>
           else c)"

definition set_local_time :: "local_time \<Rightarrow> adjusted_time \<Rightarrow> adjusted_time" where
  "set_local_time t c = c\<lparr>clock_time := t\<rparr>"

definition clock_wf :: "adjusted_time \<Rightarrow> bool" where
  "clock_wf c \<longleftrightarrow>
     distinct (sources c) \<and> length (sources c) \<le> MAX_TIME_SAMPLES \<and>
     length (samples c) = length (sources c) + 1 \<and>
     (\<forall>w \<in> set (samples c). w \<noteq> word_of_int (- (2 ^ 63))) \<and> \<bar>sint (offset c)\<bar> \<le> MAX_TIME_ADJUSTMENT"

lemma i64_abs_sint:
  assumes "w \<noteq> word_of_int (- (2 ^ 63))"
  shows "sint (i64_abs w) = \<bar>sint w\<bar>"
proof (cases "sint w < 0")
  case True
  have "sint w \<noteq> - (2 ^ 63)"
  proof
    assume "sint w = - (2 ^ 63)"
    then have "word_of_int (sint w) = (word_of_int (- (2 ^ 63)) :: time_offset)" by (simp only:)
    with assms show False by (simp only: of_int_sint) simp
  qed
  moreover have "- (2 ^ 63) \<le> sint w" using sint_ge [of w] by simp
  ultimately have range: "- (2 ^ 63) \<le> - sint w" "- sint w < 2 ^ 63" using True by simp_all
  have "sint (- w) = sint (word_of_int (- sint w) :: time_offset)" by simp
  also have "\<dots> = - sint w" using range by (subst signed_of_int) (simp add: signed_take_bit_int_eq_self)
  finally show ?thesis using True by (simp add: i64_abs_def)
qed (simp add: i64_abs_def)

text \<open>The clock never drifts: whatever offsets peers report, as long as none reports the smallest
  64-bit number, the adjustment stays within seventy minutes, every peer counts once, and there
  are at most 201 samples.
\<close>

lemma clock_adjustment_bounded:
  assumes "clock_wf c" and "sample \<noteq> word_of_int (- (2 ^ 63))"
  shows "clock_wf (record_offset src sample c)"
proof -
  let ?c = "c\<lparr>sources := hs_insert src (sources c), samples := samples c @ [sample]\<rparr>"
  have median: "\<bar>sint (if sint (i64_abs m) \<le> MAX_TIME_ADJUSTMENT then m else 0)\<bar> \<le> MAX_TIME_ADJUSTMENT"
    if "m \<in> set (samples ?c)" for m
    using i64_abs_sint [of m] that assms by (auto simp: clock_wf_def MAX_TIME_ADJUSTMENT_def)
  have "sort_key sint (samples ?c) ! (length (samples ?c) div 2) \<in> set (samples ?c)"
    using nth_mem [of "length (samples ?c) div 2" "sort_key sint (samples ?c)"] by simp
  note this [THEN median]
  with assms show ?thesis
    by (auto simp: record_offset_def clock_wf_def Let_def hs_insert_def)
qed

lemma clock_adjustment_bounded_witness:
  "clock_wf (record_offset (SocketAddr (V4 10 0 0 1) 8333) 7200 (new_adjusted_time 0))"
  by (rule clock_adjustment_bounded)
    (simp_all add: clock_wf_def new_adjusted_time_def MAX_TIME_SAMPLES_def MAX_TIME_ADJUSTMENT_def)

section \<open>Hash tables\<close>

text \<open>The order in which a hash table is walked is a function \<open>it\<close> that visits every key once.\<close>

definition walk :: "('a list \<Rightarrow> 'a list) \<Rightarrow> bool" where
  "walk it \<longleftrightarrow> (\<forall>xs. mset (it xs) = mset xs)"

lemma walk_set: "walk it \<Longrightarrow> set (it xs) = set xs"
  using mset_eq_setD [of "it xs" xs] by (simp add: walk_def)

lemma walk_distinct: "walk it \<Longrightarrow> distinct (it xs) = distinct xs"
  using mset_eq_imp_distinct_iff [of "it xs" xs] by (simp add: walk_def)

lemma walk_length: "walk it \<Longrightarrow> length (it xs) = length xs"
  using mset_eq_length [of "it xs" xs] by (simp add: walk_def)

section \<open>Addresses\<close>

text \<open>
  Addresses of the wire format are made from socket addresses and turned into them by the
  \<open>bitcoin\<close> crate; some, such as onion addresses, have no socket address. The fields of
  \<open>p2p_ext\<close> are these functions, the magic numbers of the Bitcoin networks and the DNS resolver.
\<close>

record p2p_ext =
  x_address_new :: "socket_addr \<Rightarrow> service_flags \<Rightarrow> net_address"
  x_socket_addr :: "net_address \<Rightarrow> socket_addr option"
  x_magic :: "bitcoin_network \<Rightarrow> magic"
  x_lookup_ip :: "string \<Rightarrow> ip_addr list option"

definition NO_SERVICES :: service_flags where
  "NO_SERVICES = 0"

definition NETWORK_SERVICE :: service_flags where
  "NETWORK_SERVICE = 1"

definition has_services :: "service_flags \<Rightarrow> service_flags \<Rightarrow> bool" where
  "has_services s flags \<longleftrightarrow> flags OR s = s"

definition MUTINY_MAGIC :: magic where
  "MUTINY_MAGIC = [0xCB, 0x2D, 0xDF, 0xA5]"

definition network_magic :: "p2p_ext \<Rightarrow> network \<Rightarrow> magic" where
  "network_magic A net = (if net = Mutiny then MUTINY_MAGIC else x_magic A (to_bitcoin_network net))"

datatype address_source = SourcePeer socket_addr | Dns | Imported

record known_address =
  ka_addr :: net_address
  ka_source :: address_source
  last_success :: "local_time option"
  last_sampled :: "local_time option"
  last_attempt :: "local_time option"
  last_active :: "local_time option"

definition new_known_address :: "net_address \<Rightarrow> address_source \<Rightarrow> local_time option \<Rightarrow> known_address" where
  "new_known_address a src t =
     \<lparr>ka_addr = a, ka_source = src, last_success = None, last_sampled = None, last_attempt = None,
      last_active = t\<rparr>"

section \<open>Outputs\<close>

datatype link = Inbound | Outbound

type_synonym io_error = string

datatype disconnect_reason =
    PeerMisbehaving string
  | PeerProtocolVersion u32
  | PeerServices service_flags
  | PeerMagic magic
  | PeerTimeout string
  | PeerDropped
  | SelfConnection
  | ConnectionLimit
  | DecodeError
  | CommandReason
  | ReasonPeerBanned
  | OtherReason string

fun is_transient :: "disconnect_reason \<Rightarrow> bool" where
  "is_transient ConnectionLimit = True"
| "is_transient (PeerTimeout _) = True"
| "is_transient _ = False"

datatype net_disconnect =
    DialError io_error
  | ConnectionError io_error
  | StateMachineReason disconnect_reason
  | PeerBanned

datatype address_event =
    AddressesReceived nat address_source
  | AddressBookExhausted
  | AddressError string

datatype peer_event =
    VersionReceived socket_addr version_message
  | Negotiated socket_addr link service_flags string u32
  | ConnectingEvent socket_addr address_source service_flags
  | ConnectionFailed socket_addr io_error
  | ConnectedEvent socket_addr link
  | DisconnectedEvent socket_addr net_disconnect

datatype p2p_event =
    Initializing
  | Ready nat nat local_time
  | ReceivedMsg network_message
  | AddressEv address_event
  | PeerEv peer_event
  | InventoryEv txid socket_addr
  | ErrorEv string

datatype p2p_io =
    Write socket_addr raw_network_message
  | Connect socket_addr
  | Disconnect socket_addr disconnect_reason
  | SetTimer local_duration
  | Event p2p_event

text \<open>Methods that may panic.\<close>

datatype panic = NotInitialized | AddressMustExist | EmptyRange

end
