(* ===== verification/Ping_Manager.thy ===== *)
theory Ping_Manager
  imports P2p_Base
begin

text \<open>
  The ping manager (\<open>p2p/src/fsm/pingmgr.rs\<close>), which finds dead connections, and the inventory
  manager (\<open>fsm/invmgr.rs\<close>). A manager holds a clone of the shared outbox: its field \<open>upstream\<close> is
  the queue. \<open>now\<close> is the time of the shared clock, \<open>nonce a\<close> the number the random generator
  draws for the peer \<open>a\<close>, and \<open>it\<close> the order in which the hash map is walked.
\<close>

section \<open>State\<close>

definition PING_INTERVAL :: local_duration where
  "PING_INTERVAL = mins 2"

definition PING_TIMEOUT :: local_duration where
  "PING_TIMEOUT = secs 30"

definition MAX_RECORDED_LATENCIES :: nat where
  "MAX_RECORDED_LATENCIES = 64"

datatype ping_state = AwaitingPong u64 local_time | Idle local_time

record ping_peer =
  pg_address :: socket_addr
  pg_state :: ping_state
  latencies :: "local_duration list"

record ping_manager =
  ping_peers :: "(socket_addr \<times> ping_peer) list"
  ping_timeout :: local_duration
  pg_magic :: magic
  pg_upstream :: "p2p_io list"

definition record_latency :: "local_duration \<Rightarrow> ping_peer \<Rightarrow> ping_peer" where
  "record_latency sample p = p\<lparr>latencies := take MAX_RECORDED_LATENCIES (sample # latencies p)\<rparr>"

definition new_ping_manager :: "local_duration \<Rightarrow> magic \<Rightarrow> ping_manager" where
  "new_ping_manager timeout mg = \<lparr>ping_peers = [], ping_timeout = timeout, pg_magic = mg, pg_upstream = []\<rparr>"

section \<open>Operations\<close>

definition pg_push :: "p2p_io list \<Rightarrow> ping_manager \<Rightarrow> ping_manager" where
  "pg_push outs m = m\<lparr>pg_upstream := pg_upstream m @ outs\<rparr>"

definition pg_message :: "ping_manager \<Rightarrow> socket_addr \<Rightarrow> network_message \<Rightarrow> p2p_io" where
  "pg_message m a msg = Write a \<lparr>rm_magic = pg_magic m, rm_payload = msg\<rparr>"

definition ping_negotiated :: "local_time \<Rightarrow> u64 \<Rightarrow> socket_addr \<Rightarrow> ping_manager \<Rightarrow> ping_manager" where
  "ping_negotiated now nonce a m =
     (let m = pg_push [pg_message m a (Ping nonce)] m
      in m\<lparr>ping_peers := AList.update a
            \<lparr>pg_address = a, pg_state = AwaitingPong nonce now, latencies = []\<rparr> (ping_peers m)\<rparr>)"

definition ping_disconnected :: "socket_addr \<Rightarrow> ping_manager \<Rightarrow> ping_manager" where
  "ping_disconnected a m = m\<lparr>ping_peers := AList.delete a (ping_peers m)\<rparr>"

definition ping_is_connected :: "socket_addr \<Rightarrow> ping_manager \<Rightarrow> bool" where
  "ping_is_connected a m \<longleftrightarrow> map_of (ping_peers m) a \<noteq> None"

text \<open>One round of the loop over the peers.\<close>

definition wake_peer :: "(socket_addr \<Rightarrow> u64) \<Rightarrow> local_time \<Rightarrow> ping_manager \<Rightarrow> socket_addr \<Rightarrow> ping_manager" where
  "wake_peer nonce now m a =
     (case map_of (ping_peers m) a of
        None \<Rightarrow> m
      | Some p \<Rightarrow>
          (case pg_state p of
             AwaitingPong _ since \<Rightarrow>
               if ping_timeout m \<le> now - since
               then pg_push [Disconnect (pg_address p) (PeerTimeout ''ping'')] m else m
           | Idle since \<Rightarrow>
               if PING_INTERVAL \<le> now - since
               then let m = pg_push [pg_message m (pg_address p) (Ping (nonce a)), SetTimer (ping_timeout m), SetTimer PING_INTERVAL] m
                    in m\<lparr>ping_peers := AList.update a (p\<lparr>pg_state := AwaitingPong (nonce a) now\<rparr>) (ping_peers m)\<rparr>
               else m))"

definition ping_received_wake ::
  "(socket_addr list \<Rightarrow> socket_addr list) \<Rightarrow> (socket_addr \<Rightarrow> u64) \<Rightarrow> local_time \<Rightarrow> ping_manager \<Rightarrow> ping_manager" where
  "ping_received_wake it nonce now m = foldl (wake_peer nonce now) m (it (map fst (ping_peers m)))"

definition received_ping :: "socket_addr \<Rightarrow> u64 \<Rightarrow> ping_manager \<Rightarrow> bool \<times> ping_manager" where
  "received_ping a nonce m =
     (if ping_is_connected a m then (True, pg_push [pg_message m a (Pong nonce)] m) else (False, m))"

definition received_pong :: "socket_addr \<Rightarrow> u64 \<Rightarrow> local_time \<Rightarrow> ping_manager \<Rightarrow> bool \<times> ping_manager" where
  "received_pong a nonce now m =
     (case map_of (ping_peers m) a of
        None \<Rightarrow> (False, m)
      | Some p \<Rightarrow>
          (case pg_state p of
             AwaitingPong last_nonce since \<Rightarrow>
               if nonce = last_nonce
               then (True, m\<lparr>ping_peers := AList.update a
                      ((record_latency (now - since) p)\<lparr>pg_state := Idle now\<rparr>) (ping_peers m)\<rparr>)
               else (False, m)
           | Idle _ \<Rightarrow> (False, m)))"

section \<open>The inventory manager\<close>

record inv_peer =
  requests :: "(block_hash \<times> nat) list"

record inventory_manager =
  inv_peers :: "(socket_addr \<times> inv_peer) list"
  inv_last_tick :: "local_time option"
  iv_upstream :: "p2p_io list"

definition new_inventory_manager :: inventory_manager where
  "new_inventory_manager = \<lparr>inv_peers = [], inv_last_tick = None, iv_upstream = []\<rparr>"

definition schedule_tick :: "inventory_manager \<Rightarrow> inventory_manager" where
  "schedule_tick m = m\<lparr>inv_last_tick := None, iv_upstream := iv_upstream m @ [SetTimer (secs 1)]\<rparr>"

definition inv_negotiated :: "socket_addr \<Rightarrow> inventory_manager \<Rightarrow> inventory_manager" where
  "inv_negotiated a m =
     (let m = schedule_tick m in m\<lparr>inv_peers := AList.update a \<lparr>requests = []\<rparr> (inv_peers m)\<rparr>)"

definition inv_disconnected :: "socket_addr \<Rightarrow> inventory_manager \<Rightarrow> inventory_manager" where
  "inv_disconnected a m = m\<lparr>inv_peers := AList.delete a (inv_peers m)\<rparr>"

definition inv_is_connected :: "socket_addr \<Rightarrow> inventory_manager \<Rightarrow> bool" where
  "inv_is_connected a m \<longleftrightarrow> map_of (inv_peers m) a \<noteq> None"

section \<open>Dead peers\<close>

text \<open>
  Every entry is stored under its own address, once.
\<close>

definition ping_wf :: "ping_manager \<Rightarrow> bool" where
  "ping_wf m \<longleftrightarrow> distinct (map fst (ping_peers m)) \<and> (\<forall>a p. map_of (ping_peers m) a = Some p \<longrightarrow> pg_address p = a)"

definition overdue :: "local_duration \<Rightarrow> local_time \<Rightarrow> ping_peer \<Rightarrow> bool" where
  "overdue timeout now p \<longleftrightarrow> (\<exists>n since. pg_state p = AwaitingPong n since \<and> timeout \<le> now - since)"

definition long_idle :: "local_time \<Rightarrow> ping_peer \<Rightarrow> bool" where
  "long_idle now p \<longleftrightarrow> (\<exists>since. pg_state p = Idle since \<and> PING_INTERVAL \<le> now - since)"

definition woken_peer :: "u64 \<Rightarrow> local_time \<Rightarrow> ping_peer \<Rightarrow> ping_peer" where
  "woken_peer n now p = (if long_idle now p then p\<lparr>pg_state := AwaitingPong n now\<rparr> else p)"

definition wake_outputs :: "(socket_addr \<Rightarrow> u64) \<Rightarrow> local_time \<Rightarrow> ping_manager \<Rightarrow> socket_addr \<Rightarrow> p2p_io list" where
  "wake_outputs nonce now m a =
     (case map_of (ping_peers m) a of
        None \<Rightarrow> []
      | Some p \<Rightarrow>
          if overdue (ping_timeout m) now p then [Disconnect a (PeerTimeout ''ping'')]
          else if long_idle now p
          then [pg_message m a (Ping (nonce a)), SetTimer (ping_timeout m), SetTimer PING_INTERVAL]
          else [])"

lemma ping_wf_address: "ping_wf m \<Longrightarrow> map_of (ping_peers m) a = Some p \<Longrightarrow> pg_address p = a"
  by (simp add: ping_wf_def)

lemma wake_peer_eq:
  assumes "ping_wf m"
  shows "wake_peer nonce now m a =
    pg_push (wake_outputs nonce now m a) (m\<lparr>ping_peers := (case map_of (ping_peers m) a of
      None \<Rightarrow> ping_peers m
    | Some p \<Rightarrow> if long_idle now p then AList.update a (woken_peer (nonce a) now p) (ping_peers m) else ping_peers m)\<rparr>)"
  using ping_wf_address [OF assms, of a]
  by (auto simp: wake_peer_def wake_outputs_def overdue_def long_idle_def woken_peer_def pg_push_def pg_message_def
      split: option.splits ping_state.splits)

lemma wake_peer_spec:
  assumes "ping_wf m"
  shows "ping_wf (wake_peer nonce now m a)"
    and "map_of (ping_peers (wake_peer nonce now m a)) =
      (map_of (ping_peers m))(a := map_option (woken_peer (nonce a) now) (map_of (ping_peers m) a))"
    and "pg_upstream (wake_peer nonce now m a) = pg_upstream m @ wake_outputs nonce now m a"
    and "ping_timeout (wake_peer nonce now m a) = ping_timeout m" "pg_magic (wake_peer nonce now m a) = pg_magic m"
proof -
  show eq: "map_of (ping_peers (wake_peer nonce now m a)) =
      (map_of (ping_peers m))(a := map_option (woken_peer (nonce a) now) (map_of (ping_peers m) a))"
    by (auto simp: wake_peer_eq [OF assms] pg_push_def hash_map.get_put woken_peer_def fun_eq_iff split: option.splits)
  have "distinct (map fst (ping_peers (wake_peer nonce now m a)))"
    using assms by (auto simp: wake_peer_eq [OF assms] ping_wf_def pg_push_def distinct_update split: option.splits)
  moreover have "pg_address q = b" if "map_of (ping_peers (wake_peer nonce now m a)) b = Some q" for b q
    using that ping_wf_address [OF assms] by (auto simp: eq woken_peer_def split: if_splits)
  ultimately show "ping_wf (wake_peer nonce now m a)" unfolding ping_wf_def by blast
qed (simp_all add: wake_peer_eq [OF assms] pg_push_def)

lemma wake_outputs_cong:
  "map_of (ping_peers m) a = map_of (ping_peers m') a \<Longrightarrow> ping_timeout m = ping_timeout m' \<Longrightarrow> pg_magic m = pg_magic m' \<Longrightarrow>
   wake_outputs nonce now m a = wake_outputs nonce now m' a"
  by (simp add: wake_outputs_def pg_message_def split: option.splits)

lemma disconnect_in_wake_outputs:
  "Disconnect a r \<in> set (wake_outputs nonce now m b) \<longleftrightarrow>
     b = a \<and> r = PeerTimeout ''ping'' \<and> (\<exists>p. map_of (ping_peers m) a = Some p \<and> overdue (ping_timeout m) now p)"
  by (cases "map_of (ping_peers m) b") (auto simp: wake_outputs_def pg_message_def)

lemma ping_in_wake_outputs:
  "pg_message m a (Ping (nonce a)) \<in> set (wake_outputs nonce now m b) \<Longrightarrow> b = a"
  by (cases "map_of (ping_peers m) b") (auto simp: wake_outputs_def pg_message_def split: if_splits)

lemma wake_all:
  assumes "ping_wf m" and "distinct as"
  shows "pg_upstream (foldl (wake_peer nonce now) m as) = pg_upstream m @ concat (map (wake_outputs nonce now m) as) \<and>
    (\<forall>a. map_of (ping_peers (foldl (wake_peer nonce now) m as)) a =
       (if a \<in> set as then map_option (woken_peer (nonce a) now) (map_of (ping_peers m) a) else map_of (ping_peers m) a)) \<and>
    ping_wf (foldl (wake_peer nonce now) m as)"
  using assms
proof (induction as arbitrary: m)
  case (Cons a as)
  let ?m = "wake_peer nonce now m a"
  note spec = wake_peer_spec [OF Cons.prems(1), of nonce now a]
  have outs: "map (wake_outputs nonce now ?m) as = map (wake_outputs nonce now m) as"
    using Cons.prems(2) spec by (auto intro!: wake_outputs_cong)
  have "distinct as" "a \<notin> set as" using Cons.prems(2) by simp_all
  note IH = Cons.IH [OF spec(1) this(1)]
  have "pg_upstream (foldl (wake_peer nonce now) m (a # as)) = pg_upstream m @ concat (map (wake_outputs nonce now m) (a # as))"
    using IH by (simp add: outs spec(3))
  moreover have "map_of (ping_peers (foldl (wake_peer nonce now) m (a # as))) b =
      (if b \<in> set (a # as) then map_option (woken_peer (nonce b) now) (map_of (ping_peers m) b) else map_of (ping_peers m) b)" for b
    using IH \<open>a \<notin> set as\<close> by (simp add: spec(2))
  ultimately show ?case using IH by simp
qed simp

text \<open>C37. A wake disconnects exactly the peers that owe a pong for longer than the timeout, whatever
  the order of the walk; a peer that was idle for the interval is sent one ping and now owes
  a pong, and every other peer is left as it is.
\<close>

theorem dead_peers_disconnected:
  assumes "ping_wf m" and "walk it" and "pg_upstream m = []"
  shows "(\<forall>a r. Disconnect a r \<in> set (pg_upstream (ping_received_wake it nonce now m)) \<longleftrightarrow>
      r = PeerTimeout ''ping'' \<and> (\<exists>p. map_of (ping_peers m) a = Some p \<and> overdue (ping_timeout m) now p)) \<and>
    (\<forall>a. count (mset (pg_upstream (ping_received_wake it nonce now m))) (pg_message m a (Ping (nonce a))) =
      (case map_of (ping_peers m) a of Some p \<Rightarrow> if long_idle now p then 1 else 0 | None \<Rightarrow> 0)) \<and>
    (\<forall>a. map_of (ping_peers (ping_received_wake it nonce now m)) a =
      map_option (woken_peer (nonce a) now) (map_of (ping_peers m) a))"
proof -
  let ?as = "it (map fst (ping_peers m))"
  have as: "distinct ?as" and mem: "a \<in> set ?as \<longleftrightarrow> map_of (ping_peers m) a \<noteq> None" for a
    using assms(1) by (simp_all add: walk_distinct [OF assms(2)] walk_set [OF assms(2)] map_of_eq_None_iff ping_wf_def)
  note all = wake_all [OF assms(1) as, of nonce now, folded ping_received_wake_def]
  have outs: "pg_upstream (ping_received_wake it nonce now m) = concat (map (wake_outputs nonce now m) ?as)"
    using all assms(3) by simp
  show ?thesis
  proof (intro conjI allI)
    fix a r
    show "Disconnect a r \<in> set (pg_upstream (ping_received_wake it nonce now m)) \<longleftrightarrow>
      r = PeerTimeout ''ping'' \<and> (\<exists>p. map_of (ping_peers m) a = Some p \<and> overdue (ping_timeout m) now p)"
      unfolding outs using mem [of a] by (simp add: disconnect_in_wake_outputs) blast
  next
    fix a
    show "map_of (ping_peers (ping_received_wake it nonce now m)) a =
      map_option (woken_peer (nonce a) now) (map_of (ping_peers m) a)"
      using all mem [of a] by (cases "map_of (ping_peers m) a") auto
  next
    fix a
    have "count (mset (concat (map (wake_outputs nonce now m) bs))) (pg_message m a (Ping (nonce a))) =
        (if a \<in> set bs then count (mset (wake_outputs nonce now m a)) (pg_message m a (Ping (nonce a))) else 0)"
      if "distinct bs" for bs
      using that by (induction bs) (auto dest: ping_in_wake_outputs)
    from this [OF as] show "count (mset (pg_upstream (ping_received_wake it nonce now m))) (pg_message m a (Ping (nonce a))) =
      (case map_of (ping_peers m) a of Some p \<Rightarrow> if long_idle now p then 1 else 0 | None \<Rightarrow> 0)"
      using mem [of a]
      by (cases "map_of (ping_peers m) a") (auto simp: outs wake_outputs_def pg_message_def overdue_def long_idle_def)
  qed
qed

definition silent_peer :: socket_addr where
  "silent_peer = SocketAddr (V4 10 0 0 1) 8333"

definition sample_pings :: ping_manager where
  "sample_pings = (ping_negotiated 0 5 silent_peer (new_ping_manager PING_TIMEOUT []))\<lparr>pg_upstream := []\<rparr>"

theorem dead_peers_disconnected_witness:
  "Disconnect silent_peer (PeerTimeout ''ping'') \<in>
     set (pg_upstream (ping_received_wake id (\<lambda>_. 6) 30000 sample_pings))"
proof -
  have "ping_wf sample_pings" "walk id" "pg_upstream sample_pings = []"
    by (simp_all add: ping_wf_def walk_def sample_pings_def ping_negotiated_def new_ping_manager_def pg_push_def)
  from dead_peers_disconnected [OF this, of "\<lambda>_. 6" 30000] show ?thesis
    by (simp add: overdue_def sample_pings_def ping_negotiated_def new_ping_manager_def pg_push_def PING_TIMEOUT_def secs_def)
qed

text \<open>
  A peer that answers the last ping in time is not overdue again before the next ping: from
  the pong on it is idle, and an answer with another nonce changes nothing.
\<close>

lemma pong_answers:
  assumes "map_of (ping_peers m) a = Some p" and "pg_state p = AwaitingPong n since"
  shows "received_pong a nonce now m =
    (if nonce = n
     then (True, m\<lparr>ping_peers := AList.update a ((record_latency (now - since) p)\<lparr>pg_state := Idle now\<rparr>) (ping_peers m)\<rparr>)
     else (False, m))"
  using assms by (simp add: received_pong_def)

end
