(* ===== verification/Address_Manager.thy ===== *)
theory Address_Manager
  imports P2p_Base
begin

text \<open>
  The address manager (\<open>p2p/src/fsm/addrmgr.rs\<close>) with its store of known addresses
  (\<open>common/peer.rs\<close>, \<open>client/peer.rs\<close>). What a call draws at random, the order of the walks over
  hash tables and the system clock are the fields of \<open>addr_env\<close>, an argument. The manager has
  two queues: \<open>am_upstream\<close> is the outbox of the state machine, \<open>am_outbox\<close> is its own.
\<close>

section \<open>State\<close>

definition REQUEST_TIMEOUT :: local_duration where
  "REQUEST_TIMEOUT = mins 1"

definition ADDR_IDLE_TIMEOUT :: local_duration where
  "ADDR_IDLE_TIMEOUT = mins 1"

definition SAMPLE_TIMEOUT :: local_duration where
  "SAMPLE_TIMEOUT = mins 3"

definition MAX_ADDR_ADDRESSES :: nat where
  "MAX_ADDR_ADDRESSES = 1000"

definition MAX_RANGE_SIZE :: nat where
  "MAX_RANGE_SIZE = 256"

record addr_env =
  e_now :: local_time
  e_pick :: "socket_addr list \<Rightarrow> socket_addr"
  e_ips :: "socket_addr list \<Rightarrow> socket_addr list"
  e_ranges :: "u8 list \<Rightarrow> u8 list"
  e_seed :: "string list \<Rightarrow> string"
  e_nonce :: "socket_addr \<Rightarrow> u64"

definition env_ok :: "addr_env \<Rightarrow> bool" where
  "env_ok E \<longleftrightarrow> (\<forall>xs. xs \<noteq> [] \<longrightarrow> e_pick E xs \<in> set xs) \<and> walk (e_ips E) \<and> walk (e_ranges E)"

record address_manager =
  known :: "(socket_addr \<times> known_address) list"
  bans :: "ip_addr list"
  address_ranges :: "(u8 \<times> socket_addr list) list"
  am_connected :: "socket_addr list"
  am_sources :: "socket_addr list"
  local_addrs :: "socket_addr list"
  last_request :: "local_time option"
  last_idle :: "local_time option"
  am_magic :: magic
  am_outbox :: "p2p_io list"
  am_upstream :: "p2p_io list"

section \<open>Address ranges\<close>

fun is_local :: "ip_addr \<Rightarrow> bool" where
  "is_local (V4 a b c d) \<longleftrightarrow>
     a = 10 \<or> a = 172 \<and> 16 \<le> b \<and> b \<le> 31 \<or> a = 192 \<and> b = 168 \<or>
     a = 127 \<or> a = 169 \<and> b = 254 \<or> a = 0 \<and> b = 0 \<and> c = 0 \<and> d = 0"
| "is_local (V6 _) \<longleftrightarrow> False"

fun addr_key :: "ip_addr \<Rightarrow> u8" where
  "addr_key (V4 a b _ _) = ucast ((push_bit 8 (ucast a :: u16) OR ucast b) mod 255)"
| "addr_key (V6 segments) =
     ucast ((push_bit 16 (ucast (segments ! 0) :: u32) OR ucast (segments ! 1)) mod 255)"

definition range_of :: "address_manager \<Rightarrow> u8 \<Rightarrow> socket_addr list" where
  "range_of m key = (case map_of (address_ranges m) key of None \<Rightarrow> [] | Some r \<Rightarrow> r)"

definition populate_address_ranges :: "addr_env \<Rightarrow> socket_addr \<Rightarrow> address_manager \<Rightarrow> address_manager" where
  "populate_address_ranges E a m =
     (let key = addr_key (ip a); rng = range_of m key in
      if length rng = MAX_RANGE_SIZE then
        let old = e_pick E rng in
        m\<lparr>known := AList.delete old (known m),
          address_ranges := AList.update key (hs_insert a (hs_remove old rng)) (address_ranges m)\<rparr>
      else m\<lparr>address_ranges := AList.update key (hs_insert a rng) (address_ranges m)\<rparr>)"

definition new_address_manager ::
  "addr_env \<Rightarrow> (socket_addr \<times> known_address) list \<Rightarrow> magic \<Rightarrow> address_manager" where
  "new_address_manager E peers mg =
     foldl (\<lambda>m a. populate_address_ranges E a m)
       \<lparr>known = peers, bans = [], address_ranges = [], am_connected = [], am_sources = [], local_addrs = [],
        last_request = None, last_idle = None, am_magic = mg, am_outbox = [], am_upstream = []\<rparr>
       (e_ips E (map fst peers))"

definition ban :: "socket_addr \<Rightarrow> address_manager \<Rightarrow> bool \<times> address_manager" where
  "ban a m =
     (let key = addr_key (ip a) in
      case map_of (address_ranges m) key of
        None \<Rightarrow> (False, m)
      | Some rng \<Rightarrow>
          let rng = hs_remove a rng in
          (True, m\<lparr>known := AList.delete a (known m), bans := hs_insert (ip a) (bans m),
             address_ranges := (if rng = [] then AList.delete key (address_ranges m)
               else AList.update key rng (address_ranges m))\<rparr>))"

section \<open>Sampling\<close>

definition am_is_empty :: "address_manager \<Rightarrow> bool" where
  "am_is_empty m \<longleftrightarrow> known m = [] \<or> address_ranges m = []"

definition failed_attempt :: "known_address \<Rightarrow> bool" where
  "failed_attempt ka \<longleftrightarrow> last_attempt ka \<noteq> None \<and> last_success ka = None"

definition recently_sampled :: "local_time \<Rightarrow> known_address \<Rightarrow> bool" where
  "recently_sampled time ka \<longleftrightarrow> time - (case last_sampled ka of None \<Rightarrow> 0 | Some t \<Rightarrow> t) < SAMPLE_TIMEOUT"

fun sample_range ::
  "(known_address \<Rightarrow> bool) \<Rightarrow> local_time \<Rightarrow> address_manager \<Rightarrow> socket_addr list \<Rightarrow>
   panic + ((net_address \<times> address_source) \<times> address_manager) option" where
  "sample_range P time m [] = Inr None"
| "sample_range P time m (a # as) =
     (case map_of (known m) a of
        None \<Rightarrow> Inl AddressMustExist
      | Some ka \<Rightarrow>
          if failed_attempt ka then sample_range P time m as
          else if recently_sampled time ka then sample_range P time m as
          else if a \<in> set (am_connected m) then sample_range P time m as
          else if \<not> P ka then sample_range P time m as
          else Inr (Some ((ka_addr ka, ka_source ka),
                 m\<lparr>known := AList.update a (ka\<lparr>last_sampled := Some time\<rparr>) (known m)\<rparr>)))"

fun sample_ranges ::
  "addr_env \<Rightarrow> (known_address \<Rightarrow> bool) \<Rightarrow> local_time \<Rightarrow> address_manager \<Rightarrow> socket_addr list list \<Rightarrow>
   panic + (net_address \<times> address_source) option \<times> address_manager" where
  "sample_ranges E P time m [] = Inr (None, m)"
| "sample_ranges E P time m (r # rs) =
     (if r = [] then Inl EmptyRange
      else bindE (sample_range P time m (e_ips E r)) (\<lambda>found.
        case found of
          None \<Rightarrow> sample_ranges E P time m rs
        | Some (x, m') \<Rightarrow> Inr (Some x, m')))"

definition sample_with ::
  "addr_env \<Rightarrow> (known_address \<Rightarrow> bool) \<Rightarrow> address_manager \<Rightarrow>
   panic + (net_address \<times> address_source) option \<times> address_manager" where
  "sample_with E P m =
     (if am_is_empty m then Inr (None, m)
      else bindE (ok_or NotInitialized (last_idle m)) (\<lambda>time.
        sample_ranges E P time m (map (range_of m) (e_ranges E (map fst (address_ranges m))))))"

definition sample ::
  "addr_env \<Rightarrow> service_flags \<Rightarrow> address_manager \<Rightarrow> panic + (net_address \<times> address_source) option \<times> address_manager" where
  "sample E services m = sample_with E (\<lambda>ka. has_services (na_services (ka_addr ka)) services) m"

section \<open>Operations\<close>

definition am_push :: "p2p_io list \<Rightarrow> address_manager \<Rightarrow> address_manager" where
  "am_push outs m = m\<lparr>am_upstream := am_upstream m @ outs\<rparr>"

definition am_message :: "address_manager \<Rightarrow> socket_addr \<Rightarrow> network_message \<Rightarrow> p2p_io" where
  "am_message m a msg = Write a \<lparr>rm_magic = am_magic m, rm_payload = msg\<rparr>"

definition am_own :: "p2p_io list \<Rightarrow> address_manager \<Rightarrow> address_manager" where
  "am_own outs m = m\<lparr>am_outbox := am_outbox m @ outs\<rparr>"

definition is_exhausted :: "address_manager \<Rightarrow> panic + bool" where
  "is_exhausted m =
     bindE (ok_or NotInitialized (last_idle m)) (\<lambda>time.
       Inr (list_all (\<lambda>(a, ka). failed_attempt ka \<or> recently_sampled time ka \<or> a \<in> set (am_connected m)) (known m)))"

definition idle :: "local_time \<Rightarrow> address_manager \<Rightarrow> address_manager" where
  "idle now m = am_own [SetTimer ADDR_IDLE_TIMEOUT] (m\<lparr>last_idle := Some now\<rparr>)"

definition am_initialize :: "local_time \<Rightarrow> address_manager \<Rightarrow> address_manager" where
  "am_initialize now m = idle now m"

definition get_addresses :: "addr_env \<Rightarrow> address_manager \<Rightarrow> address_manager" where
  "get_addresses E m = am_push (map (\<lambda>a. am_message m a GetAddr) (e_ips E (am_sources m))) m"

definition getaddr_entry :: "addr_env \<Rightarrow> address_manager \<Rightarrow> u8 \<Rightarrow> panic + u32 \<times> net_address" where
  "getaddr_entry E m key =
     (let rng = range_of m key in
      if rng = [] then Inl EmptyRange
      else bindE (ok_or AddressMustExist (map_of (known m) (e_pick E rng))) (\<lambda>ka.
        Inr (case last_active ka of None \<Rightarrow> 0 | Some t \<Rightarrow> of_nat (t div 1000), ka_addr ka)))"

definition received_getaddr :: "addr_env \<Rightarrow> socket_addr \<Rightarrow> address_manager \<Rightarrow> panic + address_manager" where
  "received_getaddr E from m =
     bindE (mapE (getaddr_entry E m) (e_ranges E (map fst (address_ranges m)))) (\<lambda>addrs.
       Inr (am_push [am_message m from (Addr addrs)] m))"

definition since :: "local_time option \<Rightarrow> local_time \<Rightarrow> local_duration" where
  "since t now = now - (case t of None \<Rightarrow> 0 | Some t \<Rightarrow> t)"

definition am_received_wake :: "addr_env \<Rightarrow> local_time \<Rightarrow> address_manager \<Rightarrow> panic + address_manager" where
  "am_received_wake E now m =
     bindE (if REQUEST_TIMEOUT \<le> since (last_request m) now then is_exhausted m else Inr False) (\<lambda>exhausted.
       let m = (if exhausted
                then am_own [SetTimer REQUEST_TIMEOUT]
                  ((get_addresses E (am_own [Event (AddressEv AddressBookExhausted)] m))\<lparr>last_request := Some now\<rparr>)
                else m)
       in Inr (if ADDR_IDLE_TIMEOUT \<le> since (last_idle m) now then idle now m else m))"

definition modify_known :: "socket_addr \<Rightarrow> (known_address \<Rightarrow> known_address) \<Rightarrow> address_manager \<Rightarrow> address_manager" where
  "modify_known a f m =
     (case map_of (known m) a of None \<Rightarrow> m | Some ka \<Rightarrow> m\<lparr>known := AList.update a (f ka) (known m)\<rparr>)"

definition peer_active :: "local_time \<Rightarrow> socket_addr \<Rightarrow> address_manager \<Rightarrow> address_manager" where
  "peer_active now a m = modify_known a (\<lambda>ka. ka\<lparr>last_active := Some now\<rparr>) m"

definition am_peer_attempted :: "local_time \<Rightarrow> socket_addr \<Rightarrow> address_manager \<Rightarrow> address_manager" where
  "am_peer_attempted now a m = modify_known a (\<lambda>ka. ka\<lparr>last_attempt := Some now\<rparr>) m"

definition insert_address ::
  "addr_env \<Rightarrow> p2p_ext \<Rightarrow> address_source \<Rightarrow> local_time \<Rightarrow> address_manager \<Rightarrow> u32 \<times> net_address \<Rightarrow> address_manager" where
  "insert_address E A src time m e =
     (case e of (active, addr) \<Rightarrow>
      if active = 0 then m
      else if time + mins 60 < secs (unat active) then m
      else case x_socket_addr A addr of
        None \<Rightarrow> m
      | Some a \<Rightarrow>
          if ip a \<in> set (bans m) then m
          else if a \<in> set (local_addrs m) then m
          else if map_of (known m) a \<noteq> None then m
          else populate_address_ranges E a
                 (m\<lparr>known := AList.update a (new_known_address addr src None) (known m)\<rparr>))"

definition insert_addresses ::
  "addr_env \<Rightarrow> p2p_ext \<Rightarrow> (u32 \<times> net_address) list \<Rightarrow> address_source \<Rightarrow> address_manager \<Rightarrow> panic + address_manager" where
  "insert_addresses E A addrs src m =
     bindE (ok_or NotInitialized (last_idle m)) (\<lambda>time.
       Inr (foldl (insert_address E A src time) m addrs))"

definition received_addr ::
  "addr_env \<Rightarrow> p2p_ext \<Rightarrow> socket_addr \<Rightarrow> (u32 \<times> net_address) list \<Rightarrow> address_manager \<Rightarrow> panic + address_manager" where
  "received_addr E A peer addrs m =
     (if addrs = [] \<or> MAX_ADDR_ADDRESSES < length addrs then Inr m
      else insert_addresses E A addrs (SourcePeer peer)
             (am_push [Event (AddressEv (AddressesReceived (length addrs) (SourcePeer peer)))] m))"

definition am_peer_connected ::
  "addr_env \<Rightarrow> p2p_ext \<Rightarrow> socket_addr \<Rightarrow> address_manager \<Rightarrow> panic + address_manager" where
  "am_peer_connected E A a m =
     bindE (insert_addresses E A [(of_nat (e_now E div 1000), x_address_new A a NO_SERVICES)] (SourcePeer a) m) (\<lambda>m.
       let m = populate_address_ranges E a m
       in Inr (m\<lparr>am_connected := hs_insert a (am_connected m)\<rparr>))"

definition am_peer_negotiated ::
  "p2p_ext \<Rightarrow> local_time \<Rightarrow> socket_addr \<Rightarrow> service_flags \<Rightarrow> address_manager \<Rightarrow> address_manager" where
  "am_peer_negotiated A now a services m =
     (let m = m\<lparr>am_sources := hs_insert a (am_sources m)\<rparr> in
      case map_of (known m) a of
        None \<Rightarrow> m
      | Some ka \<Rightarrow>
          let m = (if last_success ka = None
                   then am_own [Write a \<lparr>rm_magic = network_magic A Bitcoin, rm_payload = GetAddr\<rparr>] m else m)
          in m\<lparr>known := AList.update a
                (ka\<lparr>last_success := Some now, last_active := Some now, ka_addr := (ka_addr ka)\<lparr>na_services := services\<rparr>\<rparr>)
                (known m)\<rparr>)"

fun bans_for :: "net_disconnect \<Rightarrow> bool" where
  "bans_for (StateMachineReason r) = (\<not> is_transient r)"
| "bans_for (DialError _) = True"
| "bans_for PeerBanned = True"
| "bans_for (ConnectionError _) = False"

definition am_peer_disconnected :: "socket_addr \<Rightarrow> net_disconnect \<Rightarrow> address_manager \<Rightarrow> address_manager" where
  "am_peer_disconnected a reason m =
     (if a \<in> set (am_connected m) then
        let m = m\<lparr>am_connected := hs_remove a (am_connected m), am_sources := hs_remove a (am_sources m)\<rparr>
        in if bans_for reason then snd (ban a m) else m
      else m)"

definition is_banned :: "socket_addr \<Rightarrow> address_manager \<Rightarrow> bool" where
  "is_banned a m \<longleftrightarrow> ip a \<in> set (bans m)"

definition record_local_address :: "socket_addr \<Rightarrow> address_manager \<Rightarrow> address_manager" where
  "record_local_address a m = m\<lparr>local_addrs := hs_insert a (local_addrs m)\<rparr>"

definition am_is_connected :: "socket_addr \<Rightarrow> address_manager \<Rightarrow> bool" where
  "am_is_connected a m \<longleftrightarrow>
     a \<in> set (local_addrs m) \<or> map_of (known m) a \<noteq> None \<or> a \<in> set (am_connected m) \<or>
     map_of (address_ranges m) (addr_key (ip a)) \<noteq> None"

section \<open>The address book\<close>

text \<open>
  The ranges are not empty, hold at most \<open>MAX_RANGE_SIZE\<close> addresses, each once and under its
  key. In a well-formed book an address is known if and only if it is in its range; \<open>S\<close> are the
  known addresses that are still to be put into their range.
\<close>

definition ranges_wf :: "address_manager \<Rightarrow> bool" where
  "ranges_wf m \<longleftrightarrow>
     (\<forall>k r. map_of (address_ranges m) k = Some r \<longrightarrow>
        r \<noteq> [] \<and> distinct r \<and> length r \<le> MAX_RANGE_SIZE \<and> (\<forall>a \<in> set r. addr_key (ip a) = k))"

definition ranged :: "address_manager \<Rightarrow> socket_addr \<Rightarrow> bool" where
  "ranged m a \<longleftrightarrow> a \<in> set (range_of m (addr_key (ip a)))"

definition book_upto :: "socket_addr set \<Rightarrow> address_manager \<Rightarrow> bool" where
  "book_upto S m \<longleftrightarrow>
     ranges_wf m \<and> (\<forall>a. map_of (known m) a \<noteq> None \<longleftrightarrow> ranged m a \<or> a \<in> S) \<and> (\<forall>a \<in> S. \<not> ranged m a)"

definition book_wf :: "address_manager \<Rightarrow> bool" where
  "book_wf m \<longleftrightarrow> book_upto {} m"

lemma known_frame [simp]:
  "range_of (m\<lparr>known := x\<rparr>) k = range_of m k" "ranged (m\<lparr>known := x\<rparr>) a = ranged m a"
  "ranges_wf (m\<lparr>known := x\<rparr>) = ranges_wf m"
  by (simp_all add: ranged_def range_of_def ranges_wf_def)

lemma book_wfD:
  assumes "book_wf m"
  shows "ranges_wf m" and "map_of (known m) a = None \<longleftrightarrow> \<not> ranged m a"
  using assms unfolding book_wf_def book_upto_def by (simp, metis empty_iff option.exhaust)

lemma env_okD:
  assumes "env_ok E"
  shows "xs \<noteq> [] \<Longrightarrow> e_pick E xs \<in> set xs" and "walk (e_ips E)" and "walk (e_ranges E)"
  using assms by (simp_all add: env_ok_def)

lemma pick_full: "env_ok E \<Longrightarrow> length r = MAX_RANGE_SIZE \<Longrightarrow> e_pick E r \<in> set r"
  by (rule env_okD(1)) (auto simp: MAX_RANGE_SIZE_def)

lemma range_of_wf:
  assumes "ranges_wf m"
  shows "distinct (range_of m k)" "length (range_of m k) \<le> MAX_RANGE_SIZE" "a \<in> set (range_of m k) \<Longrightarrow> addr_key (ip a) = k"
  using assms by (cases "map_of (address_ranges m) k"; auto simp: ranges_wf_def range_of_def)+

text \<open>The range of the key of an address after it was put in.\<close>

definition populated :: "addr_env \<Rightarrow> socket_addr \<Rightarrow> socket_addr list \<Rightarrow> socket_addr list" where
  "populated E a r = hs_insert a (if length r = MAX_RANGE_SIZE then hs_remove (e_pick E r) r else r)"

lemma populate_eqs:
  "range_of (populate_address_ranges E a m) k =
     (if k = addr_key (ip a) then populated E a (range_of m k) else range_of m k)"
  "map_of (address_ranges (populate_address_ranges E a m)) k =
     (if k = addr_key (ip a) then Some (populated E a (range_of m k)) else map_of (address_ranges m) k)"
  "map_of (known (populate_address_ranges E a m)) b =
     (if length (range_of m (addr_key (ip a))) = MAX_RANGE_SIZE \<and> b = e_pick E (range_of m (addr_key (ip a)))
      then None else map_of (known m) b)"
  by (auto simp: populate_address_ranges_def populated_def range_of_def Let_def hash_map.get_put hash_map.get_del)

lemma populate_frame [simp]:
  "bans (populate_address_ranges E a m) = bans m" "am_connected (populate_address_ranges E a m) = am_connected m"
  "am_sources (populate_address_ranges E a m) = am_sources m" "local_addrs (populate_address_ranges E a m) = local_addrs m"
  "last_idle (populate_address_ranges E a m) = last_idle m" "last_request (populate_address_ranges E a m) = last_request m"
  "am_upstream (populate_address_ranges E a m) = am_upstream m" "am_magic (populate_address_ranges E a m) = am_magic m"
  "am_outbox (populate_address_ranges E a m) = am_outbox m"
  by (simp_all add: populate_address_ranges_def Let_def)

lemma populated_wf:
  assumes "env_ok E" and "distinct r" and "length r \<le> MAX_RANGE_SIZE"
  shows "populated E a r \<noteq> []" "distinct (populated E a r)" "length (populated E a r) \<le> MAX_RANGE_SIZE"
    "set (populated E a r) = insert a (if length r = MAX_RANGE_SIZE then set r - {e_pick E r} else set r)"
proof -
  have "e_pick E r \<in> set r" if "length r = MAX_RANGE_SIZE"
    using that by (rule pick_full [OF assms(1)])
  then have "length (hs_remove (e_pick E r) r) < MAX_RANGE_SIZE" if "length r = MAX_RANGE_SIZE"
    using that length_filter_less [of "e_pick E r" r "\<lambda>y. y \<noteq> e_pick E r"] by (auto simp: hs_remove_def)
  with assms(3) show "length (populated E a r) \<le> MAX_RANGE_SIZE"
    by (auto simp: populated_def hs_insert_def)
  have "a \<in> set (populated E a r)" by (simp add: populated_def)
  then show "populated E a r \<noteq> []" by auto
qed (use assms(2) in \<open>auto simp: populated_def distinct_hs_insert distinct_hs_remove\<close>)

lemma populate_ranges_wf:
  assumes E: "env_ok E" and m: "ranges_wf m"
  shows "ranges_wf (populate_address_ranges E a m)"
proof -
  let ?k = "addr_key (ip a)"
  note r = range_of_wf [OF m, where k = ?k]
  have "\<forall>b \<in> set (populated E a (range_of m ?k)). addr_key (ip b) = ?k"
    using r(3) by (auto simp: populated_wf(4) [OF E r(1,2)] split: if_splits)
  with populated_wf(1-3) [OF E r(1,2), of a] m show ?thesis
    unfolding ranges_wf_def by (simp add: populate_eqs)
qed

lemma populate_ranged:
  assumes "env_ok E" and "ranges_wf m"
  shows "ranged (populate_address_ranges E a m) b \<longleftrightarrow>
    b = a \<or> ranged m b \<and> \<not> (length (range_of m (addr_key (ip a))) = MAX_RANGE_SIZE \<and> b = e_pick E (range_of m (addr_key (ip a))))"
proof -
  let ?k = "addr_key (ip a)"
  note r = range_of_wf [OF assms(2), where k = ?k]
  have old: "addr_key (ip (e_pick E (range_of m ?k))) = ?k" if "length (range_of m ?k) = MAX_RANGE_SIZE"
    using r(3) pick_full [OF assms(1) that] by blast
  show ?thesis
    using old by (cases "addr_key (ip b) = ?k") (auto simp: ranged_def populate_eqs populated_wf(4) [OF assms(1) r(1,2)])
qed

lemma populate_new:
  assumes "env_ok E" and "book_upto (insert a S) m" and "a \<notin> S"
  shows "book_upto S (populate_address_ranges E a m)"
proof -
  have wf: "ranges_wf m" and new: "\<not> ranged m a" using assms(2) by (auto simp: book_upto_def)
  let ?r = "range_of m (addr_key (ip a))"
  have old: "ranged m (e_pick E ?r)" if "length ?r = MAX_RANGE_SIZE"
    using range_of_wf(3) [OF wf pick_full [OF assms(1) that]] pick_full [OF assms(1) that] by (simp add: ranged_def)
  show ?thesis
    using assms(2,3) old new unfolding book_upto_def
    by (auto simp: populate_ranges_wf [OF assms(1) wf] populate_ranged [OF assms(1) wf] populate_eqs)
qed

lemma populate_again:
  assumes "env_ok E" and "book_wf m" and "ranged m a" and "length (range_of m (addr_key (ip a))) < MAX_RANGE_SIZE"
  shows "book_wf (populate_address_ranges E a m)"
proof -
  have wf: "ranges_wf m" using assms(2) by (simp add: book_wf_def book_upto_def)
  show ?thesis
    using assms(2-4) unfolding book_wf_def book_upto_def
    by (auto simp: populate_ranges_wf [OF assms(1) wf] populate_ranged [OF assms(1) wf] populate_eqs)
qed

lemma new_book:
  assumes "env_ok E" and "distinct as" and "book_upto (set as) m"
  shows "book_wf (foldl (\<lambda>m a. populate_address_ranges E a m) m as)"
  using assms(2,3)
proof (induction as arbitrary: m)
  case (Cons a as)
  with populate_new [OF assms(1), of a "set as" m] show ?case by simp
qed (simp add: book_wf_def)

lemma new_book_wf:
  assumes "env_ok E" and "distinct (map fst peers)"
  shows "book_wf (new_address_manager E peers mg)"
  unfolding new_address_manager_def
  by (rule new_book [OF assms(1)])
     (use assms in \<open>auto simp: walk_distinct [OF env_okD(2)] walk_set [OF env_okD(2)] book_upto_def ranges_wf_def
        ranged_def range_of_def map_of_eq_None_iff\<close>)

text \<open>Only the keys of the known addresses and the ranges matter to the book.\<close>

lemma book_wf_cong:
  "(\<And>a. map_of (known m') a = None \<longleftrightarrow> map_of (known m) a = None) \<Longrightarrow> address_ranges m' = address_ranges m \<Longrightarrow>
   book_wf m' = book_wf m"
  by (simp add: book_wf_def book_upto_def ranges_wf_def ranged_def range_of_def)

lemma ban_eqs:
  assumes "map_of (address_ranges m) (addr_key (ip a)) = Some r"
  shows "range_of (snd (ban a m)) k = (if k = addr_key (ip a) then hs_remove a r else range_of m k)"
    "map_of (address_ranges (snd (ban a m))) k =
      (if k = addr_key (ip a) then if hs_remove a r = [] then None else Some (hs_remove a r) else map_of (address_ranges m) k)"
    "map_of (known (snd (ban a m))) b = (if b = a then None else map_of (known m) b)"
  using assms by (auto simp: ban_def range_of_def Let_def hash_map.get_put hash_map.get_del)

lemma ban_wf:
  assumes "book_wf m"
  shows "book_wf (snd (ban a m))"
proof (cases "map_of (address_ranges m) (addr_key (ip a))")
  case None
  with assms show ?thesis by (simp add: ban_def)
next
  case (Some r)
  have wf: "ranges_wf m" and iff: "\<And>b. map_of (known m) b \<noteq> None \<longleftrightarrow> ranged m b"
    using assms by (simp_all add: book_wf_def book_upto_def)
  have r: "distinct r" "length r \<le> MAX_RANGE_SIZE" "\<And>b. b \<in> set r \<Longrightarrow> addr_key (ip b) = addr_key (ip a)"
    using wf Some by (auto simp: ranges_wf_def)
  have "ranges_wf (snd (ban a m))"
    using wf r distinct_hs_remove [OF r(1)] length_hs_remove_le [of a r]
    unfolding ranges_wf_def by (auto simp: ban_eqs [OF Some])
  moreover have "b = a" if "hs_remove a r = []" "b \<in> set r" for b
    using that by (auto simp: hs_remove_def filter_empty_conv)
  then have "ranged (snd (ban a m)) b \<longleftrightarrow> ranged m b \<and> b \<noteq> a" for b
    using Some by (auto simp: ranged_def ban_eqs [OF Some] range_of_def)
  ultimately show ?thesis using iff by (auto simp: book_wf_def book_upto_def ban_eqs [OF Some])
qed

lemma insert_address_wf:
  assumes "env_ok E" and "book_wf m"
  shows "book_wf (insert_address E A src time m e)"
proof -
  have "book_wf (populate_address_ranges E a (m\<lparr>known := AList.update a ka (known m)\<rparr>))"
    if "map_of (known m) a = None" for a ka
    unfolding book_wf_def
    by (rule populate_new [OF assms(1)])
       (use assms(2) book_wfD(2) [OF assms(2), of a] that in \<open>auto simp: book_wf_def book_upto_def hash_map.get_put\<close>)
  with assms(2) show ?thesis
    by (auto simp: insert_address_def split: prod.splits option.splits)
qed

lemma insert_addresses_wf:
  assumes "env_ok E" and "book_wf m"
  shows "book_wf (foldl (insert_address E A src time) m es)"
  using assms(2) by (induction es arbitrary: m) (simp_all add: insert_address_wf [OF assms(1)])

definition worthy :: "(known_address \<Rightarrow> bool) \<Rightarrow> local_time \<Rightarrow> address_manager \<Rightarrow> socket_addr \<Rightarrow> bool" where
  "worthy P time m a \<longleftrightarrow>
     (\<exists>ka. map_of (known m) a = Some ka \<and> \<not> failed_attempt ka \<and> \<not> recently_sampled time ka \<and>
        a \<notin> set (am_connected m) \<and> P ka)"

definition sampled :: "local_time \<Rightarrow> socket_addr \<Rightarrow> address_manager \<Rightarrow> address_manager" where
  "sampled time a m = modify_known a (\<lambda>ka. ka\<lparr>last_sampled := Some time\<rparr>) m"

text \<open>
  Sampling in a well-formed book never panics. It finds an address whenever a worthy one is
  known, marks it, and changes nothing else.
\<close>

lemma sample_range_spec:
  assumes "\<forall>a \<in> set as. map_of (known m) a \<noteq> None"
  shows "(\<exists>a ka. a \<in> set as \<and> worthy P time m a \<and> map_of (known m) a = Some ka \<and>
      sample_range P time m as = Inr (Some ((ka_addr ka, ka_source ka), sampled time a m))) \<or>
    (\<forall>a \<in> set as. \<not> worthy P time m a) \<and> sample_range P time m as = Inr None"
  using assms
proof (induction as)
  case (Cons a as)
  then obtain ka where ka: "map_of (known m) a = Some ka" by auto
  show ?case
  proof (cases "worthy P time m a")
    case True
    with ka have "sample_range P time m (a # as) = Inr (Some ((ka_addr ka, ka_source ka), sampled time a m))"
      by (auto simp: worthy_def sampled_def modify_known_def)
    with True ka show ?thesis by auto
  next
    case False
    with ka have "sample_range P time m (a # as) = sample_range P time m as"
      by (auto simp: worthy_def)
    with False Cons show ?thesis by auto
  qed
qed simp

lemma sample_ranges_spec:
  assumes "env_ok E" and "\<forall>r \<in> set rs. r \<noteq> [] \<and> (\<forall>a \<in> set r. map_of (known m) a \<noteq> None)"
  shows "(\<exists>a ka. a \<in> \<Union> (set ` set rs) \<and> worthy P time m a \<and> map_of (known m) a = Some ka \<and>
      sample_ranges E P time m rs = Inr (Some (ka_addr ka, ka_source ka), sampled time a m)) \<or>
    (\<forall>a \<in> \<Union> (set ` set rs). \<not> worthy P time m a) \<and> sample_ranges E P time m rs = Inr (None, m)"
  using assms(2)
proof (induction rs)
  case (Cons r rs)
  have ips: "set (e_ips E r) = set r" by (rule walk_set [OF env_okD(2) [OF assms(1)]])
  have r: "r \<noteq> []" "\<forall>a \<in> set (e_ips E r). map_of (known m) a \<noteq> None" using Cons.prems ips by simp_all
  from sample_range_spec [OF r(2), of P time] show ?case
  proof (elim disjE exE conjE)
    fix a ka
    assume "a \<in> set (e_ips E r)" "worthy P time m a" "map_of (known m) a = Some ka"
      "sample_range P time m (e_ips E r) = Inr (Some ((ka_addr ka, ka_source ka), sampled time a m))"
    with r ips show ?thesis by auto
  next
    assume "\<forall>a \<in> set (e_ips E r). \<not> worthy P time m a" "sample_range P time m (e_ips E r) = Inr None"
    with Cons r ips show ?thesis by auto
  qed
qed simp

lemma sample_with_spec:
  assumes "env_ok E" and "book_wf m" and "last_idle m = Some time"
  shows "(\<exists>a ka. worthy P time m a \<and> map_of (known m) a = Some ka \<and>
      sample_with E P m = Inr (Some (ka_addr ka, ka_source ka), sampled time a m)) \<or>
    (\<forall>a. \<not> worthy P time m a) \<and> sample_with E P m = Inr (None, m)"
proof (cases "am_is_empty m")
  case True
  have "map_of (known m) a = None" for a
    using True assms(2) by (auto simp: am_is_empty_def book_wf_def book_upto_def ranged_def range_of_def)
  with True show ?thesis by (simp add: sample_with_def worthy_def)
next
  case False
  let ?ks = "e_ranges E (map fst (address_ranges m))" and ?rs = "map (range_of m) (e_ranges E (map fst (address_ranges m)))"
  have ks: "k \<in> set ?ks \<longleftrightarrow> map_of (address_ranges m) k \<noteq> None" for k
    by (simp add: walk_set [OF env_okD(3) [OF assms(1)]] map_of_eq_None_iff)
  have book: "ranges_wf m" "\<And>a. map_of (known m) a \<noteq> None \<longleftrightarrow> ranged m a"
    using assms(2) by (simp_all add: book_wf_def book_upto_def)
  have rs: "\<forall>r \<in> set ?rs. r \<noteq> [] \<and> (\<forall>a \<in> set r. map_of (known m) a \<noteq> None)"
    using ks range_of_wf(3) [OF book(1)] book by (fastforce simp: ranges_wf_def range_of_def ranged_def)
  have all: "a \<in> \<Union> (set ` set ?rs)" if "worthy P time m a" for a
  proof -
    have "ranged m a" using that book(2) [of a] by (auto simp: worthy_def)
    moreover from this have "addr_key (ip a) \<in> set ?ks"
      by (cases "map_of (address_ranges m) (addr_key (ip a))") (simp_all add: ks ranged_def range_of_def)
    ultimately show ?thesis by (auto simp: ranged_def)
  qed
  have "sample_with E P m = sample_ranges E P time m ?rs" using False assms(3) by (simp add: sample_with_def)
  with sample_ranges_spec [OF assms(1) rs, of P time] all show ?thesis by metis
qed

text \<open>The other operations only touch entries of the book, not its keys.\<close>

lemma modify_known_eqs [simp]:
  "address_ranges (modify_known a f m) = address_ranges m" "bans (modify_known a f m) = bans m"
  "am_connected (modify_known a f m) = am_connected m" "am_sources (modify_known a f m) = am_sources m"
  "local_addrs (modify_known a f m) = local_addrs m" "last_idle (modify_known a f m) = last_idle m"
  "am_upstream (modify_known a f m) = am_upstream m" "am_magic (modify_known a f m) = am_magic m"
  "am_outbox (modify_known a f m) = am_outbox m" "last_request (modify_known a f m) = last_request m"
  by (simp_all add: modify_known_def split: option.splits)

lemma map_of_modify_known:
  "map_of (known (modify_known a f m)) b =
     (if b = a then map_option f (map_of (known m) a) else map_of (known m) b)"
  by (simp add: modify_known_def hash_map.get_put split: option.splits)

lemma modify_known_wf [simp]: "book_wf (modify_known a f m) = book_wf m"
  by (rule book_wf_cong) (auto simp: map_of_modify_known)

lemma sampled_wf [simp]: "book_wf (sampled time a m) = book_wf m" "last_idle (sampled time a m) = last_idle m"
  by (simp_all add: sampled_def)

lemma am_fields_wf [simp]:
  "book_wf (am_push outs m) = book_wf m" "book_wf (am_own outs m) = book_wf m"
  "book_wf (m\<lparr>am_sources := ss\<rparr>) = book_wf m" "book_wf (m\<lparr>local_addrs := ss\<rparr>) = book_wf m"
  "book_wf (m\<lparr>am_connected := ss\<rparr>) = book_wf m" "book_wf (m\<lparr>last_request := t\<rparr>) = book_wf m"
  "book_wf (m\<lparr>last_idle := t\<rparr>) = book_wf m" "book_wf (m\<lparr>am_upstream := q\<rparr>) = book_wf m"
  by (rule book_wf_cong; simp add: am_push_def am_own_def)+

lemma mapE_ok: "\<forall>x \<in> set xs. is_ok (f x) \<Longrightarrow> is_ok (mapE f xs)"
  by (induction xs) (auto simp: is_ok_iff)

lemma received_getaddr_ok:
  assumes "env_ok E" and "book_wf m"
  shows "\<exists>addrs. received_getaddr E from m = Inr (am_push [am_message m from (Addr addrs)] m)"
proof -
  note book = book_wfD [OF assms(2)]
  have "is_ok (getaddr_entry E m k)" if "k \<in> set (e_ranges E (map fst (address_ranges m)))" for k
  proof -
    have "map_of (address_ranges m) k \<noteq> None"
      using that by (simp add: walk_set [OF env_okD(3) [OF assms(1)]] map_of_eq_None_iff)
    then have ne: "range_of m k \<noteq> []" using book(1) by (auto simp: ranges_wf_def range_of_def)
    from env_okD(1) [OF assms(1) this] have "ranged m (e_pick E (range_of m k))"
      using range_of_wf(3) [OF book(1)] by (simp add: ranged_def)
    then have "map_of (known m) (e_pick E (range_of m k)) \<noteq> None" using book(2) by simp
    with ne show ?thesis by (auto simp: getaddr_entry_def Let_def)
  qed
  then obtain addrs where "mapE (getaddr_entry E m) (e_ranges E (map fst (address_ranges m))) = Inr addrs"
    using mapE_ok [of "e_ranges E (map fst (address_ranges m))" "getaddr_entry E m"] by (auto simp: is_ok_iff)
  then show ?thesis by (auto simp: received_getaddr_def)
qed

section \<open>Sources of addresses\<close>

text \<open>
  The peer manager asks a source for addresses until it has enough of them or the source has
  none left. \<open>drain\<close> is that loop: it stops when \<open>wanted\<close> says so, or, with \<open>True\<close>, when the source
  is exhausted. Every address a source hands out leaves it with fewer.
\<close>

partial_function (option) drain ::
  "('t \<Rightarrow> bool) \<Rightarrow> ('s \<Rightarrow> 'e + 'x option \<times> 's) \<Rightarrow> ('x \<Rightarrow> 't \<Rightarrow> 't) \<Rightarrow> 's \<Rightarrow> 't \<Rightarrow> ('e + 's \<times> 't \<times> bool) option" where
  "drain wanted smp f s t =
     (if \<not> wanted t then Some (Inr (s, t, False))
      else case smp s of
        Inl e \<Rightarrow> Some (Inl e)
      | Inr (None, s') \<Rightarrow> Some (Inr (s', t, True))
      | Inr (Some x, s') \<Rightarrow> drain wanted smp f s' (f x t))"

locale address_source =
  fixes smp :: "'s \<Rightarrow> 'e + 'x option \<times> 's"
    and good :: "'s \<Rightarrow> bool"
    and left :: "'s \<Rightarrow> nat"
  assumes sample_ok: "good s \<Longrightarrow> \<exists>r s'. smp s = Inr (r, s') \<and> good s'"
    and sample_left: "good s \<Longrightarrow> smp s = Inr (Some x, s') \<Longrightarrow> left s' < left s"
    and sample_none: "good s \<Longrightarrow> smp s = Inr (None, s') \<Longrightarrow> left s' = left s"
begin

lemma drain_returns:
  assumes "good s" and "R s t"
    and "\<And>s t x s'. good s \<Longrightarrow> R s t \<Longrightarrow> wanted t \<Longrightarrow> smp s = Inr (Some x, s') \<Longrightarrow> R s' (f x t)"
    and "\<And>s t s'. good s \<Longrightarrow> R s t \<Longrightarrow> wanted t \<Longrightarrow> smp s = Inr (None, s') \<Longrightarrow> Q s' t"
  shows "\<exists>s' t' b. drain wanted smp f s t = Some (Inr (s', t', b)) \<and> good s' \<and> left s' \<le> left s \<and>
    (if b then Q s' t' else R s' t' \<and> \<not> wanted t')"
  using assms(1,2)
proof (induction "left s" arbitrary: s t rule: less_induct)
  case less
  show ?case
  proof (cases "wanted t")
    case False
    with less.prems show ?thesis by (subst drain.simps) auto
  next
    case True
    from sample_ok [OF less.prems(1)] obtain r s' where s': "smp s = Inr (r, s')" "good s'" by blast
    show ?thesis
    proof (cases r)
      case None
      with True s' less.prems sample_none [of s s'] assms(4) [of s t s'] show ?thesis by (subst drain.simps) auto
    next
      case (Some x)
      have lt: "left s' < left s" using sample_left [of s x s'] s' Some less.prems by simp
      have "R s' (f x t)" using assms(3) [OF less.prems True] s' Some by simp
      from less.hyps [OF lt s'(2) this] obtain s'' t' b where
        IH: "drain wanted smp f s' (f x t) = Some (Inr (s'', t', b))" "good s''" "left s'' \<le> left s'"
          "if b then Q s'' t' else R s'' t' \<and> \<not> wanted t'" by blast
      moreover have "drain wanted smp f s t = Some (Inr (s'', t', b))"
        using True s' Some IH(1) by (subst drain.simps) simp
      ultimately show ?thesis using lt by (meson dual_order.strict_implies_order le_trans)
    qed
  qed
qed

end

definition fresh_addrs :: "address_manager \<Rightarrow> socket_addr set" where
  "fresh_addrs m =
     {a. \<exists>ka time. map_of (known m) a = Some ka \<and> last_idle m = Some time \<and> \<not> recently_sampled time ka}"

definition source_ok :: "addr_env \<Rightarrow> address_manager \<Rightarrow> bool" where
  "source_ok E m \<longleftrightarrow> env_ok E \<and> book_wf m \<and> last_idle m \<noteq> None"

lemma finite_fresh: "finite (fresh_addrs m)"
  by (rule finite_subset [OF _ finite_dom_map_of [of "known m"]]) (auto simp: fresh_addrs_def)

lemma fresh_sampled:
  assumes "last_idle m = Some time"
  shows "fresh_addrs (sampled time a m) = fresh_addrs m - {a}"
  using assms by (auto simp: fresh_addrs_def sampled_def map_of_modify_known recently_sampled_def SAMPLE_TIMEOUT_def
      mins_def secs_def split: if_splits)

lemma sample_with_cases:
  assumes "source_ok E m" and "sample_with E P m = Inr (r, m')"
  obtains (none) "r = None" "m' = m" "\<forall>a time. last_idle m = Some time \<longrightarrow> \<not> worthy P time m a"
  | (some) a ka time where "r = Some (ka_addr ka, ka_source ka)" "m' = sampled time a m" "worthy P time m a"
      "map_of (known m) a = Some ka" "last_idle m = Some time"
proof -
  obtain time where m: "env_ok E" "book_wf m" "last_idle m = Some time" using assms(1) by (auto simp: source_ok_def)
  from sample_with_spec [OF m, of P] show ?thesis
  proof (elim disjE exE conjE)
    fix a ka
    assume "worthy P time m a" "map_of (known m) a = Some ka"
      "sample_with E P m = Inr (Some (ka_addr ka, ka_source ka), sampled time a m)"
    with assms(2) m(3) show ?thesis by (intro some [of ka time a]) simp_all
  next
    assume "\<forall>a. \<not> worthy P time m a" "sample_with E P m = Inr (None, m)"
    with assms(2) m(3) show ?thesis by (intro none) simp_all
  qed
qed

lemma sample_with_ok:
  assumes "source_ok E m"
  shows "\<exists>r m'. sample_with E P m = Inr (r, m') \<and> source_ok E m'"
proof -
  obtain time where m: "env_ok E" "book_wf m" "last_idle m = Some time" using assms by (auto simp: source_ok_def)
  from sample_with_spec [OF m, of P] m show ?thesis by (auto simp: source_ok_def)
qed

lemma sample_with_left:
  assumes "source_ok E m" and "sample_with E P m = Inr (Some x, m')"
  shows "card (fresh_addrs m') < card (fresh_addrs m)"
  using assms
proof (cases rule: sample_with_cases)
  case (some a ka time)
  then have "a \<in> fresh_addrs m" by (auto simp: fresh_addrs_def worthy_def)
  with some show ?thesis using card_Diff1_less [OF finite_fresh [of m], of a] by (simp only: fresh_sampled)
qed simp

interpretation book_source: address_source "sample_with E P" "source_ok E" "\<lambda>m. card (fresh_addrs m)" for E P
proof unfold_locales
  fix s s' x
  assume "source_ok E s"
  then show "\<exists>r s'. sample_with E P s = Inr (r, s') \<and> source_ok E s'" by (rule sample_with_ok)
  assume "sample_with E P s = Inr (Some x, s')"
  with \<open>source_ok E s\<close> show "card (fresh_addrs s') < card (fresh_addrs s)" by (rule sample_with_left)
next
  fix s s'
  assume "source_ok E s" and "sample_with E P s = Inr (None, s')"
  then show "card (fresh_addrs s') = card (fresh_addrs s)" by (cases rule: sample_with_cases) simp_all
qed

end
