(* ===== verification/Peer_Manager.thy ===== *)
theory Peer_Manager
  imports Address_Manager
begin

text \<open>
  The peer manager (\<open>p2p/src/fsm/peermgr.rs\<close>): connections, the handshake and the number of
  outbound peers. It draws addresses from the address manager, which its methods take as a
  second state. Debug assertions are left out, as in a release build. Loops over an address
  source may in principle not end: their result is \<open>None\<close> then.
\<close>

section \<open>State\<close>

definition PROTOCOL_VERSION :: u32 where
  "PROTOCOL_VERSION = 100000"

definition HANDSHAKE_TIMEOUT :: local_duration where
  "HANDSHAKE_TIMEOUT = secs 12"

definition CONNECTION_TIMEOUT :: local_duration where
  "CONNECTION_TIMEOUT = secs 6"

definition IDLE_TIMEOUT :: local_duration where
  "IDLE_TIMEOUT = mins 1"

definition TARGET_OUTBOUND_PEERS :: nat where
  "TARGET_OUTBOUND_PEERS = 8"

definition MAX_INBOUND_PEERS :: nat where
  "MAX_INBOUND_PEERS = 16"

record whitelist =
  wl_addr :: "ip_addr list"
  wl_user_agent :: "string list"

definition whitelist_contains :: "whitelist \<Rightarrow> ip_addr \<Rightarrow> string \<Rightarrow> bool" where
  "whitelist_contains w a agent \<longleftrightarrow> a \<in> set (wl_addr w) \<or> agent \<in> set (wl_user_agent w)"

record peer_config =
  protocol_version :: u32
  cfg_whitelist :: whitelist
  cfg_services :: service_flags
  persistent :: "socket_addr list"
  required_services :: service_flags
  target_outbound_peers :: nat
  max_inbound_peers :: nat
  retry_max_wait :: local_duration
  retry_min_wait :: local_duration
  user_agent :: string

datatype handshake_state = HsVersion local_time | HsYtxidack local_time | HsVerack local_time

record connection =
  conn_addr :: socket_addr
  conn_local :: socket_addr
  conn_link :: link
  conn_since :: local_time

record peer_info =
  pi_services :: service_flags
  pi_user_agent :: string
  pi_time_offset :: time_offset
  pi_relay :: bool
  pi_version :: u32
  pi_persistent :: bool
  pi_wtxidrelay :: bool
  pi_ytxidrelay :: bool
  pi_nonce :: u64
  pi_state :: handshake_state

datatype peer = Connecting local_time | Connected connection "peer_info option"

fun is_negotiated :: "peer_info \<Rightarrow> bool" where
  "is_negotiated p = (case pi_state p of HsVerack _ \<Rightarrow> True | _ \<Rightarrow> False)"

record peer_manager =
  config :: peer_config
  pm_last_idle :: "local_time option"
  peers_storage :: "(socket_addr \<times> peer) list"
  disconnected :: "(socket_addr \<times> local_time option \<times> nat) list"
  pm_network :: network
  pm_upstream :: "p2p_io list"

definition new_peer_manager :: "peer_config \<Rightarrow> network \<Rightarrow> peer_manager" where
  "new_peer_manager cfg net =
     \<lparr>config = cfg, pm_last_idle = None, peers_storage = [], disconnected = [], pm_network = net, pm_upstream = []\<rparr>"

definition pm_push :: "p2p_io list \<Rightarrow> peer_manager \<Rightarrow> peer_manager" where
  "pm_push outs m = m\<lparr>pm_upstream := pm_upstream m @ outs\<rparr>"

definition pm_message :: "p2p_ext \<Rightarrow> peer_manager \<Rightarrow> socket_addr \<Rightarrow> network_message \<Rightarrow> p2p_io" where
  "pm_message A m a msg = Write a \<lparr>rm_magic = network_magic A (pm_network m), rm_payload = msg\<rparr>"

definition set_peer :: "socket_addr \<Rightarrow> peer \<Rightarrow> peer_manager \<Rightarrow> peer_manager" where
  "set_peer a p m = m\<lparr>peers_storage := AList.update a p (peers_storage m)\<rparr>"

section \<open>Connection management\<close>

fun is_connecting_peer :: "peer \<Rightarrow> bool" where
  "is_connecting_peer (Connecting _) = True"
| "is_connecting_peer (Connected _ _) = False"

definition is_inbound :: "peer_manager \<Rightarrow> socket_addr \<Rightarrow> bool" where
  "is_inbound m a =
     (case map_of (peers_storage m) a of Some (Connected conn _) \<Rightarrow> conn_link conn = Inbound | _ \<Rightarrow> False)"

definition is_connecting :: "peer_manager \<Rightarrow> socket_addr \<Rightarrow> bool" where
  "is_connecting m a = (case map_of (peers_storage m) a of None \<Rightarrow> False | Some p \<Rightarrow> is_connecting_peer p)"

definition is_connected :: "peer_manager \<Rightarrow> socket_addr \<Rightarrow> bool" where
  "is_connected m a = (case map_of (peers_storage m) a of None \<Rightarrow> False | Some p \<Rightarrow> \<not> is_connecting_peer p)"

definition is_disconnected :: "peer_manager \<Rightarrow> socket_addr \<Rightarrow> bool" where
  "is_disconnected m a \<longleftrightarrow> \<not> is_connected m a \<and> \<not> is_connecting m a"

text \<open>The iterators over the peers, in the order \<open>it\<close> of the walk.\<close>

definition peers :: "(socket_addr list \<Rightarrow> socket_addr list) \<Rightarrow> peer_manager \<Rightarrow> (peer_info \<times> connection) list" where
  "peers it m =
     List.map_filter (\<lambda>a. case map_of (peers_storage m) a of
        Some (Connected conn (Some p)) \<Rightarrow> Some (p, conn) | _ \<Rightarrow> None) (it (map fst (peers_storage m)))"

definition connecting :: "(socket_addr list \<Rightarrow> socket_addr list) \<Rightarrow> peer_manager \<Rightarrow> socket_addr list" where
  "connecting it m = filter (is_connecting m) (it (map fst (peers_storage m)))"

definition connected :: "(socket_addr list \<Rightarrow> socket_addr list) \<Rightarrow> peer_manager \<Rightarrow> connection list" where
  "connected it m =
     List.map_filter (\<lambda>a. case map_of (peers_storage m) a of
        Some (Connected conn _) \<Rightarrow> Some conn | _ \<Rightarrow> None) (it (map fst (peers_storage m)))"

definition negotiated ::
  "(socket_addr list \<Rightarrow> socket_addr list) \<Rightarrow> link \<Rightarrow> peer_manager \<Rightarrow> (peer_info \<times> connection) list" where
  "negotiated it l m = filter (\<lambda>(p, c). is_negotiated p \<and> conn_link c = l) (peers it m)"

definition connect :: "local_time \<Rightarrow> socket_addr \<Rightarrow> peer_manager \<Rightarrow> bool \<times> peer_manager" where
  "connect now a m =
     (if is_connected m a \<or> is_connecting m a then (True, m)
      else if \<not> is_disconnected m a then (False, m)
      else (True, pm_push [Connect a, SetTimer CONNECTION_TIMEOUT] (set_peer a (Connecting now) m)))"

definition force_disconnect :: "socket_addr \<Rightarrow> disconnect_reason \<Rightarrow> peer_manager \<Rightarrow> peer_manager" where
  "force_disconnect a r m = pm_push [Disconnect a r] m"

definition disconnect :: "socket_addr \<Rightarrow> disconnect_reason \<Rightarrow> peer_manager \<Rightarrow> peer_manager" where
  "disconnect a r m = (if is_connected m a then force_disconnect a r m else m)"

definition delta :: "peer_manager \<Rightarrow> nat" where
  "delta m =
     (let primary = length (negotiated id Outbound m);
          secondary = length (negotiated id Outbound m) - primary;
          conn = length (connected id m) - primary - secondary;
          target = target_outbound_peers (config m);
          unknown = length (connecting id m) + conn;
          total = primary + secondary + unknown;
          maxp = target + target div 2
      in if maxp < total \<or> target < primary + unknown then 0
         else min (maxp - total) (target - (primary + unknown)))"

fun get_dns_seed :: "network \<Rightarrow> string list" where
  "get_dns_seed Bitcoin = []"
| "get_dns_seed Testnet = []"
| "get_dns_seed Regtest = []"
| "get_dns_seed Signet = []"
| "get_dns_seed Mutiny = []"

fun get_port :: "network \<Rightarrow> u16" where
  "get_port Bitcoin = 8333"
| "get_port Testnet = 18333"
| "get_port Regtest = 18444"
| "get_port Signet = 38333"
| "get_port Mutiny = 38332"

definition sample_any ::
  "addr_env \<Rightarrow> bool \<Rightarrow> service_flags \<Rightarrow> address_manager \<Rightarrow> panic + (net_address \<times> address_source) option \<times> address_manager" where
  "sample_any E need services am =
     (if need then
        bindE (sample E services am) (\<lambda>(r, am). if r = None then sample E NO_SERVICES am else Inr (r, am))
      else Inr (None, am))"

definition connect_sampled ::
  "p2p_ext \<Rightarrow> local_time \<Rightarrow> net_address \<times> address_source \<Rightarrow> socket_addr list \<times> peer_manager \<Rightarrow> socket_addr list \<times> peer_manager" where
  "connect_sampled A now x cm =
     (case x of (addr, src) \<Rightarrow> case cm of (conns, m) \<Rightarrow>
        (case x_socket_addr A addr of
           None \<Rightarrow> (conns, m)
         | Some a \<Rightarrow>
             (case connect now a m of
                (True, m) \<Rightarrow> (hs_insert a conns, pm_push [Event (PeerEv (ConnectingEvent a src (na_services addr)))] m)
              | (False, m) \<Rightarrow> (conns, m))))"

definition dns_addresses :: "addr_env \<Rightarrow> p2p_ext \<Rightarrow> peer_manager \<Rightarrow> address_manager \<Rightarrow> panic + address_manager" where
  "dns_addresses E A m am =
     (if get_dns_seed (pm_network m) = [] then Inr am
      else case x_lookup_ip A (e_seed E (get_dns_seed (pm_network m))) of
        None \<Rightarrow> Inr am
      | Some ips \<Rightarrow> insert_addresses E A
          (map (\<lambda>i. (of_nat (e_now E div 1000), x_address_new A (SocketAddr i (get_port (pm_network m))) NO_SERVICES)) ips)
          Dns am)"

definition maintain_connections ::
  "addr_env \<Rightarrow> p2p_ext \<Rightarrow> local_time \<Rightarrow> peer_manager \<Rightarrow> address_manager \<Rightarrow> (panic + peer_manager \<times> address_manager) option" where
  "maintain_connections E A now m am =
     (if persistent (config m) \<noteq> [] then Some (Inr (m, am))
      else
        let d = delta m;
            need = length (negotiated id Outbound m) < target_outbound_peers (config m)
        in case drain (\<lambda>(conns, _). length conns < d) (sample_any E need (required_services (config m)))
                  (connect_sampled A now) am ([], m) of
             None \<Rightarrow> None
           | Some (Inl e) \<Rightarrow> Some (Inl e)
           | Some (Inr (am, (_, m), exhausted)) \<Rightarrow>
               Some (if exhausted then bindE (dns_addresses E A m am) (\<lambda>am. Inr (m, am)) else Inr (m, am)))"

definition idle_peers :: "(socket_addr list \<Rightarrow> socket_addr list) \<Rightarrow> local_time \<Rightarrow> peer_manager \<Rightarrow> socket_addr list" where
  "idle_peers it now m =
     filter (\<lambda>a. case map_of (peers_storage m) a of
         Some (Connecting time) \<Rightarrow> CONNECTION_TIMEOUT \<le> now - time | _ \<Rightarrow> False)
       (it (map fst (peers_storage m)))"

section \<open>Events\<close>

definition pm_initialize ::
  "addr_env \<Rightarrow> p2p_ext \<Rightarrow> local_time \<Rightarrow> peer_manager \<Rightarrow> address_manager \<Rightarrow> (panic + peer_manager \<times> address_manager) option" where
  "pm_initialize E A now m am =
     (let m = foldl (\<lambda>m a. snd (connect now a m)) m (persistent (config m));
          m = pm_push [SetTimer IDLE_TIMEOUT] m
      in maintain_connections E A now m am)"

definition retry_delay :: "peer_config \<Rightarrow> nat \<Rightarrow> local_duration" where
  "retry_delay cfg attempts =
     max (retry_min_wait cfg) (min (retry_max_wait cfg)
       (secs (min (2 ^ (attempts mod 2 ^ 32)) (2 ^ 64 - 1))))"

definition persistent_disconnected :: "socket_addr \<Rightarrow> local_time \<Rightarrow> peer_manager \<Rightarrow> peer_manager" where
  "persistent_disconnected a now m =
     (let attempts = (case map_of (disconnected m) a of None \<Rightarrow> 0 | Some (_, n) \<Rightarrow> n);
          delay = retry_delay (config m) attempts
      in pm_push [SetTimer delay]
           (m\<lparr>disconnected := AList.update a (Some (now + delay), attempts + 1) (disconnected m)\<rparr>))"

definition retry_due :: "local_time \<Rightarrow> local_time option \<times> nat \<Rightarrow> bool" where
  "retry_due now r = (case fst r of None \<Rightarrow> False | Some t \<Rightarrow> t \<le> now)"

definition maintain_persistent ::
  "(socket_addr list \<Rightarrow> socket_addr list) \<Rightarrow> local_time \<Rightarrow> peer_manager \<Rightarrow> peer_manager" where
  "maintain_persistent it now m =
     (let reconnect = filter (\<lambda>a. case map_of (disconnected m) a of None \<Rightarrow> False | Some r \<Rightarrow> retry_due now r)
            (it (map fst (disconnected m)));
          m = m\<lparr>disconnected := map (\<lambda>(a, r). (a, if retry_due now r then (None, snd r) else r)) (disconnected m)\<rparr>
      in foldl (\<lambda>m a. snd (connect now a m)) m reconnect)"

definition whitelist_peer :: "socket_addr \<Rightarrow> peer_manager \<Rightarrow> peer_manager" where
  "whitelist_peer a m =
     m\<lparr>config := (config m)\<lparr>cfg_whitelist := (cfg_whitelist (config m))
        \<lparr>wl_addr := hs_insert (ip a) (wl_addr (cfg_whitelist (config m)))\<rparr>\<rparr>\<rparr>"

definition newcome_body :: "p2p_ext \<Rightarrow> local_time \<Rightarrow> net_address \<times> address_source \<Rightarrow> peer_manager \<Rightarrow> peer_manager" where
  "newcome_body A now x m =
     (case x_socket_addr A (fst x) of
        None \<Rightarrow> m
      | Some a \<Rightarrow> snd (connect now a (whitelist_peer a m)))"

fun newcome_source :: "known_address \<Rightarrow> bool" where
  "newcome_source ka = (case ka_source ka of SourcePeer _ \<Rightarrow> True | Imported \<Rightarrow> True | Dns \<Rightarrow> True)"

definition maintain_newcome ::
  "addr_env \<Rightarrow> p2p_ext \<Rightarrow> local_time \<Rightarrow> peer_manager \<Rightarrow> address_manager \<Rightarrow> (panic + peer_manager \<times> address_manager) option" where
  "maintain_newcome E A now m am =
     (case drain (\<lambda>_. True) (sample_with E newcome_source) (newcome_body A now) am m of
        None \<Rightarrow> None
      | Some (Inl e) \<Rightarrow> Some (Inl e)
      | Some (Inr (am, m, _)) \<Rightarrow> Some (Inr (m, am)))"

definition version :: "p2p_ext \<Rightarrow> peer_manager \<Rightarrow> socket_addr \<Rightarrow> socket_addr \<Rightarrow> u64 \<Rightarrow> version_message" where
  "version A m a local nonce =
     \<lparr>vm_version = protocol_version (config m), vm_services = cfg_services (config m), vm_timestamp = 0,
      vm_receiver = x_address_new A a NO_SERVICES, vm_sender = x_address_new A local (cfg_services (config m)),
      vm_nonce = nonce, vm_user_agent = user_agent (config m), vm_start_height = 0, vm_relay = False\<rparr>"

definition pm_peer_connected ::
  "addr_env \<Rightarrow> p2p_ext \<Rightarrow> local_time \<Rightarrow> socket_addr \<Rightarrow> socket_addr \<Rightarrow> link \<Rightarrow> peer_manager \<Rightarrow> bool \<times> peer_manager" where
  "pm_peer_connected E A now a local l m =
     (let m = set_peer a (Connected \<lparr>conn_addr = a, conn_local = local, conn_link = l, conn_since = now\<rparr> None) m;
          m = m\<lparr>disconnected := AList.delete a (disconnected m)\<rparr>;
          m = (case l of
                 Inbound \<Rightarrow>
                   if max_inbound_peers (config m) \<le> length (filter (\<lambda>c. conn_link c = Inbound) (connected id m))
                   then force_disconnect a ConnectionLimit m else m
               | Outbound \<Rightarrow> pm_push [pm_message A m a (Version (version A m a local (e_nonce E a)))] m)
      in (False, pm_push [SetTimer HANDSHAKE_TIMEOUT, Event (PeerEv (ConnectedEvent a l))] m))"

definition pm_peer_disconnected ::
  "addr_env \<Rightarrow> p2p_ext \<Rightarrow> local_time \<Rightarrow> socket_addr \<Rightarrow> net_disconnect \<Rightarrow> peer_manager \<Rightarrow> address_manager \<Rightarrow>
   (panic + peer_manager \<times> address_manager) option" where
  "pm_peer_disconnected E A now a reason m am =
     (let m = (if is_connected m a then pm_push [Event (PeerEv (DisconnectedEvent a reason))] m
               else if is_connecting m a then
                 (case reason of ConnectionError err \<Rightarrow> pm_push [Event (PeerEv (ConnectionFailed a err))] m | _ \<Rightarrow> m)
               else m);
          m = m\<lparr>peers_storage := AList.delete a (peers_storage m)\<rparr>
      in if a \<in> set (persistent (config m)) then Some (Inr (persistent_disconnected a now m, am))
         else maintain_connections E A now m am)"

definition received_wtxidrelay :: "socket_addr \<Rightarrow> peer_manager \<Rightarrow> peer_manager" where
  "received_wtxidrelay a m =
     (case map_of (peers_storage m) a of
        Some (Connected conn (Some p)) \<Rightarrow>
          (case pi_state p of
             HsVersion _ \<Rightarrow> set_peer a (Connected conn (Some (p\<lparr>pi_wtxidrelay := True\<rparr>))) m
           | _ \<Rightarrow> disconnect a (PeerMisbehaving ''`wtxidrelay` must be received before `verack`'') m)
      | _ \<Rightarrow> m)"

definition received_ytxidrelay :: "p2p_ext \<Rightarrow> socket_addr \<Rightarrow> peer_manager \<Rightarrow> peer_manager" where
  "received_ytxidrelay A a m =
     (case map_of (peers_storage m) a of
        Some (Connected conn (Some p)) \<Rightarrow>
          (case pi_state p of
             HsVersion _ \<Rightarrow>
               pm_push [pm_message A m a Ytxidack, pm_message A m a Verack]
                 (set_peer a (Connected conn (Some (p\<lparr>pi_ytxidrelay := True\<rparr>))) m)
           | _ \<Rightarrow> disconnect a (PeerMisbehaving ''`ytxidrelay` must be received before `verack`'') m)
      | _ \<Rightarrow> m)"

definition handle_version ::
  "p2p_ext \<Rightarrow> local_time \<Rightarrow> socket_addr \<Rightarrow> version_message \<Rightarrow> peer_manager \<Rightarrow> address_manager \<Rightarrow>
   (disconnect_reason + unit) \<times> peer_manager \<times> address_manager" where
  "handle_version A now a msg m am =
     (case map_of (peers_storage m) a of
        Some (Connected conn _) \<Rightarrow>
          let m = pm_push [Event (PeerEv (VersionReceived a msg))] m;
              outbound = (conn_link conn = Outbound);
              trusted = (whitelist_contains (cfg_whitelist (config m)) (ip a) (vm_user_agent msg) \<or> is_local (ip a))
          in if vm_version msg < PROTOCOL_VERSION then (Inl (PeerProtocolVersion (vm_version msg)), m, am)
             else if outbound \<and> \<not> has_services (vm_services msg) (required_services (config m)) \<and> \<not> trusted
             then (Inl (PeerServices (vm_services msg)), m, am)
             else if list_ex (\<lambda>(p, c). conn_link c = Outbound \<and> pi_nonce p = vm_nonce msg) (peers id m)
             then (Inl SelfConnection, m, am)
             else if outbound \<and> target_outbound_peers (config m) \<le> length (negotiated id Outbound m)
             then (Inl ConnectionLimit, m, am)
             else
               let am = (case x_socket_addr A (vm_receiver msg) of
                           None \<Rightarrow> am | Some us \<Rightarrow> record_local_address us am);
                   c = conn_addr conn;
                   hello = [pm_message A m c WtxidRelay, pm_message A m c YtxidRelay, SetTimer HANDSHAKE_TIMEOUT];
                   m = (case conn_link conn of
                          Inbound \<Rightarrow> pm_push (pm_message A m c (Version (version A m c (conn_local conn) (vm_nonce msg))) # hello) m
                        | Outbound \<Rightarrow> pm_push hello m);
                   info = \<lparr>pi_services = vm_services msg, pi_user_agent = vm_user_agent msg,
                     pi_time_offset = vm_timestamp msg, pi_relay = vm_relay msg,
                     pi_version = min (protocol_version (config m)) (vm_version msg),
                     pi_persistent = (c \<in> set (persistent (config m))), pi_wtxidrelay = False, pi_ytxidrelay = True,
                     pi_nonce = vm_nonce msg, pi_state = HsVersion now\<rparr>
               in (Inr (), set_peer c (Connected conn (Some info)) m, am)
      | _ \<Rightarrow> (Inr (), m, am))"

definition received_version ::
  "p2p_ext \<Rightarrow> local_time \<Rightarrow> socket_addr \<Rightarrow> version_message \<Rightarrow> peer_manager \<Rightarrow> address_manager \<Rightarrow> peer_manager \<times> address_manager" where
  "received_version A now a msg m am =
     (case handle_version A now a msg m am of
        (Inl reason, m, am) \<Rightarrow> (force_disconnect a reason m, am)
      | (Inr _, m, am) \<Rightarrow> (m, am))"

definition received_ytxidack :: "socket_addr \<Rightarrow> local_time \<Rightarrow> peer_manager \<Rightarrow> peer_manager" where
  "received_ytxidack a time m =
     (case map_of (peers_storage m) a of
        Some (Connected conn (Some p)) \<Rightarrow>
          (case pi_state p of
             HsVersion _ \<Rightarrow> set_peer a (Connected conn (Some (p\<lparr>pi_state := HsYtxidack time\<rparr>))) m
           | _ \<Rightarrow> force_disconnect a (PeerMisbehaving ''unexpected `ytxidack` message received'') m)
      | _ \<Rightarrow> m)"

definition received_verack :: "socket_addr \<Rightarrow> local_time \<Rightarrow> peer_manager \<Rightarrow> (peer_info \<times> connection) option \<times> peer_manager" where
  "received_verack a time m =
     (case map_of (peers_storage m) a of
        Some (Connected conn (Some p)) \<Rightarrow>
          (case pi_state p of
             HsYtxidack _ \<Rightarrow>
               let q = p\<lparr>pi_state := HsVerack time\<rparr>;
                   m = pm_push [Event (PeerEv (Negotiated a (conn_link conn) (pi_services p) (pi_user_agent p) (pi_version p)))] m
               in (Some (q, conn), set_peer a (Connected conn (Some q)) m)
           | _ \<Rightarrow> (None, force_disconnect a (PeerMisbehaving ''unexpected `verack` message received'') m))
      | _ \<Rightarrow> (None, m))"

text \<open>
  \<open>held a\<close>: another component holds a reference to the socket of \<open>a\<close>.
\<close>

definition timed_out ::
  "(socket_addr list \<Rightarrow> socket_addr list) \<Rightarrow> local_time \<Rightarrow> peer_manager \<Rightarrow> (socket_addr \<times> string) list" where
  "timed_out it now m =
     map (\<lambda>a. (a, ''connection'')) (idle_peers it now m) @
     map (\<lambda>(_, c). (conn_addr c, ''handshake''))
       (filter (\<lambda>(p, _). case pi_state p of HsVersion s \<Rightarrow> HANDSHAKE_TIMEOUT \<le> now - s | _ \<Rightarrow> False) (peers it m)) @
     map (\<lambda>c. (conn_addr c, ''handshake''))
       (filter (\<lambda>c. HANDSHAKE_TIMEOUT \<le> now - conn_since c)
         (List.map_filter (\<lambda>a. case map_of (peers_storage m) a of
            Some (Connected conn None) \<Rightarrow> Some conn | _ \<Rightarrow> None) (it (map fst (peers_storage m)))))"

definition pm_received_wake ::
  "addr_env \<Rightarrow> p2p_ext \<Rightarrow> (socket_addr \<Rightarrow> bool) \<Rightarrow> local_time \<Rightarrow> peer_manager \<Rightarrow> address_manager \<Rightarrow>
   (panic + peer_manager \<times> address_manager) option" where
  "pm_received_wake E A held now m am =
     (let m = pm_push (map (\<lambda>(a, r). Disconnect a (PeerTimeout r)) (timed_out (e_ips E) now m)) m;
          dropped = map (\<lambda>(_, c). conn_addr c) (filter (\<lambda>(_, c). \<not> held (conn_addr c)) (negotiated (e_ips E) Outbound m));
          m = pm_push (map (\<lambda>a. Disconnect a PeerDropped) dropped) m;
          rest = (\<lambda>(m, am). maintain_newcome E A now (maintain_persistent (e_ips E) now m) am)
      in if IDLE_TIMEOUT \<le> since (pm_last_idle m) now then
           (case maintain_connections E A now m am of
              None \<Rightarrow> None
            | Some (Inl e) \<Rightarrow> Some (Inl e)
            | Some (Inr (m, am)) \<Rightarrow> rest ((pm_push [SetTimer IDLE_TIMEOUT] m)\<lparr>pm_last_idle := Some now\<rparr>, am))
         else rest (m, am))"

section \<open>Sources of outbound peers\<close>

lemma sample_any_ok:
  assumes "source_ok E am"
  shows "\<exists>r am'. sample_any E need services am = Inr (r, am') \<and> source_ok E am'"
proof -
  from sample_with_ok [OF assms] obtain r am' where
    1: "sample E services am = Inr (r, am')" "source_ok E am'" unfolding sample_def by blast
  from sample_with_ok [OF 1(2)] obtain r' am'' where
    2: "sample E NO_SERVICES am' = Inr (r', am'')" "source_ok E am''" unfolding sample_def by blast
  from 1 2 assms show ?thesis by (simp add: sample_any_def)
qed

lemma sample_left:
  assumes "source_ok E am" and "sample E services am = Inr (r, am')"
  shows "case r of None \<Rightarrow> am' = am | Some x \<Rightarrow> card (fresh_addrs am') < card (fresh_addrs am)"
proof (cases r)
  case None
  with assms show ?thesis unfolding sample_def by (auto elim: sample_with_cases)
next
  case (Some x)
  with assms sample_with_left [of E am] show ?thesis by (simp add: sample_def)
qed

lemma sample_any_left:
  assumes "source_ok E am" and "sample_any E need services am = Inr (r, am')"
  shows "case r of None \<Rightarrow> am' = am | Some x \<Rightarrow> card (fresh_addrs am') < card (fresh_addrs am)"
proof (cases need)
  case True
  with assms(2) obtain r1 am1 where 1: "sample E services am = Inr (r1, am1)"
    and 2: "(if r1 = None then sample E NO_SERVICES am1 else Inr (r1, am1)) = Inr (r, am')"
    by (auto simp: sample_any_def result_simps)
  note left1 = sample_left [OF assms(1) 1]
  show ?thesis
  proof (cases r1)
    case None
    with left1 2 have "sample E NO_SERVICES am = Inr (r, am')" by simp
    from sample_left [OF assms(1) this] show ?thesis .
  next
    case (Some x)
    with left1 2 show ?thesis by auto
  qed
qed (use assms(2) in \<open>auto simp: sample_any_def\<close>)

interpretation any_source: address_source "sample_any E need services" "source_ok E" "\<lambda>m. card (fresh_addrs m)" for E need services
proof unfold_locales
  fix s s' x
  assume s: "source_ok E s"
  then show "\<exists>r s'. sample_any E need services s = Inr (r, s') \<and> source_ok E s'" by (rule sample_any_ok)
  assume "sample_any E need services s = Inr (Some x, s')"
  from sample_any_left [OF s this] show "card (fresh_addrs s') < card (fresh_addrs s)" by simp
next
  fix s s'
  assume "source_ok E s" and "sample_any E need services s = Inr (None, s')"
  from sample_any_left [OF this] show "card (fresh_addrs s') = card (fresh_addrs s)" by simp
qed

text \<open>
  A weight for the outputs, such that an address that is drawn costs no more than five, and a
  call to disconnect a peer can add no more than two besides.
\<close>

fun io_weight :: "p2p_io \<Rightarrow> nat" where
  "io_weight (Connect _) = 3"
| "io_weight (Disconnect _ _) = 3"
| "io_weight _ = 1"

definition pm_weight :: "peer_manager \<Rightarrow> nat" where
  "pm_weight m = sum_list (map io_weight (pm_upstream m))"

definition peers_distinct :: "peer_manager \<Rightarrow> bool" where
  "peers_distinct m \<longleftrightarrow> distinct (map fst (peers_storage m))"

definition keeps_peers :: "peer_manager \<Rightarrow> peer_manager \<Rightarrow> bool" where
  "keeps_peers m m' \<longleftrightarrow> (\<forall>a p. map_of (peers_storage m) a = Some p \<longrightarrow> map_of (peers_storage m') a = Some p) \<and>
     (\<forall>a c q. map_of (peers_storage m') a = Some (Connected c q) \<longrightarrow> map_of (peers_storage m) a = Some (Connected c q))"

lemma pm_push_eqs [simp]:
  "keeps_peers m (pm_push es m') = keeps_peers m m'" "keeps_peers (pm_push es m) m' = keeps_peers m m'"
  "peers_distinct (pm_push es m) = peers_distinct m" "config (pm_push es m) = config m"
  "pm_network (pm_push es m) = pm_network m" "peers_storage (pm_push es m) = peers_storage m"
  "disconnected (pm_push es m) = disconnected m" "pm_last_idle (pm_push es m) = pm_last_idle m"
  "pm_weight (pm_push es m) = pm_weight m + sum_list (map io_weight es)"
  by (simp_all add: keeps_peers_def peers_distinct_def pm_push_def pm_weight_def)

lemma keeps_peers_trans: "keeps_peers m1 m2 \<Longrightarrow> keeps_peers m2 m3 \<Longrightarrow> keeps_peers m1 m3"
  unfolding keeps_peers_def by blast

lemma keeps_peers_refl [simp]: "keeps_peers m m"
  unfolding keeps_peers_def by blast

lemma length_update_new: "map_of m k = None \<Longrightarrow> length (AList.update k v m) = Suc (length m)"
  by (induction m) (auto split: if_splits)

lemma connect_eq:
  "connect now a m =
     (True, if map_of (peers_storage m) a \<noteq> None then m
            else pm_push [Connect a, SetTimer CONNECTION_TIMEOUT] (set_peer a (Connecting now) m))"
  by (auto simp: connect_def is_connected_def is_connecting_def is_disconnected_def split: option.splits)

lemma connect_spec:
  assumes "connect now a m = (ok, m')"
  shows "ok" "peers_distinct m \<Longrightarrow> peers_distinct m'" "keeps_peers m m'" "config m' = config m" "pm_network m' = pm_network m"
    "map_of (peers_storage m') a \<noteq> None" "pm_weight m' \<le> pm_weight m + 4"
    "length (peers_storage m') = (if map_of (peers_storage m) a = None then Suc (length (peers_storage m)) else length (peers_storage m))"
proof -
  have old: "ok \<and> m' = m" if "map_of (peers_storage m) a \<noteq> None" using assms that by (simp add: connect_eq)
  have new: "ok \<and> m' = pm_push [Connect a, SetTimer CONNECTION_TIMEOUT] (set_peer a (Connecting now) m)"
    if "map_of (peers_storage m) a = None" using assms that by (simp add: connect_eq)
  show "ok" "config m' = config m" "pm_network m' = pm_network m" "pm_weight m' \<le> pm_weight m + 4"
    "map_of (peers_storage m') a \<noteq> None" "keeps_peers m m'"
    "length (peers_storage m') = (if map_of (peers_storage m) a = None then Suc (length (peers_storage m)) else length (peers_storage m))"
    using old new
    by (cases "map_of (peers_storage m) a = None";
        simp add: set_peer_def pm_push_def pm_weight_def hash_map.get_put length_update_new keeps_peers_def)+
  show "peers_distinct m'" if "peers_distinct m"
    using old new that by (cases "map_of (peers_storage m) a = None") (simp_all add: peers_distinct_def set_peer_def pm_push_def distinct_update)
qed

lemma connect_sampled_spec:
  assumes "connect_sampled A now x (conns, m) = (conns', m')" and "peers_distinct m"
    and "\<forall>a \<in> set conns. map_of (peers_storage m) a \<noteq> None"
  shows "peers_distinct m'" "keeps_peers m m'" "config m' = config m" "pm_network m' = pm_network m"
    "\<forall>a \<in> set conns'. map_of (peers_storage m') a \<noteq> None" "pm_weight m' \<le> pm_weight m + 5"
    "length (peers_storage m') + length conns \<le> length (peers_storage m) + length conns'"
proof -
  obtain addr src where x: "x = (addr, src)" by (cases x)
  consider "x_socket_addr A addr = None" "conns' = conns" "m' = m"
    | a m1 where "x_socket_addr A addr = Some a" "connect now a m = (True, m1)" "conns' = hs_insert a conns"
        "m' = pm_push [Event (PeerEv (ConnectingEvent a src (na_services addr)))] m1"
  proof (cases "x_socket_addr A addr")
    case None
    with assms(1) that(1) show ?thesis by (simp add: connect_sampled_def x)
  next
    case (Some a)
    obtain ok m1 where c: "connect now a m = (ok, m1)" by (cases "connect now a m")
    with connect_spec(1) [OF c] Some assms(1) that(2) show ?thesis by (simp add: connect_sampled_def x)
  qed
  then have "peers_distinct m' \<and> keeps_peers m m' \<and> config m' = config m \<and> pm_network m' = pm_network m \<and>
    (\<forall>a \<in> set conns'. map_of (peers_storage m') a \<noteq> None) \<and> pm_weight m' \<le> pm_weight m + 5 \<and>
    length (peers_storage m') + length conns \<le> length (peers_storage m) + length conns'"
  proof cases
    case 2
    note c = connect_spec [OF 2(2)]
    have "length (peers_storage m1) + length conns \<le> length (peers_storage m) + length (hs_insert a conns)"
      using assms(3) by (auto simp: c(8) hs_insert_def)
    moreover have "map_of (peers_storage m1) b \<noteq> None" if "b \<in> set (hs_insert a conns)" for b
    proof (cases "b = a")
      case False
      with that assms(3) obtain p where "map_of (peers_storage m) b = Some p" by auto
      with c(3) show ?thesis unfolding keeps_peers_def by blast
    qed (use c(6) in simp)
    ultimately show ?thesis using c(2-5,7) 2 assms(2) by simp
  qed (use assms(2,3) in simp)
  then show "peers_distinct m'" "keeps_peers m m'" "config m' = config m" "pm_network m' = pm_network m"
    "\<forall>a \<in> set conns'. map_of (peers_storage m') a \<noteq> None" "pm_weight m' \<le> pm_weight m + 5"
    "length (peers_storage m') + length conns \<le> length (peers_storage m) + length conns'" by simp_all
qed

text \<open>
  The negotiated outbound peers are among the connected ones, so the subtractions of \<open>delta\<close>
  do not underflow, and there is room for \<open>delta\<close> more peers.
\<close>

lemma length_map_filter_mono:
  assumes "\<And>a x. f a = Some x \<Longrightarrow> \<exists>y. g a = Some y"
  shows "length (List.map_filter f as) \<le> length (List.map_filter g as)"
proof (induction as)
  case (Cons a as)
  with assms [of a] show ?case by (cases "f a"; cases "g a") (auto simp: map_filter_simps)
qed (simp add: map_filter_simps)

lemma negotiated_le_connected: "length (negotiated id l m) \<le> length (connected id m)"
proof -
  have "length (peers id m) \<le> length (connected id m)"
    unfolding peers_def connected_def
    by (rule length_map_filter_mono) (auto split: option.splits peer.splits)
  moreover have "length (negotiated id l m) \<le> length (peers id m)" by (simp add: negotiated_def)
  ultimately show ?thesis by simp
qed

lemma peers_counted:
  assumes "peers_distinct m"
  shows "length (connecting id m) + length (connected id m) = length (peers_storage m)"
proof -
  have "length (filter (is_connecting m) as) + length (List.map_filter (\<lambda>a. case map_of (peers_storage m) a of
        Some (Connected conn _) \<Rightarrow> Some conn | _ \<Rightarrow> None) as) = length as"
    if "\<forall>a \<in> set as. map_of (peers_storage m) a \<noteq> None" for as
    using that by (induction as) (auto simp: map_filter_simps is_connecting_def split: option.splits peer.splits)
  from this [of "map fst (peers_storage m)"] show ?thesis
    by (simp add: connecting_def connected_def map_of_eq_None_iff)
qed

lemma delta_room:
  assumes "peers_distinct m"
  shows "length (peers_storage m) + delta m \<le> max (length (peers_storage m)) (target_outbound_peers (config m))"
  using peers_counted [OF assms] negotiated_le_connected [of Outbound m]
  by (simp add: delta_def Let_def)

lemma dns_addresses_eq: "dns_addresses E A m am = Inr am"
  by (cases "pm_network m") (simp_all add: dns_addresses_def)

lemma maintain_connections_returns:
  assumes "source_ok E am" and "peers_distinct m"
  shows "\<exists>m' am'. maintain_connections E A now m am = Some (Inr (m', am')) \<and> source_ok E am' \<and>
    peers_distinct m' \<and> keeps_peers m m' \<and> config m' = config m \<and> pm_network m' = pm_network m \<and>
    pm_weight m' + 5 * card (fresh_addrs am') \<le> pm_weight m + 5 * card (fresh_addrs am) \<and>
    length (peers_storage m') \<le> max (length (peers_storage m)) (target_outbound_peers (config m))"
proof (cases "persistent (config m) = []")
  case False
  with assms show ?thesis by (auto simp: maintain_connections_def)
next
  case True
  let ?need = "length (negotiated id Outbound m) < target_outbound_peers (config m)" and ?sv = "required_services (config m)"
  let ?R = "\<lambda>am' (conns, m'). peers_distinct m' \<and> keeps_peers m m' \<and> config m' = config m \<and> pm_network m' = pm_network m \<and>
    (\<forall>a \<in> set conns. map_of (peers_storage m') a \<noteq> None) \<and>
    pm_weight m' + 5 * card (fresh_addrs am') \<le> pm_weight m + 5 * card (fresh_addrs am) \<and>
    length (peers_storage m') \<le> length (peers_storage m) + length conns \<and> length conns \<le> delta m"
  have step: "?R am2 (connect_sampled A now x t)"
    if "source_ok E am1" "?R am1 t" "case t of (conns, _) \<Rightarrow> length conns < delta m" "sample_any E ?need ?sv am1 = Inr (Some x, am2)"
    for am1 am2 x t
  proof -
    obtain conns m1 where t: "t = (conns, m1)" by (cases t)
    obtain conns' m2 where c: "connect_sampled A now x (conns, m1) = (conns', m2)" by (cases "connect_sampled A now x (conns, m1)")
    have "length conns' \<le> Suc (length conns)"
      using c by (auto simp: connect_sampled_def hs_insert_def split: prod.splits option.splits bool.splits)
    moreover have "card (fresh_addrs am2) < card (fresh_addrs am1)"
      using any_source.sample_left that(1,4) by blast
    ultimately show ?thesis
      using that(2,3) connect_sampled_spec [OF c] keeps_peers_trans [of m m1 m2] by (simp add: t c)
  qed
  have none: "?R am2 t" if "source_ok E am1" "?R am1 t" "sample_any E ?need ?sv am1 = Inr (None, am2)" for am1 am2 t
    using sample_any_left [OF that(1,3)] that(2) by simp
  have init: "?R am ([], m)" using assms(2) by simp
  have "\<exists>am' t b. drain (\<lambda>(conns, _). length conns < delta m) (sample_any E ?need ?sv) (connect_sampled A now) am ([], m) = Some (Inr (am', t, b)) \<and>
      source_ok E am' \<and> card (fresh_addrs am') \<le> card (fresh_addrs am) \<and>
      (if b then ?R am' t else ?R am' t \<and> \<not> (case t of (conns, _) \<Rightarrow> length conns < delta m))"
    by (rule any_source.drain_returns [where R = ?R, OF assms(1) init]) (rule step none; assumption)+
  then obtain am' conns m' b where
    d: "drain (\<lambda>(conns, _). length conns < delta m) (sample_any E ?need ?sv) (connect_sampled A now) am ([], m) = Some (Inr (am', (conns, m'), b))"
    and am': "source_ok E am'" and R: "?R am' (conns, m')"
    by (force split: if_splits)
  have "maintain_connections E A now m am = Some (Inr (m', am'))"
    using True d by (simp add: maintain_connections_def dns_addresses_eq Let_def)
  moreover have "length (peers_storage m') \<le> max (length (peers_storage m)) (target_outbound_peers (config m))"
    using R delta_room [OF assms(2)] by simp
  ultimately show ?thesis using am' R by blast
qed

text \<open>The peers that were heard of are all dialled, whatever their number.\<close>

definition dialled :: "p2p_ext \<Rightarrow> peer_manager \<Rightarrow> known_address \<Rightarrow> bool" where
  "dialled A m ka \<longleftrightarrow> (\<forall>b. x_socket_addr A (ka_addr ka) = Some b \<longrightarrow> map_of (peers_storage m) b \<noteq> None)"

lemma whitelist_peer_eqs [simp]:
  "keeps_peers m (whitelist_peer a m') = keeps_peers m m'" "keeps_peers (whitelist_peer a m) m' = keeps_peers m m'"
  "peers_distinct (whitelist_peer a m) = peers_distinct m" "persistent (config (whitelist_peer a m)) = persistent (config m)"
  "pm_weight (whitelist_peer a m) = pm_weight m" "peers_storage (whitelist_peer a m) = peers_storage m"
  "pm_network (whitelist_peer a m) = pm_network m"
  by (simp_all add: whitelist_peer_def keeps_peers_def peers_distinct_def pm_weight_def)

lemma newcome_body_spec:
  assumes "peers_distinct m"
  shows "peers_distinct (newcome_body A now x m)" "keeps_peers m (newcome_body A now x m)"
    "persistent (config (newcome_body A now x m)) = persistent (config m)"
    "x_socket_addr A (fst x) = Some b \<Longrightarrow> map_of (peers_storage (newcome_body A now x m)) b \<noteq> None"
proof -
  have "peers_distinct (newcome_body A now x m) \<and> keeps_peers m (newcome_body A now x m) \<and>
    persistent (config (newcome_body A now x m)) = persistent (config m) \<and>
    (\<forall>b. x_socket_addr A (fst x) = Some b \<longrightarrow> map_of (peers_storage (newcome_body A now x m)) b \<noteq> None)"
  proof (cases "x_socket_addr A (fst x)")
    case None
    with assms show ?thesis by (simp add: newcome_body_def)
  next
    case (Some a)
    obtain ok m1 where c: "connect now a (whitelist_peer a m) = (ok, m1)" by (cases "connect now a (whitelist_peer a m)")
    from connect_spec [OF c] Some c assms show ?thesis by (simp add: newcome_body_def)
  qed
  then show "peers_distinct (newcome_body A now x m)" "keeps_peers m (newcome_body A now x m)"
    "persistent (config (newcome_body A now x m)) = persistent (config m)"
    "x_socket_addr A (fst x) = Some b \<Longrightarrow> map_of (peers_storage (newcome_body A now x m)) b \<noteq> None" by simp_all
qed

lemma dialled_keeps: "dialled A m ka \<Longrightarrow> keeps_peers m m' \<Longrightarrow> dialled A m' ka"
  unfolding dialled_def keeps_peers_def by (metis not_None_eq)

lemma maintain_newcome_returns:
  assumes "source_ok E am" and "peers_distinct m"
  shows "\<exists>m' am'. maintain_newcome E A now m am = Some (Inr (m', am')) \<and> source_ok E am' \<and>
    peers_distinct m' \<and> keeps_peers m m' \<and> persistent (config m') = persistent (config m) \<and>
    (\<forall>a ka time. last_idle am = Some time \<and> worthy newcome_source time am a \<and> map_of (known am) a = Some ka \<longrightarrow> dialled A m' ka)"
proof -
  let ?R = "\<lambda>am' m'. peers_distinct m' \<and> keeps_peers m m' \<and> persistent (config m') = persistent (config m) \<and> last_idle am' = last_idle am \<and>
    (\<forall>a ka time. last_idle am = Some time \<and> worthy newcome_source time am a \<and> map_of (known am) a = Some ka \<longrightarrow>
       dialled A m' ka \<or> worthy newcome_source time am' a \<and> map_of (known am') a = Some ka)"
  let ?Q = "\<lambda>am' m'. peers_distinct m' \<and> keeps_peers m m' \<and> persistent (config m') = persistent (config m) \<and>
    (\<forall>a ka time. last_idle am = Some time \<and> worthy newcome_source time am a \<and> map_of (known am) a = Some ka \<longrightarrow> dialled A m' ka)"
  have step: "?R am2 (newcome_body A now x t)"
    if "source_ok E am1" "?R am1 t" "sample_with E newcome_source am1 = Inr (Some x, am2)" for am1 am2 x t
    using that(1,3)
  proof (cases rule: sample_with_cases)
    case (some a0 ka0 time0)
    note body = newcome_body_spec [where m = t and A = A and now = now and x = x]
    have "dialled A (newcome_body A now x t) ka \<or> worthy newcome_source time am2 a \<and> map_of (known am2) a = Some ka"
      if *: "last_idle am = Some time" "worthy newcome_source time am a" "map_of (known am) a = Some ka" for a ka time
    proof -
      have x: "x = (ka_addr ka0, ka_source ka0)" and time: "time0 = time" using some(1,5) \<open>?R am1 t\<close> *(1) by auto
      from \<open>?R am1 t\<close> * have "dialled A t ka \<or> worthy newcome_source time am1 a \<and> map_of (known am1) a = Some ka" by blast
      then show ?thesis
      proof
        assume "dialled A t ka"
        with body(2) \<open>?R am1 t\<close> show ?thesis by (blast intro: dialled_keeps)
      next
        assume w: "worthy newcome_source time am1 a \<and> map_of (known am1) a = Some ka"
        show ?thesis
        proof (cases "a = a0")
          case True
          with w some(4) x body(4) \<open>?R am1 t\<close> show ?thesis by (auto simp: dialled_def)
        next
          case False
          with w show ?thesis
            unfolding worthy_def some(2) sampled_def by (auto simp: map_of_modify_known simp del: newcome_source.simps)
        qed
      qed
    qed
    moreover have "last_idle am2 = last_idle am" "persistent (config (newcome_body A now x t)) = persistent (config m)"
      using some(2) body(3) \<open>?R am1 t\<close> by simp_all
    ultimately show ?thesis using body(1,2) \<open>?R am1 t\<close> by (blast intro: keeps_peers_trans)
  qed simp
  have none: "?Q am2 t" if "source_ok E am1" "?R am1 t" "sample_with E newcome_source am1 = Inr (None, am2)" for am1 am2 t
    using that(1,3)
  proof (cases rule: sample_with_cases)
    case none
    with that(2) have "\<not> worthy newcome_source time am1 a" if "last_idle am = Some time" for a time using that by simp
    with that(2) show ?thesis by blast
  qed simp
  have init: "?R am m" using assms(2) by simp
  have "\<exists>am' m' b. drain (\<lambda>_. True) (sample_with E newcome_source) (newcome_body A now) am m = Some (Inr (am', m', b)) \<and>
      source_ok E am' \<and> card (fresh_addrs am') \<le> card (fresh_addrs am) \<and> (if b then ?Q am' m' else ?R am' m' \<and> \<not> True)"
    by (rule book_source.drain_returns [where R = ?R and Q = ?Q, OF assms(1) init]) (rule step none; assumption)+
  then obtain am' m' where d: "drain (\<lambda>_. True) (sample_with E newcome_source) (newcome_body A now) am m = Some (Inr (am', m', True))"
    and am': "source_ok E am'" and Q: "?Q am' m'"
    by (auto split: if_splits)
  have "maintain_newcome E A now m am = Some (Inr (m', am'))" using d by (simp add: maintain_newcome_def)
  with am' Q show ?thesis by blast
qed

section \<open>A sample network\<close>

text \<open>IPv4 addresses are mapped into the IPv6 space.\<close>

fun mapped_address :: "ip_addr \<Rightarrow> u16 list" where
  "mapped_address (V4 a b c d) = [0, 0, 0, 0, 0, 0xFFFF, push_bit 8 (ucast a) OR ucast b, push_bit 8 (ucast c) OR ucast d]"
| "mapped_address (V6 segments) = segments"

definition unmapped_address :: "u16 list \<Rightarrow> ip_addr option" where
  "unmapped_address ws =
     (if length ws \<noteq> 8 \<or> take 3 ws = [0xFD87, 0xD87E, 0xEB43] then None
      else if take 6 ws = [0, 0, 0, 0, 0, 0xFFFF]
      then Some (V4 (ucast (drop_bit 8 (ws ! 6))) (ucast (ws ! 6)) (ucast (drop_bit 8 (ws ! 7))) (ucast (ws ! 7)))
      else Some (V6 ws))"

definition sample_p2p_ext :: p2p_ext where
  "sample_p2p_ext =
     \<lparr>x_address_new = (\<lambda>a sv. \<lparr>na_services = sv, na_address = mapped_address (ip a), na_port = port a\<rparr>),
      x_socket_addr = (\<lambda>na. map_option (\<lambda>i. SocketAddr i (na_port na)) (unmapped_address (na_address na))),
      x_magic = (\<lambda>_. [0xF9, 0xBE, 0xB4, 0xD9]), x_lookup_ip = (\<lambda>_. None)\<rparr>"

definition sample_env :: addr_env where
  "sample_env = \<lparr>e_now = 1700000000000, e_pick = hd, e_ips = id, e_ranges = id, e_seed = hd, e_nonce = (\<lambda>_. 7)\<rparr>"

lemma sample_env_ok: "env_ok sample_env"
  by (simp add: env_ok_def sample_env_def walk_def)

definition book_addr :: "u8 \<Rightarrow> socket_addr" where
  "book_addr n = SocketAddr (V4 80 n 1 1) 8333"

definition sample_book :: "u8 list \<Rightarrow> address_manager" where
  "sample_book ns = am_initialize 1700000000000 (new_address_manager sample_env
     (map (\<lambda>n. (book_addr n, new_known_address (x_address_new sample_p2p_ext (book_addr n) 1) Dns None)) ns)
     [0xF9, 0xBE, 0xB4, 0xD9])"

definition sample_peers :: "socket_addr list \<Rightarrow> nat \<Rightarrow> peer_manager" where
  "sample_peers fixed target = new_peer_manager
     \<lparr>protocol_version = PROTOCOL_VERSION, cfg_whitelist = \<lparr>wl_addr = [], wl_user_agent = []\<rparr>, cfg_services = 0,
      persistent = fixed, required_services = NETWORK_SERVICE, target_outbound_peers = target, max_inbound_peers = 16,
      retry_max_wait = mins 60, retry_min_wait = secs 1, user_agent = ''yuv''\<rparr> Bitcoin"

lemma sample_book_ok:
  assumes "distinct ns"
  shows "source_ok sample_env (sample_book ns)"
proof -
  have "distinct (map book_addr ns)" using assms by (simp add: distinct_map inj_on_def book_addr_def)
  with new_book_wf [OF sample_env_ok] show ?thesis
    by (simp add: source_ok_def sample_env_ok sample_book_def am_initialize_def idle_def comp_def) (simp add: am_own_def)
qed

lemma foldl_populate [simp]:
  "am_connected (foldl (\<lambda>m a. populate_address_ranges E a m) m as) = am_connected m"
  by (induction as arbitrary: m) simp_all

lemma sample_peers_distinct: "peers_distinct (sample_peers fixed target)"
  by (simp add: sample_peers_def new_peer_manager_def peers_distinct_def)

section \<open>The searches for peers end\<close>

text \<open>C14. Looking for outbound peers ends: with a well-formed address book the loop neither panics nor
  runs forever, whatever the book draws. No peer is lost, and never are more peers dialled than
  the configured number of outbound peers has room for.
\<close>

theorem outbound_search_terminates:
  assumes "source_ok E am" and "peers_distinct m"
  shows "\<exists>m' am'. maintain_connections E A now m am = Some (Inr (m', am')) \<and> source_ok E am' \<and> keeps_peers m m' \<and>
    length (peers_storage m') \<le> max (length (peers_storage m)) (target_outbound_peers (config m))"
  using maintain_connections_returns [OF assms, of A now] by blast

theorem outbound_search_terminates_witness:
  "\<exists>m' am'. maintain_connections sample_env sample_p2p_ext 1700000000000 (sample_peers [] 2) (sample_book [0, 1, 2]) = Some (Inr (m', am')) \<and>
     length (peers_storage m') \<le> 2"
  using outbound_search_terminates [OF sample_book_ok sample_peers_distinct, of "[0, 1, 2]" sample_p2p_ext 1700000000000 "[]" 2]
  by (auto simp: sample_peers_def new_peer_manager_def)

text \<open>C36. The peers one has heard of are dialled without a limit: the loop ends, and each known address
  that did not fail, was not drawn lately and is not connected has been dialled by then.
\<close>

theorem newcome_dials_everyone:
  assumes "source_ok E am" and "peers_distinct m"
  shows "\<exists>m' am'. maintain_newcome E A now m am = Some (Inr (m', am')) \<and> source_ok E am' \<and> keeps_peers m m' \<and>
    (\<forall>a ka time. last_idle am = Some time \<and> worthy newcome_source time am a \<and> map_of (known am) a = Some ka \<longrightarrow> dialled A m' ka)"
  using maintain_newcome_returns [OF assms, of A now] by blast

lemma sample_book_known:
  "map_of (known (sample_book [0, 1, 2])) (book_addr n) =
     (if n \<in> {0, 1, 2} then Some (new_known_address (x_address_new sample_p2p_ext (book_addr n) 1) Dns None) else None)"
  by (simp add: sample_book_def am_initialize_def idle_def am_own_def new_address_manager_def sample_env_def book_addr_def
      populate_address_ranges_def range_of_def MAX_RANGE_SIZE_def Let_def)

theorem newcome_dials_everyone_witness:
  "\<exists>m' am'. maintain_newcome sample_env sample_p2p_ext 1700000000000 (sample_peers [] 2) (sample_book [0, 1, 2]) = Some (Inr (m', am')) \<and>
     map_of (peers_storage m') (book_addr 0) \<noteq> None \<and> map_of (peers_storage m') (book_addr 1) \<noteq> None \<and>
     map_of (peers_storage m') (book_addr 2) \<noteq> None"
proof -
  have idle: "last_idle (sample_book [0, 1, 2]) = Some 1700000000000" "am_connected (sample_book [0, 1, 2]) = []"
    by (simp_all add: sample_book_def am_initialize_def idle_def am_own_def new_address_manager_def)
  have worthy: "worthy newcome_source 1700000000000 (sample_book [0, 1, 2]) (book_addr n)" if "n \<in> {0, 1, 2}" for n
    using that idle unfolding worthy_def sample_book_known
    by (simp add: new_known_address_def failed_attempt_def recently_sampled_def SAMPLE_TIMEOUT_def mins_def secs_def)
  have addr: "x_socket_addr sample_p2p_ext (x_address_new sample_p2p_ext (book_addr n) 1) = Some (book_addr n)" if "n \<in> {0, 1, 2}" for n
    using that by (elim insertE emptyE; hypsubst; code_simp)
  obtain m' am' where r: "maintain_newcome sample_env sample_p2p_ext 1700000000000 (sample_peers [] 2) (sample_book [0, 1, 2]) = Some (Inr (m', am'))"
    "\<And>a ka time. last_idle (sample_book [0, 1, 2]) = Some time \<Longrightarrow> worthy newcome_source time (sample_book [0, 1, 2]) a \<Longrightarrow>
       map_of (known (sample_book [0, 1, 2])) a = Some ka \<Longrightarrow> dialled sample_p2p_ext m' ka"
    using newcome_dials_everyone [OF sample_book_ok sample_peers_distinct, of "[0, 1, 2]" sample_p2p_ext 1700000000000 "[]" 2] by auto
  have dialled: "map_of (peers_storage m') (book_addr n) \<noteq> None" if n: "n \<in> {0, 1, 2}" for n
  proof -
    have "dialled sample_p2p_ext m' (new_known_address (x_address_new sample_p2p_ext (book_addr n) 1) Dns None)"
      by (rule r(2) [OF idle(1) worthy [OF n]]) (use n in \<open>simp only: sample_book_known if_True\<close>)
    with addr [OF n] show ?thesis by (simp add: dialled_def new_known_address_def)
  qed
  show ?thesis by (intro exI conjI, rule r(1)) (rule dialled, simp)+
qed

end
