(* ===== verification/P2p_Machine.thy ===== *)
theory P2p_Machine
  imports Ping_Manager Peer_Manager
begin

text \<open>
  The state machine of the peer-to-peer client (\<open>p2p/src/fsm/handler.rs\<close>). The managers hold
  clones of one outbox and of one clock: a call to a manager runs with the queue of the
  machine and leaves it there. Events for the controller go to the event bus, \<open>bus_sent\<close>. A
  result \<open>Some (Inl p)\<close> is a panic, and \<open>None\<close> a call that does not return.
\<close>

section \<open>State\<close>

record machine =
  mc_network :: network
  addrmgr :: address_manager
  pingmgr :: ping_manager
  peermgr :: peer_manager
  invmgr :: inventory_manager
  clock :: adjusted_time
  last_tick :: local_time
  outbox :: "p2p_io list"
  bus_sent :: "controller_message list"

record limits =
  max_outbound :: nat
  max_inbound :: nat

record machine_config =
  mcfg_network :: network
  mcfg_connect :: "socket_addr list"
  mcfg_services :: service_flags
  mcfg_required :: service_flags
  mcfg_whitelist :: whitelist
  mcfg_user_agent :: string
  mcfg_ping_timeout :: local_duration
  mcfg_limits :: limits

definition default_limits :: limits where
  "default_limits = \<lparr>max_outbound = TARGET_OUTBOUND_PEERS, max_inbound = MAX_INBOUND_PEERS\<rparr>"

definition default_machine_config :: "string \<Rightarrow> machine_config" where
  "default_machine_config agent =
     \<lparr>mcfg_network = Bitcoin, mcfg_connect = [], mcfg_services = NO_SERVICES, mcfg_required = NETWORK_SERVICE,
      mcfg_whitelist = \<lparr>wl_addr = [], wl_user_agent = []\<rparr>, mcfg_user_agent = agent,
      mcfg_ping_timeout = PING_TIMEOUT, mcfg_limits = default_limits\<rparr>"

definition new_machine ::
  "addr_env \<Rightarrow> p2p_ext \<Rightarrow> (socket_addr \<times> known_address) list \<Rightarrow> adjusted_time \<Rightarrow> machine_config \<Rightarrow> machine" where
  "new_machine E A ps clk cfg =
     (let mg = network_magic A (mcfg_network cfg) in
      \<lparr>mc_network = mcfg_network cfg,
       addrmgr = new_address_manager E ps mg,
       pingmgr = new_ping_manager (mcfg_ping_timeout cfg) mg,
       peermgr = new_peer_manager
         \<lparr>protocol_version = PROTOCOL_VERSION, cfg_whitelist = mcfg_whitelist cfg, cfg_services = mcfg_services cfg,
          persistent = mcfg_connect cfg, required_services = mcfg_required cfg,
          target_outbound_peers = max_outbound (mcfg_limits cfg), max_inbound_peers = max_inbound (mcfg_limits cfg),
          retry_max_wait = mins 60, retry_min_wait = secs 1, user_agent = mcfg_user_agent cfg\<rparr> (mcfg_network cfg),
       invmgr = new_inventory_manager, clock = clk, last_tick = 0, outbox = [], bus_sent = []\<rparr>)"

section \<open>The shared outbox\<close>

definition load_am :: "machine \<Rightarrow> address_manager" where
  "load_am mc = (addrmgr mc)\<lparr>am_upstream := outbox mc\<rparr>"

definition store_am :: "machine \<Rightarrow> address_manager \<Rightarrow> machine" where
  "store_am mc am = mc\<lparr>addrmgr := am, outbox := am_upstream am\<rparr>"

definition load_pm :: "machine \<Rightarrow> peer_manager" where
  "load_pm mc = (peermgr mc)\<lparr>pm_upstream := outbox mc\<rparr>"

definition store_pm :: "machine \<Rightarrow> peer_manager \<Rightarrow> machine" where
  "store_pm mc pm = mc\<lparr>peermgr := pm, outbox := pm_upstream pm\<rparr>"

definition load_ping :: "machine \<Rightarrow> ping_manager" where
  "load_ping mc = (pingmgr mc)\<lparr>pg_upstream := outbox mc\<rparr>"

definition store_ping :: "machine \<Rightarrow> ping_manager \<Rightarrow> machine" where
  "store_ping mc pg = mc\<lparr>pingmgr := pg, outbox := pg_upstream pg\<rparr>"

definition load_inv :: "machine \<Rightarrow> inventory_manager" where
  "load_inv mc = (invmgr mc)\<lparr>iv_upstream := outbox mc\<rparr>"

definition store_inv :: "machine \<Rightarrow> inventory_manager \<Rightarrow> machine" where
  "store_inv mc iv = mc\<lparr>invmgr := iv, outbox := iv_upstream iv\<rparr>"

text \<open>The peer manager with the address manager as its source of addresses.\<close>

definition store_both :: "machine \<Rightarrow> peer_manager \<times> address_manager \<Rightarrow> machine" where
  "store_both mc r = (case r of (pm, am) \<Rightarrow> store_pm (mc\<lparr>addrmgr := am\<rparr>) pm)"

definition push :: "p2p_io list \<Rightarrow> machine \<Rightarrow> machine" where
  "push outs mc = mc\<lparr>outbox := outbox mc @ outs\<rparr>"

definition message :: "p2p_ext \<Rightarrow> machine \<Rightarrow> socket_addr \<Rightarrow> network_message \<Rightarrow> p2p_io" where
  "message A mc a msg = Write a \<lparr>rm_magic = network_magic A (mc_network mc), rm_payload = msg\<rparr>"

definition local_time :: "machine \<Rightarrow> local_time" where
  "local_time mc = clock_time (clock mc)"

section \<open>Sending\<close>

record remote_peer =
  rp_addr :: socket_addr
  rp_local :: socket_addr
  rp_link :: link
  rp_since :: local_time
  rp_services :: service_flags
  rp_user_agent :: string
  rp_relay :: bool

definition remote_peer_from :: "peer_info \<times> connection \<Rightarrow> remote_peer" where
  "remote_peer_from pc = (case pc of (p, c) \<Rightarrow>
     \<lparr>rp_addr = conn_addr c, rp_local = conn_local c, rp_link = conn_link c, rp_since = conn_since c,
      rp_services = pi_services p, rp_user_agent = pi_user_agent p, rp_relay = pi_relay p\<rparr>)"

definition machine_disconnect :: "socket_addr \<Rightarrow> disconnect_reason \<Rightarrow> machine \<Rightarrow> machine" where
  "machine_disconnect a r mc = store_pm mc (disconnect a r (load_pm mc))"

definition broadcast ::
  "addr_env \<Rightarrow> p2p_ext \<Rightarrow> network_message \<Rightarrow> (remote_peer \<Rightarrow> bool) \<Rightarrow> machine \<Rightarrow> socket_addr list \<times> machine" where
  "broadcast E A msg P mc =
     (let addrs = map (\<lambda>pc. rp_addr (remote_peer_from pc))
            (filter (\<lambda>(p, c). P (remote_peer_from (p, c)) \<and> is_negotiated p) (peers (e_ips E) (peermgr mc)))
      in (addrs, push (map (\<lambda>a. message A mc a msg) addrs) mc))"

definition send_to :: "p2p_ext \<Rightarrow> network_message \<Rightarrow> socket_addr \<Rightarrow> machine \<Rightarrow> machine" where
  "send_to A msg a mc = push [message A mc a msg] mc"

definition query ::
  "addr_env \<Rightarrow> p2p_ext \<Rightarrow> network_message \<Rightarrow> (remote_peer \<Rightarrow> bool) \<Rightarrow> machine \<Rightarrow> socket_addr option \<times> machine" where
  "query E A msg P mc =
     (let ps = filter P (map remote_peer_from (negotiated (e_ips E) Outbound (peermgr mc)))
      in if ps = [] then (None, mc)
         else let a = e_pick E (map rp_addr ps) in (Some a, push [message A mc a msg] mc))"

section \<open>Commands\<close>

datatype machine_command =
    CmdGetPeers service_flags
  | CmdBroadcast network_message "remote_peer \<Rightarrow> bool"
  | CmdQuery network_message
  | CmdConnect socket_addr
  | CmdDisconnect socket_addr
  | CmdImportAddresses "net_address list"
  | CmdSendInv "inventory list"
  | CmdSendGetData "inventory list" socket_addr
  | CmdSendYuvTransactions "yuv_transaction list" socket_addr
  | CmdBanPeer socket_addr

datatype reply = NoReply | ReplyPeers "remote_peer list" | ReplyAddrs "socket_addr list" | ReplyAddr "socket_addr option"

fun command :: "addr_env \<Rightarrow> p2p_ext \<Rightarrow> machine_command \<Rightarrow> machine \<Rightarrow> panic + reply \<times> machine" where
  "command E A (CmdGetPeers services) mc =
     Inr (ReplyPeers (map remote_peer_from
       (filter (\<lambda>(p, _). is_negotiated p \<and> has_services (pi_services p) services) (peers (e_ips E) (peermgr mc)))), mc)"
| "command E A (CmdConnect a) mc =
     Inr (NoReply, store_pm mc (snd (connect (local_time mc) a (whitelist_peer a (load_pm mc)))))"
| "command E A (CmdDisconnect a) mc = Inr (NoReply, machine_disconnect a CommandReason mc)"
| "command E A (CmdQuery msg) mc = (case query E A msg (\<lambda>_. True) mc of (r, mc) \<Rightarrow> Inr (ReplyAddr r, mc))"
| "command E A (CmdBroadcast msg P) mc = (case broadcast E A msg P mc of (r, mc) \<Rightarrow> Inr (ReplyAddrs r, mc))"
| "command E A (CmdImportAddresses addrs) mc =
     bindE (insert_addresses E A (map (\<lambda>a. (0, a)) addrs) Imported (load_am mc)) (\<lambda>am. Inr (NoReply, store_am mc am))"
| "command E A (CmdSendInv txids) mc = Inr (NoReply, snd (broadcast E A (Inv txids) (\<lambda>_. True) mc))"
| "command E A (CmdSendGetData txids a) mc = Inr (NoReply, send_to A (MsgGetData txids) a mc)"
| "command E A (CmdSendYuvTransactions txs a) mc = Inr (NoReply, send_to A (YuvTx txs) a mc)"
| "command E A (CmdBanPeer a) mc =
     (let mc = store_am mc (am_peer_disconnected a PeerBanned (load_am mc))
      in Inr (NoReply, store_pm mc (disconnect a ReasonPeerBanned (load_pm mc))))"

section \<open>Events of the network\<close>

definition initialize :: "addr_env \<Rightarrow> p2p_ext \<Rightarrow> local_time \<Rightarrow> machine \<Rightarrow> (panic + machine) option" where
  "initialize E A time mc =
     (let mc = mc\<lparr>clock := set_local_time time (clock mc)\<rparr>;
          mc = push [Event Initializing] mc;
          mc = store_am mc (am_initialize (local_time mc) (load_am mc))
      in map_option (map_sum id (\<lambda>r. push [Event (Ready 0 0 time)] (store_both mc r)))
           (pm_initialize E A (local_time mc) (load_pm mc) (addrmgr mc)))"

fun handle_payload ::
  "addr_env \<Rightarrow> p2p_ext \<Rightarrow> local_time \<Rightarrow> socket_addr \<Rightarrow> network_message \<Rightarrow> machine \<Rightarrow> panic + machine" where
  "handle_payload E A now a (Inv is) mc = Inr (mc\<lparr>bus_sent := bus_sent mc @ [P2P (P2pInv is a)]\<rparr>)"
| "handle_payload E A now a (MsgGetData is) mc = Inr (mc\<lparr>bus_sent := bus_sent mc @ [P2P (P2pGetData is a)]\<rparr>)"
| "handle_payload E A now a (YuvTx txs) mc = Inr (mc\<lparr>bus_sent := bus_sent mc @ [P2P (P2pYuvTx txs a)]\<rparr>)"
| "handle_payload E A now a (Ping nonce) mc =
     (case received_ping a nonce (load_ping mc) of
        (ok, pg) \<Rightarrow> let mc = store_ping mc pg in
          Inr (if ok then store_am mc (peer_active (local_time mc) a (load_am mc)) else mc))"
| "handle_payload E A now a (Pong nonce) mc =
     (case received_pong a nonce now (load_ping mc) of
        (ok, pg) \<Rightarrow> let mc = store_ping mc pg in
          Inr (if ok then store_am mc (peer_active (local_time mc) a (load_am mc)) else mc))"
| "handle_payload E A now a Verack mc =
     (case received_verack a (last_tick mc) (load_pm mc) of
        (None, pm) \<Rightarrow> Inr (store_pm mc pm)
      | (Some (p, conn), pm) \<Rightarrow>
          let mc = store_pm mc pm;
              mc = mc\<lparr>clock := record_offset (conn_addr conn) (pi_time_offset p) (clock mc)\<rparr>;
              mc = store_am mc (am_peer_negotiated A (local_time mc) a (pi_services p) (load_am mc));
              mc = store_ping mc (ping_negotiated (local_time mc) (e_nonce E (conn_addr conn)) (conn_addr conn) (load_ping mc))
          in Inr (store_inv mc (inv_negotiated (conn_addr conn) (load_inv mc))))"
| "handle_payload E A now a WtxidRelay mc = Inr (store_pm mc (received_wtxidrelay a (load_pm mc)))"
| "handle_payload E A now a YtxidRelay mc = Inr (store_pm mc (received_ytxidrelay A a (load_pm mc)))"
| "handle_payload E A now a Ytxidack mc = Inr (store_pm mc (received_ytxidack a (last_tick mc) (load_pm mc)))"
| "handle_payload E A now a (Version v) mc =
     Inr (store_both mc (received_version A (local_time mc) a v (load_pm mc) (addrmgr mc)))"
| "handle_payload E A now a GetAddr mc = bindE (received_getaddr E a (load_am mc)) (\<lambda>am. Inr (store_am mc am))"
| "handle_payload E A now a (Addr addrs) mc = bindE (received_addr E A a addrs (load_am mc)) (\<lambda>am. Inr (store_am mc am))"
| "handle_payload E A now a (Unknown _ _) mc = Inr mc"

definition message_received ::
  "addr_env \<Rightarrow> p2p_ext \<Rightarrow> socket_addr \<Rightarrow> raw_network_message \<Rightarrow> machine \<Rightarrow> panic + machine" where
  "message_received E A a msg mc =
     (let now = local_time mc;
          mc = (if rm_magic msg \<noteq> network_magic A (mc_network mc)
                then machine_disconnect a (PeerMagic (rm_magic msg)) mc else mc)
      in if \<not> is_connected (peermgr mc) a then Inr mc
         else handle_payload E A now a (rm_payload msg) mc)"

definition attempted :: "socket_addr \<Rightarrow> machine \<Rightarrow> machine" where
  "attempted a mc = store_am mc (am_peer_attempted (local_time mc) a (load_am mc))"

definition machine_connected ::
  "addr_env \<Rightarrow> p2p_ext \<Rightarrow> socket_addr \<Rightarrow> socket_addr \<Rightarrow> link \<Rightarrow> machine \<Rightarrow> panic + bool \<times> machine" where
  "machine_connected E A a local l mc =
     (if is_banned a (addrmgr mc) then Inr (False, mc)
      else case pm_peer_connected E A (local_time mc) a local l (load_pm mc) of
        (True, pm) \<Rightarrow> Inr (False, store_pm mc pm)
      | (False, pm) \<Rightarrow>
          let mc = store_pm mc pm in
          bindE (am_peer_connected E A a (record_local_address local (load_am mc))) (\<lambda>am.
            Inr (True, store_am mc am)))"

definition machine_disconnected ::
  "addr_env \<Rightarrow> p2p_ext \<Rightarrow> socket_addr \<Rightarrow> net_disconnect \<Rightarrow> machine \<Rightarrow> (panic + machine) option" where
  "machine_disconnected E A a reason mc =
     (let mc = store_am mc (am_peer_disconnected a reason (load_am mc));
          mc = store_ping mc (ping_disconnected a (load_ping mc))
      in map_option (map_sum id (\<lambda>r. let mc = store_both mc r in store_inv mc (inv_disconnected a (load_inv mc))))
           (pm_peer_disconnected E A (local_time mc) a reason (load_pm mc) (addrmgr mc)))"

definition machine_is_disconnected :: "socket_addr \<Rightarrow> machine \<Rightarrow> bool" where
  "machine_is_disconnected a mc \<longleftrightarrow>
     \<not> am_is_connected a (addrmgr mc) \<or> \<not> ping_is_connected a (pingmgr mc) \<or>
     is_disconnected (peermgr mc) a \<or> \<not> inv_is_connected a (invmgr mc)"

definition tick :: "local_time \<Rightarrow> machine \<Rightarrow> machine" where
  "tick time mc = mc\<lparr>clock := set_local_time time (clock mc)\<rparr>"

definition timer_expired :: "addr_env \<Rightarrow> p2p_ext \<Rightarrow> machine \<Rightarrow> (panic + machine) option" where
  "timer_expired E A mc =
     (let mc = store_ping mc (ping_received_wake (e_ips E) (e_nonce E) (local_time mc) (load_ping mc))
      in case am_received_wake E (local_time mc) (load_am mc) of
           Inl e \<Rightarrow> Some (Inl e)
         | Inr am \<Rightarrow>
             let mc = store_am mc am in
             map_option (map_sum id (\<lambda>r.
               let mc = store_both mc r in
               if secs 10 \<le> local_time mc - last_tick mc then mc\<lparr>last_tick := local_time mc\<rparr> else mc))
               (pm_received_wake E A (\<lambda>a. inv_is_connected a (invmgr mc)) (local_time mc) (load_pm mc) (addrmgr mc)))"

definition machine_is_connected :: "socket_addr \<Rightarrow> machine \<Rightarrow> bool" where
  "machine_is_connected a mc \<longleftrightarrow>
     \<not> is_banned a (addrmgr mc) \<or> is_connected (peermgr mc) a \<or> am_is_connected a (addrmgr mc)"

text \<open>A call from the reactor or the user.\<close>

datatype machine_event =
    EvMessage socket_addr raw_network_message
  | EvAttempted socket_addr
  | EvConnected socket_addr socket_addr link
  | EvDisconnected socket_addr net_disconnect
  | EvTick local_time
  | EvTimer
  | EvCommand machine_command

fun machine_step :: "addr_env \<Rightarrow> p2p_ext \<Rightarrow> machine_event \<Rightarrow> machine \<Rightarrow> (panic + machine) option" where
  "machine_step E A (EvMessage a msg) mc = Some (message_received E A a msg mc)"
| "machine_step E A (EvAttempted a) mc = Some (Inr (attempted a mc))"
| "machine_step E A (EvConnected a local l) mc = Some (map_sum id snd (machine_connected E A a local l mc))"
| "machine_step E A (EvDisconnected a r) mc = machine_disconnected E A a r mc"
| "machine_step E A (EvTick t) mc = Some (Inr (tick t mc))"
| "machine_step E A EvTimer mc = timer_expired E A mc"
| "machine_step E A (EvCommand c) mc = Some (map_sum id snd (command E A c mc))"

end
