(* ===== verification/P2p_Safety.thy ===== *)
theory P2p_Safety
  imports P2p_Machine "HOL-Library.Sublist"
begin

text \<open>
  What the state machine of the peer-to-peer client guarantees over all sequences of calls:
  every call returns and does not panic as long as the address book is well formed, and peers
  are negotiated in the order of the handshake.
\<close>

section \<open>The address manager keeps its book\<close>

definition am_ok :: "address_manager \<Rightarrow> bool" where
  "am_ok am \<longleftrightarrow> book_wf am \<and> last_idle am \<noteq> None"

lemma source_ok_iff: "source_ok E am \<longleftrightarrow> env_ok E \<and> am_ok am"
  by (simp add: source_ok_def am_ok_def)

lemma last_idle_frame [simp]: "last_idle (am_push outs am) = last_idle am" "last_idle (am_own outs am) = last_idle am"
  by (simp_all add: am_push_def am_own_def)

lemma am_ok_frame [simp]:
  "am_ok (am_push outs am) = am_ok am" "am_ok (am_own outs am) = am_ok am"
  "am_ok (am\<lparr>am_sources := ss\<rparr>) = am_ok am" "am_ok (am\<lparr>local_addrs := ss\<rparr>) = am_ok am"
  "am_ok (am\<lparr>am_connected := ss\<rparr>) = am_ok am" "am_ok (am\<lparr>last_request := t\<rparr>) = am_ok am"
  "am_ok (am\<lparr>am_upstream := q\<rparr>) = am_ok am" "am_ok (modify_known a f am) = am_ok am"
  "am_ok (record_local_address a am) = am_ok am"
  by (simp_all add: am_ok_def record_local_address_def)

lemma idle_ok [simp]: "am_ok (idle now am) = book_wf am"
  by (simp add: am_ok_def idle_def)

lemma insert_address_idle [simp]: "last_idle (insert_address E A src time am e) = last_idle am"
  by (simp add: insert_address_def split: prod.splits option.splits)

lemma foldl_insert_idle [simp]: "last_idle (foldl (insert_address E A src time) am es) = last_idle am"
  by (induction es arbitrary: am) simp_all

lemma insert_addresses_ok:
  "env_ok E \<Longrightarrow> am_ok am \<Longrightarrow> \<exists>am'. insert_addresses E A es src am = Inr am' \<and> am_ok am'"
  by (auto simp: insert_addresses_def am_ok_def insert_addresses_wf)

lemma received_addr_ok:
  "env_ok E \<Longrightarrow> am_ok am \<Longrightarrow> \<exists>am'. received_addr E A peer addrs am = Inr am' \<and> am_ok am'"
  by (simp add: received_addr_def insert_addresses_ok)

lemma ban_idle [simp]: "last_idle (snd (ban a am)) = last_idle am"
  by (simp add: ban_def Let_def split: option.splits)

lemma am_disconnected_ok: "am_ok am \<Longrightarrow> am_ok (am_peer_disconnected a reason am)"
  by (simp add: am_peer_disconnected_def am_ok_def ban_wf Let_def)

lemma am_negotiated_ok: "am_ok am \<Longrightarrow> am_ok (am_peer_negotiated A now a services am)"
proof -
  have "book_wf (am_peer_negotiated A now a services am) = book_wf am"
    by (rule book_wf_cong) (auto simp: am_peer_negotiated_def Let_def am_own_def hash_map.get_put split: option.splits)
  moreover have "last_idle (am_peer_negotiated A now a services am) = last_idle am"
    by (simp add: am_peer_negotiated_def Let_def am_own_def split: option.splits)
  ultimately show "am_ok am \<Longrightarrow> ?thesis" by (simp add: am_ok_def)
qed

lemma am_wake_ok:
  assumes "am_ok am"
  shows "\<exists>am'. am_received_wake E now am = Inr am' \<and> am_ok am'"
proof -
  have wf: "book_wf am" using assms by (simp add: am_ok_def)
  have "\<exists>b. (if REQUEST_TIMEOUT \<le> since (last_request am) now then is_exhausted am else Inr False) = Inr b"
    using assms by (auto simp: is_exhausted_def am_ok_def)
  then obtain b where "(if REQUEST_TIMEOUT \<le> since (last_request am) now then is_exhausted am else Inr False) = Inr b" ..
  with assms wf show ?thesis
    by (simp add: am_received_wake_def get_addresses_def Let_def)
qed

text \<open>
  A peer can be taken in when its address is not one of ours, its range is not nearly full and
  the system clock is not far ahead of the last idle time.
\<close>

definition safe_peer :: "addr_env \<Rightarrow> p2p_ext \<Rightarrow> socket_addr \<Rightarrow> address_manager \<Rightarrow> bool" where
  "safe_peer E A a am \<longleftrightarrow>
     x_socket_addr A (x_address_new A a NO_SERVICES) = Some a \<and> a \<notin> set (local_addrs am) \<and>
     Suc (length (range_of am (addr_key (ip a)))) < MAX_RANGE_SIZE \<and>
     (of_nat (e_now E div 1000) :: u32) \<noteq> 0 \<and>
     (case last_idle am of None \<Rightarrow> True
      | Some time \<Rightarrow> secs (unat (of_nat (e_now E div 1000) :: u32)) \<le> time + mins 60)"

lemma am_connected_ok:
  assumes "env_ok E" and "am_ok am" and "safe_peer E A a am" and "ip a \<notin> set (bans am)"
  shows "\<exists>am'. am_peer_connected E A a am = Inr am' \<and> am_ok am'"
proof -
  obtain time where am: "book_wf am" "last_idle am = Some time" using assms(2) by (auto simp: am_ok_def)
  let ?k = "addr_key (ip a)"
  define am1 where "am1 = insert_address E A (SourcePeer a) time am (of_nat (e_now E div 1000), x_address_new A a NO_SERVICES)"
  have ins: "insert_addresses E A [(of_nat (e_now E div 1000), x_address_new A a NO_SERVICES)] (SourcePeer a) am = Inr am1"
    by (simp add: insert_addresses_def am am1_def)
  have am1: "book_wf am1" "last_idle am1 = Some time"
    by (simp_all add: am1_def insert_address_wf [OF assms(1) am(1)] am(2))
  have eq: "am1 = (if map_of (known am) a \<noteq> None then am else populate_address_ranges E a
      (am\<lparr>known := AList.update a (new_known_address (x_address_new A a NO_SERVICES) (SourcePeer a) None) (known am)\<rparr>))"
    using assms(3,4) am(2) by (simp add: am1_def insert_address_def safe_peer_def)
  have "length (range_of am1 ?k) < MAX_RANGE_SIZE"
    using assms(3) by (auto simp: eq populate_eqs populated_def safe_peer_def hs_insert_def)
  moreover have "map_of (known am1) a \<noteq> None"
    using assms(3) by (auto simp: eq populate_eqs safe_peer_def hash_map.get_put)
  then have "ranged am1 a" using book_wfD(2) [OF am1(1)] by simp
  ultimately have "book_wf (populate_address_ranges E a am1)" using populate_again [OF assms(1) am1(1)] by simp
  with am1(2) ins show ?thesis by (simp add: am_peer_connected_def am_ok_def Let_def)
qed

section \<open>The peer manager\<close>

definition pm_ok :: "peer_manager \<Rightarrow> bool" where
  "pm_ok pm \<longleftrightarrow> peers_distinct pm \<and>
     (\<forall>a c q. map_of (peers_storage pm) a = Some (Connected c q) \<longrightarrow> conn_addr c = a)"

lemma pm_okD: "pm_ok pm \<Longrightarrow> map_of (peers_storage pm) a = Some (Connected c q) \<Longrightarrow> conn_addr c = a"
  unfolding pm_ok_def by blast

lemma pm_ok_distinct: "pm_ok pm \<Longrightarrow> peers_distinct pm"
  unfolding pm_ok_def by blast

lemma pm_ok_keeps: "pm_ok pm \<Longrightarrow> keeps_peers pm pm' \<Longrightarrow> peers_distinct pm' \<Longrightarrow> pm_ok pm'"
  unfolding pm_ok_def keeps_peers_def by blast

lemma pm_ok_frame [simp]:
  "pm_ok (pm_push outs pm) = pm_ok pm" "pm_ok (pm\<lparr>pm_upstream := q\<rparr>) = pm_ok pm" "pm_ok (whitelist_peer a pm) = pm_ok pm"
  "pm_ok (force_disconnect a r pm) = pm_ok pm" "pm_ok (disconnect a r pm) = pm_ok pm"
  "pm_ok (pm\<lparr>disconnected := d\<rparr>) = pm_ok pm" "pm_ok (pm\<lparr>pm_last_idle := t\<rparr>) = pm_ok pm"
  "peers_distinct (pm\<lparr>pm_upstream := q\<rparr>) = peers_distinct pm"
  by (simp_all add: pm_ok_def peers_distinct_def force_disconnect_def disconnect_def)

lemma set_peer_eqs:
  "map_of (peers_storage (set_peer a p pm)) b = (if b = a then Some p else map_of (peers_storage pm) b)"
  "peers_distinct pm \<Longrightarrow> peers_distinct (set_peer a p pm)"
  by (simp_all add: set_peer_def hash_map.get_put peers_distinct_def distinct_update)

lemma pm_ok_cong: "peers_storage pm' = peers_storage pm \<Longrightarrow> pm_ok pm' = pm_ok pm"
  by (simp add: pm_ok_def peers_distinct_def)

lemma pm_ok_set:
  assumes "pm_ok pm" and "\<And>c q. p = Connected c q \<Longrightarrow> conn_addr c = a"
  shows "pm_ok (set_peer a p pm)"
  using assms set_peer_eqs(2) [of pm a p] unfolding pm_ok_def by (auto simp: set_peer_eqs(1))

lemma pm_ok_set_connected: "pm_ok pm \<Longrightarrow> conn_addr c = a \<Longrightarrow> pm_ok (set_peer a (Connected c q) pm)"
  by (rule pm_ok_set) simp_all

lemma pm_ok_delete: "pm_ok pm \<Longrightarrow> pm_ok (pm\<lparr>peers_storage := AList.delete a (peers_storage pm)\<rparr>)"
  unfolding pm_ok_def by (auto simp: hash_map.get_del peers_distinct_def distinct_delete split: if_splits)

lemma connect_ok: "pm_ok pm \<Longrightarrow> pm_ok (snd (connect now a pm))"
  by (cases "connect now a pm") (auto dest: connect_spec(2,3) intro: pm_ok_keeps pm_ok_distinct)

text \<open>
  \<open>no_new pm pm'\<close>: no peer became connected and no connected peer changed its state. Only the
  handshake messages and new connections are not of this kind.
\<close>

definition no_new :: "peer_manager \<Rightarrow> peer_manager \<Rightarrow> bool" where
  "no_new pm pm' \<longleftrightarrow> peers_distinct pm' \<and>
     (\<forall>a c q. map_of (peers_storage pm') a = Some (Connected c q) \<longrightarrow> map_of (peers_storage pm) a = Some (Connected c q))"

lemma no_newD: "no_new pm pm' \<Longrightarrow> map_of (peers_storage pm') a = Some (Connected c q) \<Longrightarrow> map_of (peers_storage pm) a = Some (Connected c q)"
  unfolding no_new_def by blast

lemma no_new_ok: "pm_ok pm \<Longrightarrow> no_new pm pm' \<Longrightarrow> pm_ok pm'"
  unfolding pm_ok_def no_new_def by blast

lemma no_new_trans: "no_new pm1 pm2 \<Longrightarrow> no_new pm2 pm3 \<Longrightarrow> no_new pm1 pm3"
  unfolding no_new_def by blast

lemma no_new_keeps: "peers_distinct pm' \<Longrightarrow> keeps_peers pm pm' \<Longrightarrow> no_new pm pm'"
  unfolding keeps_peers_def no_new_def by blast

lemma no_new_refl: "peers_distinct pm \<Longrightarrow> no_new pm pm"
  unfolding no_new_def by blast

lemma no_new_frame [simp]:
  "no_new pm0 (pm_push outs pm) = no_new pm0 pm" "no_new pm0 (pm\<lparr>pm_upstream := q\<rparr>) = no_new pm0 pm"
  "no_new pm0 (whitelist_peer a pm) = no_new pm0 pm" "no_new pm0 (force_disconnect a r pm) = no_new pm0 pm"
  "no_new pm0 (disconnect a r pm) = no_new pm0 pm" "no_new pm0 (pm\<lparr>disconnected := d\<rparr>) = no_new pm0 pm"
  "no_new pm0 (pm\<lparr>pm_last_idle := t\<rparr>) = no_new pm0 pm" "no_new (pm\<lparr>pm_upstream := q\<rparr>) pm0 = no_new pm pm0"
  "no_new (whitelist_peer a pm) pm0 = no_new pm pm0"
  by (simp_all add: no_new_def peers_distinct_def force_disconnect_def disconnect_def)

lemma no_new_delete:
  assumes "no_new pm0 pm"
  shows "no_new pm0 (pm\<lparr>peers_storage := AList.delete a (peers_storage pm)\<rparr>)"
  using assms unfolding no_new_def by (auto simp: hash_map.get_del peers_distinct_def distinct_delete split: if_splits)

lemma connect_no_new: "peers_distinct pm \<Longrightarrow> no_new pm (snd (connect now a pm))"
  by (cases "connect now a pm") (auto dest: connect_spec(2,3) intro: no_new_keeps)

lemma connect_all_no_new: "no_new pm0 pm \<Longrightarrow> no_new pm0 (foldl (\<lambda>m a. snd (connect now a m)) pm as)"
proof (induction as arbitrary: pm)
  case (Cons a as)
  from Cons.prems have "peers_distinct pm" by (simp only: no_new_def)
  then have "no_new pm (snd (connect now a pm))" by (rule connect_no_new)
  with Cons.prems have "no_new pm0 (snd (connect now a pm))" by (rule no_new_trans)
  with Cons.IH show ?case by simp
qed simp

text \<open>What a drawing loop keeps, if it returns.\<close>

lemma drain_keeps:
  assumes "drain wanted smp f s t = Some (Inr (s', t', b))" and "Q s t"
    and "\<And>s t x s'. smp s = Inr (Some x, s') \<Longrightarrow> Q s t \<Longrightarrow> Q s' (f x t)"
    and "\<And>s t s'. smp s = Inr (None, s') \<Longrightarrow> Q s t \<Longrightarrow> Q s' t"
  shows "Q s' t'"
proof -
  let ?C = "\<lambda>wanted smp f s t r.
    (\<forall>s t x s'. smp s = Inr (Some x, s') \<longrightarrow> Q s t \<longrightarrow> Q s' (f x t)) \<longrightarrow> (\<forall>s t s'. smp s = Inr (None, s') \<longrightarrow> Q s t \<longrightarrow> Q s' t) \<longrightarrow>
    Q s t \<longrightarrow> (case r of Inl _ \<Rightarrow> True | Inr (s', t', _) \<Rightarrow> Q s' t')"
  have "?C wanted smp f s t r" if "drain wanted smp f s t = Some r" for r
  proof (rule drain.raw_induct [OF _ that, where P = ?C])
    fix drain wanted smp f s t r
    assume IH: "\<And>wanted smp f s t r. drain wanted smp f s t = Some r \<Longrightarrow> ?C wanted smp f s t r"
      and eq: "(if \<not> wanted t then Some (Inr (s, t, False))
        else case smp s of Inl e \<Rightarrow> Some (Inl e) | Inr (None, s') \<Rightarrow> Some (Inr (s', t, True))
          | Inr (Some x, s') \<Rightarrow> drain wanted smp f s' (f x t)) = Some r"
    show "?C wanted smp f s t r"
    proof (intro impI)
      assume some: "\<forall>s t x s'. smp s = Inr (Some x, s') \<longrightarrow> Q s t \<longrightarrow> Q s' (f x t)"
        and none: "\<forall>s t s'. smp s = Inr (None, s') \<longrightarrow> Q s t \<longrightarrow> Q s' t" and Q: "Q s t"
      consider (stop) "\<not> wanted t" | (err) e where "wanted t" "smp s = Inl e"
        | (none) s' where "wanted t" "smp s = Inr (None, s')" | (some) x s' where "wanted t" "smp s = Inr (Some x, s')"
        by (metis not_None_eq old.sum.exhaust surj_pair)
      then show "case r of Inl _ \<Rightarrow> True | Inr (s', t', _) \<Rightarrow> Q s' t'"
      proof cases
        case stop
        with eq Q show ?thesis by auto
      next
        case err
        with eq show ?thesis by auto
      next
        case (none s')
        with eq Q \<open>\<forall>s t s'. smp s = Inr (None, s') \<longrightarrow> Q s t \<longrightarrow> Q s' t\<close> show ?thesis by auto
      next
        case (some x s')
        then have "drain wanted smp f s' (f x t) = Some r" using eq by simp
        from IH [OF this] some Q none \<open>\<forall>s t x s'. smp s = Inr (Some x, s') \<longrightarrow> Q s t \<longrightarrow> Q s' (f x t)\<close> show ?thesis by blast
      qed
    qed
  qed
  from this [OF assms(1)] assms(2-4) show ?thesis by auto
qed

lemma no_new_connect: "no_new pm0 pm \<Longrightarrow> no_new pm0 (snd (connect now a pm))"
  using connect_all_no_new [of pm0 pm now "[a]"] by simp

lemma no_new_sampled: "no_new pm0 pm \<Longrightarrow> no_new pm0 (snd (connect_sampled A now x (conns, pm)))"
  using no_new_connect [of pm0 pm now]
  by (auto simp: connect_sampled_def split: prod.splits option.splits bool.splits) (metis snd_conv)+

lemma no_new_newcome: "no_new pm0 pm \<Longrightarrow> no_new pm0 (newcome_body A now x pm)"
  using no_new_connect [of pm0 "whitelist_peer a pm" now a for a] by (simp add: newcome_body_def split: option.splits)

lemma maintain_connections_no_new:
  assumes "maintain_connections E A now pm am = Some (Inr (pm', am'))" and "no_new pm0 pm"
  shows "no_new pm0 pm'"
proof (cases "persistent (config pm) = []")
  case False
  with assms show ?thesis by (simp add: maintain_connections_def)
next
  case True
  let ?smp = "sample_any E (length (negotiated id Outbound pm) < target_outbound_peers (config pm)) (required_services (config pm))"
  obtain am1 conns pm1 b where
    d: "drain (\<lambda>(conns, _). length conns < delta pm) ?smp (connect_sampled A now) am ([], pm) = Some (Inr (am1, (conns, pm1), b))"
    and pm': "pm' = pm1"
    using assms(1) True by (auto simp: maintain_connections_def Let_def dns_addresses_eq split: option.splits sum.splits if_splits)
  have "no_new pm0 (snd (conns, pm1))"
  proof (rule drain_keeps [OF d, where Q = "\<lambda>_ t. no_new pm0 (snd t)"])
    show "no_new pm0 (snd (connect_sampled A now x t))" if "no_new pm0 (snd t)" for t x
      using no_new_sampled [of pm0 "snd t" A now x "fst t"] that by simp
  qed (use assms(2) in simp_all)
  with pm' show ?thesis by simp
qed

lemma maintain_newcome_no_new:
  assumes "maintain_newcome E A now pm am = Some (Inr (pm', am'))" and "no_new pm0 pm"
  shows "no_new pm0 pm'"
proof -
  obtain b where "drain (\<lambda>_. True) (sample_with E newcome_source) (newcome_body A now) am pm = Some (Inr (am', pm', b))"
    using assms(1) by (auto simp: maintain_newcome_def split: option.splits sum.splits)
  then show ?thesis
    by (rule drain_keeps [where Q = "\<lambda>_. no_new pm0"]) (simp_all add: assms(2) no_new_newcome)
qed

text \<open>A disconnected peer is out, whatever else a disconnection causes.\<close>

definition pm_forget :: "socket_addr \<Rightarrow> net_disconnect \<Rightarrow> peer_manager \<Rightarrow> peer_manager" where
  "pm_forget a reason pm =
     (let pm = (if is_connected pm a then pm_push [Event (PeerEv (DisconnectedEvent a reason))] pm
        else if is_connecting pm a then
          (case reason of ConnectionError err \<Rightarrow> pm_push [Event (PeerEv (ConnectionFailed a err))] pm | _ \<Rightarrow> pm) else pm)
      in pm\<lparr>peers_storage := AList.delete a (peers_storage pm)\<rparr>)"

lemma pm_peer_disconnected_eq:
  "pm_peer_disconnected E A now a reason pm am =
     (let pm1 = pm_forget a reason pm
      in if a \<in> set (persistent (config pm1)) then Some (Inr (persistent_disconnected a now pm1, am)) else maintain_connections E A now pm1 am)"
  unfolding pm_peer_disconnected_def pm_forget_def Let_def by (rule refl)

lemma pm_forget_no_new: "peers_distinct pm \<Longrightarrow> no_new pm (pm_forget a reason pm)"
  using no_new_refl [of pm] unfolding pm_forget_def Let_def by (intro no_new_delete) (auto split: net_disconnect.splits)

lemma pm_forget_gone:
  assumes "no_new (pm_forget a reason pm) pm'"
  shows "\<not> is_connected pm' a"
proof (cases "map_of (peers_storage pm') a")
  case (Some p)
  have "map_of (peers_storage (pm_forget a reason pm)) a = None" by (simp add: pm_forget_def Let_def hash_map.get_del)
  with Some no_newD [OF assms, of a] show ?thesis by (cases p) (auto simp: is_connected_def)
qed (simp add: is_connected_def)

lemma pm_disconnected_no_new:
  assumes "pm_peer_disconnected E A now a reason pm am = Some (Inr (pm', am'))" and "peers_distinct pm"
  shows "no_new pm pm' \<and> \<not> is_connected pm' a"
proof -
  let ?pm1 = "pm_forget a reason pm"
  note pm1 = pm_forget_no_new [OF assms(2), of a reason]
  then have "no_new ?pm1 ?pm1" by (intro no_new_refl) (simp only: no_new_def)
  then have "no_new ?pm1 pm'"
    using assms(1) maintain_connections_no_new [of E A now ?pm1 am pm' am' ?pm1]
    by (auto simp: pm_peer_disconnected_eq persistent_disconnected_def Let_def split: if_splits)
  with no_new_trans [OF pm1] pm_forget_gone show ?thesis by blast
qed

lemma pm_disconnected_returns:
  assumes "peers_distinct pm" and "source_ok E am"
  shows "\<exists>pm' am'. pm_peer_disconnected E A now a reason pm am = Some (Inr (pm', am')) \<and> source_ok E am'"
proof -
  have "peers_distinct (pm_forget a reason pm)" using pm_forget_no_new [OF assms(1)] by (simp only: no_new_def)
  from maintain_connections_returns [OF assms(2) this, of A now] assms(2) show ?thesis
    by (auto simp: pm_peer_disconnected_eq Let_def)
qed

text \<open>The wake of the peer manager: the peers that are to go, then the searches.\<close>

definition pm_expired :: "(socket_addr list \<Rightarrow> socket_addr list) \<Rightarrow> (socket_addr \<Rightarrow> bool) \<Rightarrow> local_time \<Rightarrow> peer_manager \<Rightarrow> peer_manager" where
  "pm_expired it held now pm = (let m = pm_push (map (\<lambda>(a, r). Disconnect a (PeerTimeout r)) (timed_out it now pm)) pm in
    pm_push (map (\<lambda>a. Disconnect a PeerDropped)
      (map (\<lambda>(_, c). conn_addr c) (filter (\<lambda>(_, c). \<not> held (conn_addr c)) (negotiated it Outbound m)))) m)"

lemma pm_received_wake_eq:
  "pm_received_wake E A held now pm am =
     (let pm1 = pm_expired (e_ips E) held now pm
      in if IDLE_TIMEOUT \<le> since (pm_last_idle pm1) now then
           (case maintain_connections E A now pm1 am of
              Some (Inr (pm2, am2)) \<Rightarrow> maintain_newcome E A now (maintain_persistent (e_ips E) now
                ((pm_push [SetTimer IDLE_TIMEOUT] pm2)\<lparr>pm_last_idle := Some now\<rparr>)) am2
            | r \<Rightarrow> r)
         else maintain_newcome E A now (maintain_persistent (e_ips E) now pm1) am)"
  by (auto simp: pm_received_wake_def pm_expired_def Let_def split: option.splits sum.splits)

lemma pm_expired_no_new: "no_new pm0 pm \<Longrightarrow> no_new pm0 (pm_expired it held now pm)"
  by (simp add: pm_expired_def Let_def)

lemma no_new_persistent: "no_new pm0 pm \<Longrightarrow> no_new pm0 (maintain_persistent it now pm)"
  by (simp add: maintain_persistent_def Let_def connect_all_no_new)

lemma pm_wake_no_new:
  assumes "pm_received_wake E A held now pm am = Some (Inr (pm', am'))" and "peers_distinct pm"
  shows "no_new pm pm'"
  using assms(1) pm_expired_no_new [OF no_new_refl [OF assms(2)], of "e_ips E" held now]
  by (auto simp: pm_received_wake_eq Let_def
      elim!: maintain_newcome_no_new maintain_connections_no_new intro!: no_new_persistent
      split: if_splits option.splits sum.splits)

lemma maintain_newcome_from:
  assumes "no_new pm0 pm" and "source_ok E am"
  shows "\<exists>pm' am'. maintain_newcome E A now pm am = Some (Inr (pm', am')) \<and> source_ok E am'"
  using maintain_newcome_returns [OF assms(2), of pm A now] assms(1) unfolding no_new_def by blast

lemma pm_wake_returns:
  assumes "peers_distinct pm" and "source_ok E am"
  shows "\<exists>pm' am'. pm_received_wake E A held now pm am = Some (Inr (pm', am')) \<and> source_ok E am'"
proof -
  let ?pm1 = "pm_expired (e_ips E) held now pm"
  have pm1: "no_new pm ?pm1" using no_new_refl [OF assms(1)] by (rule pm_expired_no_new)
  show ?thesis
  proof (cases "IDLE_TIMEOUT \<le> since (pm_last_idle ?pm1) now")
    case False
    with maintain_newcome_from [OF no_new_persistent [OF pm1] assms(2)] show ?thesis by (simp add: pm_received_wake_eq Let_def)
  next
    case True
    have "peers_distinct ?pm1" using pm1 by (simp only: no_new_def)
    from maintain_connections_returns [OF assms(2) this, of A now] obtain pm2 am2 where
      2: "maintain_connections E A now ?pm1 am = Some (Inr (pm2, am2))" "source_ok E am2" by blast
    let ?pm3 = "(pm_push [SetTimer IDLE_TIMEOUT] pm2)\<lparr>pm_last_idle := Some now\<rparr>"
    have "no_new pm ?pm3" using maintain_connections_no_new [OF 2(1) pm1] by simp
    from maintain_newcome_from [OF no_new_persistent [OF this] 2(2)] True 2(1) show ?thesis
      by (simp add: pm_received_wake_eq Let_def)
  qed
qed

lemma pm_initialize_no_new:
  assumes "peers_distinct pm" and "source_ok E am"
  shows "\<exists>pm' am'. pm_initialize E A now pm am = Some (Inr (pm', am')) \<and> no_new pm pm' \<and> source_ok E am'"
proof -
  let ?pm = "pm_push [SetTimer IDLE_TIMEOUT] (foldl (\<lambda>m a. snd (connect now a m)) pm (persistent (config pm)))"
  have pm: "no_new pm ?pm" using assms(1) by (simp add: connect_all_no_new no_new_refl)
  then have "peers_distinct ?pm" by (simp only: no_new_def)
  from maintain_connections_returns [OF assms(2) this, of A now] obtain pm' am' where
    1: "maintain_connections E A now ?pm am = Some (Inr (pm', am'))" "source_ok E am'" by blast
  with maintain_connections_no_new [OF 1(1) pm] show ?thesis by (simp add: pm_initialize_def Let_def)
qed

section \<open>The handshake\<close>

text \<open>
  The state of a peer as the protocol sees it: it is connected, has sent its version, has
  acknowledged the YUV protocol, has finished.
\<close>

datatype hs = NotConnected | Fresh | GotVersion | GotAck | Done

fun hs_of_state :: "handshake_state \<Rightarrow> hs" where
  "hs_of_state (HsVersion _) = GotVersion"
| "hs_of_state (HsYtxidack _) = GotAck"
| "hs_of_state (HsVerack _) = Done"

fun hs_of_peer :: "peer option \<Rightarrow> hs" where
  "hs_of_peer (Some (Connected _ (Some p))) = hs_of_state (pi_state p)"
| "hs_of_peer (Some (Connected _ None)) = Fresh"
| "hs_of_peer _ = NotConnected"

definition hs_of :: "peer_manager \<Rightarrow> socket_addr \<Rightarrow> hs" where
  "hs_of pm a = hs_of_peer (map_of (peers_storage pm) a)"

lemma hs_of_frame [simp]:
  "hs_of (pm_push outs pm) a = hs_of pm a" "hs_of (pm\<lparr>pm_upstream := q\<rparr>) a = hs_of pm a"
  "hs_of (force_disconnect b r pm) a = hs_of pm a" "hs_of (disconnect b r pm) a = hs_of pm a"
  "hs_of (pm\<lparr>disconnected := d\<rparr>) a = hs_of pm a"
  by (simp_all add: hs_of_def force_disconnect_def disconnect_def)

lemma hs_of_set [simp]: "hs_of (set_peer b p pm) a = (if a = b then hs_of_peer (Some p) else hs_of pm a)"
  by (simp add: hs_of_def set_peer_eqs)

lemma no_new_hs: "no_new pm pm' \<Longrightarrow> hs_of pm' a = hs_of pm a \<or> hs_of pm' a = NotConnected"
proof (cases "map_of (peers_storage pm') a")
  case (Some p)
  assume "no_new pm pm'"
  with Some no_newD [of pm pm' a] show ?thesis by (cases p) (auto simp: hs_of_def)
qed (simp add: hs_of_def)

lemma hs_relay [simp]: "hs_of (received_wtxidrelay b pm) a = hs_of pm a" "hs_of (received_ytxidrelay A b pm) a = hs_of pm a"
  by (auto simp: received_wtxidrelay_def received_ytxidrelay_def hs_of_def [of pm a]
      split: option.splits peer.splits handshake_state.splits)

lemma hs_ytxidack: "hs_of (received_ytxidack b time pm) a = (if a = b \<and> hs_of pm b = GotVersion then GotAck else hs_of pm a)"
  by (auto simp: received_ytxidack_def hs_of_def [of pm b] split: option.splits peer.splits handshake_state.splits)

lemma hs_verack: "hs_of (snd (received_verack b time pm)) a = (if a = b \<and> hs_of pm b = GotAck then Done else hs_of pm a)"
  by (auto simp: received_verack_def hs_of_def [of pm b] Let_def split: option.splits peer.splits handshake_state.splits)

lemma hs_connected: "hs_of (snd (pm_peer_connected E A now b local l pm)) a = (if a = b then Fresh else hs_of pm a)"
  by (simp add: pm_peer_connected_def Let_def split: link.splits)

lemma received_version_cases:
  assumes "pm_ok pm" and "received_version A now b v pm am = (pm', am')"
  obtains (same) "peers_storage pm' = peers_storage pm" "am' = am"
  | (got) c info where "\<exists>q. map_of (peers_storage pm) b = Some (Connected c q)"
      "peers_storage pm' = peers_storage (set_peer b (Connected c (Some info)) pm)" "pi_state info = HsVersion now"
      "am' = (case x_socket_addr A (vm_receiver v) of None \<Rightarrow> am | Some us \<Rightarrow> record_local_address us am)"
proof -
  show ?thesis
  proof (cases "\<exists>c q. map_of (peers_storage pm) b = Some (Connected c q)")
    case False
    then have "received_version A now b v pm am = (pm, am)"
      by (auto simp: received_version_def handle_version_def split: option.splits peer.splits)
    with assms(2) same show ?thesis by simp
  next
    case True
    then obtain c q where c: "map_of (peers_storage pm) b = Some (Connected c q)" by blast
    note addr = pm_okD [OF assms(1) c]
    have "peers_storage pm' = peers_storage pm \<and> am' = am \<or>
      (\<exists>info. peers_storage pm' = AList.update b (Connected c (Some info)) (peers_storage pm) \<and> pi_state info = HsVersion now \<and>
        am' = (case x_socket_addr A (vm_receiver v) of None \<Rightarrow> am | Some us \<Rightarrow> record_local_address us am))"
      using assms(2)
      by (auto simp: received_version_def handle_version_def c addr Let_def force_disconnect_def set_peer_def
          split: if_splits link.splits)
    with same got [of c] c show ?thesis by (auto simp: set_peer_def)
  qed
qed

lemma received_version_pm_ok:
  assumes "pm_ok pm" and "received_version A now a v pm am = (pm', am')"
  shows "pm_ok pm'"
  using assms
proof (cases rule: received_version_cases)
  case same
  with assms pm_ok_cong [OF same(1)] show ?thesis by simp
next
  case (got c info)
  then have "conn_addr c = a" using pm_okD [OF assms(1)] by blast
  then have "pm_ok (set_peer a (Connected c (Some info)) pm)" by (intro pm_ok_set [OF assms(1)]) simp
  then show ?thesis using pm_ok_cong [OF got(2)] by simp
qed

lemma received_version_ok:
  assumes "pm_ok pm" and "am_ok am" and "received_version A now a v pm am = (pm', am')"
  shows "am_ok am'"
  using assms(1,3)
proof (cases rule: received_version_cases)
  case (got c info)
  then show ?thesis using assms(2) by (simp split: option.splits)
qed (use assms(2) in simp)

lemma handshake_ok:
  assumes "pm_ok pm"
  shows "pm_ok (received_wtxidrelay a pm)" "pm_ok (received_ytxidrelay A a pm)" "pm_ok (received_ytxidack a time pm)"
    "pm_ok (snd (received_verack a time pm))" "pm_ok (snd (pm_peer_connected E A now a local l pm))"
  using assms pm_okD [OF assms, of a]
  by (auto simp: received_wtxidrelay_def received_ytxidrelay_def received_ytxidack_def received_verack_def pm_peer_connected_def
      Let_def pm_ok_set_connected split: option.splits peer.splits handshake_state.splits link.splits)

section \<open>Every call returns\<close>

definition machine_ok :: "machine \<Rightarrow> bool" where
  "machine_ok mc \<longleftrightarrow> am_ok (addrmgr mc) \<and> pm_ok (peermgr mc)"

lemmas share_defs = load_am_def store_am_def load_pm_def store_pm_def load_ping_def store_ping_def
  load_inv_def store_inv_def store_both_def push_def

lemma store_eqs [simp]:
  "addrmgr (store_am mc am) = am" "peermgr (store_am mc am) = peermgr mc" "peermgr (store_pm mc pm) = pm"
  "addrmgr (store_pm mc pm) = addrmgr mc" "addrmgr (store_ping mc pg) = addrmgr mc" "peermgr (store_ping mc pg) = peermgr mc"
  "addrmgr (store_inv mc iv) = addrmgr mc" "peermgr (store_inv mc iv) = peermgr mc"
  "addrmgr (store_both mc (pm, am)) = am" "peermgr (store_both mc (pm, am)) = pm"
  "addrmgr (push outs mc) = addrmgr mc" "peermgr (push outs mc) = peermgr mc"
  "load_pm mc = (peermgr mc)\<lparr>pm_upstream := outbox mc\<rparr>" "load_am mc = (addrmgr mc)\<lparr>am_upstream := outbox mc\<rparr>"
  by (simp_all add: share_defs)

fun safe_event :: "addr_env \<Rightarrow> p2p_ext \<Rightarrow> machine_event \<Rightarrow> machine \<Rightarrow> bool" where
  "safe_event E A (EvConnected a local l) mc \<longleftrightarrow>
     is_banned a (addrmgr mc) \<or> safe_peer E A a (record_local_address local (addrmgr mc))"
| "safe_event E A _ mc \<longleftrightarrow> True"

text \<open>Every call that returns keeps the peers well formed. Only messages and new connections change the state of a peer.\<close>

lemma payload_pm_ok:
  assumes "pm_ok (peermgr mc)" and "handle_payload E A now a msg mc = Inr mc'"
  shows "pm_ok (peermgr mc')"
proof (cases msg)
  case (Version v)
  obtain pm' am' where v: "received_version A (local_time mc) a v (load_pm mc) (addrmgr mc) = (pm', am')" by fastforce
  with received_version_pm_ok [OF _ v] assms show ?thesis by (auto simp: Version)
next
  case Verack
  obtain r pm' where v: "received_verack a (last_tick mc) (load_pm mc) = (r, pm')"
    by (cases "received_verack a (last_tick mc) (load_pm mc)")
  have "pm_ok pm'" using handshake_ok(4) [of "load_pm mc" a "last_tick mc"] assms(1) v by simp
  with v assms(2) show ?thesis by (cases r) (auto simp: Verack Let_def)
next
  case (Ping n)
  with assms show ?thesis by (auto simp: Let_def split: prod.splits if_splits)
next
  case (Pong n)
  with assms show ?thesis by (auto simp: Let_def split: prod.splits if_splits)
qed (use assms handshake_ok in \<open>auto simp: result_simps\<close>)

lemma map_sum_eq_Inr: "map_sum f g r = Inr y \<longleftrightarrow> (\<exists>x. r = Inr x \<and> g x = y)"
  by (cases r) auto

lemma machine_disconnected_no_new:
  assumes "machine_disconnected E A a r mc = Some (Inr mc')" and "pm_ok (peermgr mc)"
  shows "no_new (peermgr mc) (peermgr mc') \<and> \<not> is_connected (peermgr mc') a"
proof -
  have "peers_distinct ((peermgr mc)\<lparr>pm_upstream := q\<rparr>)" for q using pm_ok_distinct [OF assms(2)] by (simp add: peers_distinct_def)
  with assms(1) show ?thesis
    by (auto simp: machine_disconnected_def Let_def map_sum_eq_Inr dest!: pm_disconnected_no_new)
qed

lemma timer_expired_no_new:
  assumes "timer_expired E A mc = Some (Inr mc')" and "pm_ok (peermgr mc)"
  shows "no_new (peermgr mc) (peermgr mc')"
proof -
  have "peers_distinct ((peermgr mc)\<lparr>pm_upstream := q\<rparr>)" for q using pm_ok_distinct [OF assms(2)] by (simp add: peers_distinct_def)
  with assms(1) show ?thesis
    by (auto simp: timer_expired_def Let_def map_sum_eq_Inr dest!: pm_wake_no_new split: sum.splits)
qed

lemma command_no_new:
  assumes "command E A c mc = Inr (r, mc')" and "pm_ok (peermgr mc)"
  shows "no_new (peermgr mc) (peermgr mc')"
proof -
  have same: "no_new (peermgr mc) (peermgr mc)" using assms(2) by (simp add: no_new_refl pm_ok_distinct)
  show ?thesis
  proof (cases c)
    case (CmdConnect a)
    with assms(1) no_new_connect [of "peermgr mc" "whitelist_peer a (load_pm mc)"] same show ?thesis by auto
  qed (use assms(1) same in \<open>auto simp: machine_disconnect_def broadcast_def send_to_def query_def Let_def result_simps split: if_splits\<close>)
qed

lemma connected_pm_ok:
  assumes "machine_connected E A a local l mc = Inr (b, mc')" and "pm_ok (peermgr mc)"
  shows "pm_ok (peermgr mc')"
  using assms handshake_ok(5) [of "load_pm mc" E A "local_time mc" a local l]
  by (auto simp: machine_connected_def Let_def bindE_def split: if_splits prod.splits bool.splits sum.splits)

lemma step_pm_ok:
  assumes "machine_step E A ev mc = Some (Inr mc')" and "pm_ok (peermgr mc)"
  shows "pm_ok (peermgr mc')"
proof (cases ev)
  case (EvMessage a msg)
  let ?mc = "if rm_magic msg \<noteq> network_magic A (mc_network mc) then machine_disconnect a (PeerMagic (rm_magic msg)) mc else mc"
  have "pm_ok (peermgr ?mc)" using assms(2) by (simp add: machine_disconnect_def)
  with payload_pm_ok [of ?mc E A "local_time mc" a "rm_payload msg" mc'] assms(1) show ?thesis
    by (auto simp: EvMessage message_received_def Let_def split: if_splits)
next
  case (EvConnected a local l)
  with assms connected_pm_ok show ?thesis by (fastforce simp: map_sum_eq_Inr)
next
  case (EvDisconnected a r)
  with assms machine_disconnected_no_new no_new_ok show ?thesis by fastforce
next
  case EvTimer
  with assms timer_expired_no_new no_new_ok show ?thesis by fastforce
next
  case (EvCommand c)
  with assms command_no_new no_new_ok show ?thesis by (fastforce simp: map_sum_eq_Inr)
qed (use assms in \<open>auto simp: attempted_def tick_def\<close>)

lemma handle_payload_ok:
  assumes "env_ok E" and "machine_ok mc"
  shows "\<exists>mc'. handle_payload E A now a msg mc = Inr mc' \<and> machine_ok mc'"
proof -
  have am: "am_ok (addrmgr mc)" and pm: "pm_ok (peermgr mc)" using assms(2) by (simp_all add: machine_ok_def)
  have src: "book_wf (addrmgr mc)" using am by (simp add: am_ok_def)
  show ?thesis
  proof (cases msg)
    case (Addr addrs)
    obtain am' where "received_addr E A a addrs (load_am mc) = Inr am'" "am_ok am'"
      using received_addr_ok [OF assms(1), of "load_am mc" A a addrs] am by auto
    with pm show ?thesis by (simp add: Addr machine_ok_def)
  next
    case GetAddr
    obtain addrs where "received_getaddr E a (load_am mc) = Inr (am_push [am_message (load_am mc) a (Addr addrs)] (load_am mc))"
      using received_getaddr_ok [OF assms(1), of "load_am mc" a] src by auto
    with am pm show ?thesis by (simp add: GetAddr machine_ok_def)
  next
    case (Version v)
    obtain pm' am' where v: "received_version A (local_time mc) a v (load_pm mc) (addrmgr mc) = (pm', am')" by fastforce
    with received_version_ok [OF _ am v] received_version_pm_ok [OF _ v] pm show ?thesis by (simp add: Version machine_ok_def)
  next
    case Verack
    obtain r pm' where v: "received_verack a (last_tick mc) (load_pm mc) = (r, pm')"
      by (cases "received_verack a (last_tick mc) (load_pm mc)")
    have "pm_ok pm'" using handshake_ok(4) [of "load_pm mc" a "last_tick mc"] pm v by simp
    with v am show ?thesis by (cases r) (auto simp: Verack machine_ok_def am_negotiated_ok Let_def)
  next
    case (Ping n)
    with am pm show ?thesis by (simp add: machine_ok_def peer_active_def Let_def split: prod.splits)
  next
    case (Pong n)
    with am pm show ?thesis by (simp add: machine_ok_def peer_active_def Let_def split: prod.splits)
  qed (use am pm handshake_ok in \<open>simp_all add: machine_ok_def\<close>)
qed

lemma machine_disconnected_ok:
  assumes "env_ok E" and "machine_ok mc"
  shows "\<exists>mc'. machine_disconnected E A a r mc = Some (Inr mc') \<and> machine_ok mc'"
proof -
  have am: "am_ok (addrmgr mc)" and pm: "pm_ok (peermgr mc)" using assms(2) by (simp_all add: machine_ok_def)
  define mc1 where "mc1 = (let mc1 = store_am mc (am_peer_disconnected a r (load_am mc))
    in store_ping mc1 (ping_disconnected a (load_ping mc1)))"
  have 1: "peers_distinct (load_pm mc1)" "source_ok E (addrmgr mc1)"
    using am pm assms(1) by (simp_all add: mc1_def Let_def source_ok_iff am_disconnected_ok pm_ok_distinct)
  from pm_disconnected_returns [OF this, of A "local_time mc1" a r] obtain pm' am' where
    2: "pm_peer_disconnected E A (local_time mc1) a r (load_pm mc1) (addrmgr mc1) = Some (Inr (pm', am'))" "source_ok E am'" by blast
  let ?mc' = "let mc2 = store_both mc1 (pm', am') in store_inv mc2 (inv_disconnected a (load_inv mc2))"
  have step: "machine_disconnected E A a r mc = Some (Inr ?mc')"
    using 2(1) unfolding machine_disconnected_def mc1_def Let_def by simp
  then have "machine_step E A (EvDisconnected a r) mc = Some (Inr ?mc')" by simp
  from step_pm_ok [OF this pm] 2(2) step show ?thesis by (simp add: machine_ok_def source_ok_iff Let_def)
qed

lemma timer_expired_ok:
  assumes "env_ok E" and "machine_ok mc"
  shows "\<exists>mc'. timer_expired E A mc = Some (Inr mc') \<and> machine_ok mc'"
proof -
  define mc1 where "mc1 = store_ping mc (ping_received_wake (e_ips E) (e_nonce E) (local_time mc) (load_ping mc))"
  have am: "am_ok (addrmgr mc1)" and pm: "pm_ok (peermgr mc)" "pm_ok (peermgr mc1)"
    using assms(2) by (simp_all add: machine_ok_def mc1_def)
  from am_wake_ok [of "load_am mc1" E "local_time mc1"] am obtain am1 where
    1: "am_received_wake E (local_time mc1) (load_am mc1) = Inr am1" "am_ok am1" by auto
  define mc2 where "mc2 = store_am mc1 am1"
  have 2: "peers_distinct (load_pm mc2)" "source_ok E (addrmgr mc2)"
    using pm 1(2) assms(1) by (simp_all add: mc2_def source_ok_iff pm_ok_distinct)
  from pm_wake_returns [OF this, of A "\<lambda>a. inv_is_connected a (invmgr mc2)" "local_time mc2"] obtain pm' am' where
    3: "pm_received_wake E A (\<lambda>a. inv_is_connected a (invmgr mc2)) (local_time mc2) (load_pm mc2) (addrmgr mc2) = Some (Inr (pm', am'))"
      "source_ok E am'" by blast
  let ?mc' = "let mc3 = store_both mc2 (pm', am') in
    if secs 10 \<le> local_time mc3 - last_tick mc3 then mc3\<lparr>last_tick := local_time mc3\<rparr> else mc3"
  have step: "timer_expired E A mc = Some (Inr ?mc')"
    using 1(1) 3(1) unfolding timer_expired_def mc1_def [symmetric] Let_def mc2_def by simp
  then have "machine_step E A EvTimer mc = Some (Inr ?mc')" by simp
  from step_pm_ok [OF this pm(1)] 3(2) step show ?thesis by (simp add: machine_ok_def source_ok_iff Let_def)
qed

lemma machine_connected_ok:
  assumes "env_ok E" and "machine_ok mc" and "safe_event E A (EvConnected a local l) mc"
  shows "\<exists>b mc'. machine_connected E A a local l mc = Inr (b, mc') \<and> machine_ok mc'"
proof (cases "is_banned a (addrmgr mc)")
  case True
  with assms(2) show ?thesis by (auto simp: machine_connected_def)
next
  case False
  have am: "am_ok (addrmgr mc)" and pm: "pm_ok (peermgr mc)" using assms(2) by (simp_all add: machine_ok_def)
  obtain pm' where c: "pm_peer_connected E A (local_time mc) a local l (load_pm mc) = (False, pm')"
    by (simp add: pm_peer_connected_def Let_def)
  have pm': "pm_ok pm'" using handshake_ok(5) [of "load_pm mc" E A "local_time mc" a local l] pm c by simp
  let ?am = "record_local_address local (load_am (store_pm mc pm'))"
  have "safe_peer E A a ?am"
    using assms(3) False by (simp add: safe_peer_def record_local_address_def range_of_def)
  moreover have "ip a \<notin> set (bans ?am)" using False by (simp add: is_banned_def record_local_address_def)
  ultimately obtain am' where "am_peer_connected E A a ?am = Inr am'" "am_ok am'"
    using am_connected_ok [OF assms(1), of ?am A a] am by auto
  with False c pm' show ?thesis by (auto simp: machine_connected_def machine_ok_def Let_def)
qed

lemma command_ok:
  assumes "env_ok E" and "machine_ok mc"
  shows "\<exists>r mc'. command E A c mc = Inr (r, mc') \<and> machine_ok mc'"
proof -
  have am: "am_ok (addrmgr mc)" and pm: "pm_ok (peermgr mc)" using assms(2) by (simp_all add: machine_ok_def)
  show ?thesis
  proof (cases c)
    case (CmdImportAddresses addrs)
    obtain am' where "insert_addresses E A (map (\<lambda>a. (0, a)) addrs) Imported (load_am mc) = Inr am'" "am_ok am'"
      using insert_addresses_ok [OF assms(1), of "load_am mc" A] am by auto
    with pm show ?thesis by (simp add: CmdImportAddresses machine_ok_def)
  next
    case (CmdConnect a)
    with am pm show ?thesis by (simp add: machine_ok_def connect_ok)
  qed (use am pm in \<open>simp_all add: machine_ok_def machine_disconnect_def broadcast_def send_to_def query_def
      am_disconnected_ok Let_def\<close>)
qed

lemma machine_step_ok:
  assumes "env_ok E" and "machine_ok mc" and "safe_event E A ev mc"
  shows "\<exists>mc'. machine_step E A ev mc = Some (Inr mc') \<and> machine_ok mc'"
proof (cases ev)
  case (EvMessage a msg)
  let ?mc = "if rm_magic msg \<noteq> network_magic A (mc_network mc) then machine_disconnect a (PeerMagic (rm_magic msg)) mc else mc"
  have "machine_ok ?mc" using assms(2) by (simp add: machine_ok_def machine_disconnect_def)
  then show ?thesis
    using handle_payload_ok [OF assms(1), of ?mc A "local_time mc" a "rm_payload msg"]
    by (auto simp: EvMessage message_received_def Let_def)
next
  case (EvConnected a local l)
  with machine_connected_ok [OF assms(1,2), of A a local l] assms(3) show ?thesis by auto
next
  case (EvCommand c)
  with command_ok [OF assms(1,2), of A c] show ?thesis by auto
next
  case (EvDisconnected a r)
  with machine_disconnected_ok [OF assms(1,2), of A a r] show ?thesis by auto
next
  case EvTimer
  with timer_expired_ok [OF assms(1,2), of A] show ?thesis by auto
qed (use assms in \<open>auto simp: machine_ok_def attempted_def am_peer_attempted_def tick_def\<close>)

text \<open>A machine that has been made and initialised is in such a state.\<close>

lemma initialize_ok:
  assumes "env_ok E" and "env_ok E'" and "distinct (map fst ps)"
  shows "\<exists>mc. initialize E A time (new_machine E' A ps clk cfg) = Some (Inr mc) \<and> machine_ok mc \<and>
    (\<forall>a. hs_of (peermgr mc) a = NotConnected)"
proof -
  define mc1 where "mc1 = (let mc = new_machine E' A ps clk cfg; mc = mc\<lparr>clock := set_local_time time (clock mc)\<rparr>;
    mc = push [Event Initializing] mc in store_am mc (am_initialize (local_time mc) (load_am mc)))"
  have am: "source_ok E (addrmgr mc1)" and st: "peers_storage (peermgr mc1) = []"
    using assms new_book_wf [OF assms(2,3)]
    by (simp_all add: mc1_def new_machine_def Let_def am_initialize_def source_ok_iff new_peer_manager_def)
  then have "peers_distinct (load_pm mc1)" by (simp add: peers_distinct_def)
  from pm_initialize_no_new [OF this am, of A "local_time mc1"] obtain pm' am' where
    1: "pm_initialize E A (local_time mc1) (load_pm mc1) (addrmgr mc1) = Some (Inr (pm', am'))"
      "no_new (peermgr mc1) pm'" "source_ok E am'" by auto
  have "pm_ok (peermgr mc1)" using st by (simp add: pm_ok_def peers_distinct_def)
  with no_new_ok 1(2,3) have "machine_ok (push [Event (Ready 0 0 time)] (store_both mc1 (pm', am')))"
    by (simp add: machine_ok_def source_ok_iff)
  moreover have "hs_of pm' a = NotConnected" for a
    using no_new_hs [OF 1(2), of a] st by (auto simp: hs_of_def)
  moreover have "initialize E A time (new_machine E' A ps clk cfg) = Some (Inr (push [Event (Ready 0 0 time)] (store_both mc1 (pm', am'))))"
    using 1(1) unfolding initialize_def mc1_def Let_def by simp
  ultimately show ?thesis by simp
qed

section \<open>Runs\<close>

text \<open>
  A run of the machine: any calls, in any environments, that do not panic. Each call is listed with
  the machine it was made on.
\<close>

inductive machine_run :: "p2p_ext \<Rightarrow> machine \<Rightarrow> (machine \<times> machine_event) list \<Rightarrow> machine \<Rightarrow> bool" for A mc0 where
  start: "machine_run A mc0 [] mc0"
| call: "machine_run A mc0 calls mc \<Longrightarrow> machine_step E A ev mc = Some (Inr mc') \<Longrightarrow> machine_run A mc0 (calls @ [(mc, ev)]) mc'"

text \<open>
  How the state of a peer changes with a call: a connection that is not refused makes it fresh, a
  disconnection forgets it, and only the message the protocol expects next takes it further.
\<close>

fun hs_next :: "machine \<Rightarrow> machine_event \<Rightarrow> socket_addr \<Rightarrow> hs \<Rightarrow> hs \<Rightarrow> bool" where
  "hs_next mc (EvConnected b _ _) a s s' \<longleftrightarrow> s' = (if b = a \<and> \<not> is_banned a (addrmgr mc) then Fresh else s)"
| "hs_next mc (EvMessage b msg) a s s' \<longleftrightarrow> s' = s \<or> b = a \<and>
     (case rm_payload msg of
        Version _ \<Rightarrow> s \<noteq> NotConnected \<and> s' = GotVersion
      | Ytxidack \<Rightarrow> s = GotVersion \<and> s' = GotAck
      | Verack \<Rightarrow> s = GotAck \<and> s' = Done
      | _ \<Rightarrow> False)"
| "hs_next mc (EvDisconnected b _) a s s' \<longleftrightarrow> (s' = s \<and> b \<noteq> a) \<or> s' = NotConnected"
| "hs_next mc _ a s s' \<longleftrightarrow> s' = s \<or> s' = NotConnected"

lemma not_connected_hs: "\<not> is_connected pm a \<Longrightarrow> hs_of pm a = NotConnected"
  by (auto simp: is_connected_def hs_of_def split: option.splits elim: is_connecting_peer.elims)

lemma payload_hs:
  assumes "pm_ok (peermgr mc)" and "handle_payload E A now b msg mc = Inr mc'"
  shows "hs_of (peermgr mc') a = hs_of (peermgr mc) a \<or> b = a \<and>
     (case msg of
        Version _ \<Rightarrow> hs_of (peermgr mc) a \<noteq> NotConnected \<and> hs_of (peermgr mc') a = GotVersion
      | Ytxidack \<Rightarrow> hs_of (peermgr mc) a = GotVersion \<and> hs_of (peermgr mc') a = GotAck
      | Verack \<Rightarrow> hs_of (peermgr mc) a = GotAck \<and> hs_of (peermgr mc') a = Done
      | _ \<Rightarrow> False)"
proof (cases msg)
  case (Version v)
  obtain pm' am' where v: "received_version A (local_time mc) b v (load_pm mc) (addrmgr mc) = (pm', am')" by fastforce
  then have mc': "peermgr mc' = pm'" using assms(2) by (auto simp: Version)
  have "pm_ok (load_pm mc)" using assms(1) by simp
  from this v show ?thesis
  proof (cases rule: received_version_cases)
    case same
    then show ?thesis by (simp add: mc' hs_of_def)
  next
    case (got c info)
    have "hs_of pm' a = hs_of (set_peer b (Connected c (Some info)) (load_pm mc)) a" using got(2) by (simp add: hs_of_def)
    moreover have "hs_of (peermgr mc) b \<noteq> NotConnected"
      using got(1) by (auto simp: hs_of_def) (metis hs_of_peer.simps(1,2) hs_of_state.simps hs.distinct handshake_state.exhaust not_None_eq)
    ultimately show ?thesis using got(3) by (auto simp: mc' Version)
  qed
next
  case Verack
  obtain r pm' where v: "received_verack b (last_tick mc) (load_pm mc) = (r, pm')"
    by (cases "received_verack b (last_tick mc) (load_pm mc)")
  have "peermgr mc' = pm'" using assms(2) v by (cases r) (auto simp: Verack Let_def)
  with hs_verack [of b "last_tick mc" "load_pm mc" a] v show ?thesis by (auto simp: Verack split: if_splits)
next
  case Ytxidack
  with assms(2) hs_ytxidack [of b "last_tick mc" "load_pm mc" a] show ?thesis by (auto split: if_splits)
next
  case (Ping n)
  with assms(2) show ?thesis by (auto simp: Let_def split: prod.splits if_splits)
next
  case (Pong n)
  with assms(2) show ?thesis by (auto simp: Let_def split: prod.splits if_splits)
qed (use assms(2) in \<open>auto simp: result_simps\<close>)

lemma step_hs:
  assumes "pm_ok (peermgr mc)" and "machine_step E A ev mc = Some (Inr mc')"
  shows "hs_next mc ev a (hs_of (peermgr mc) a) (hs_of (peermgr mc') a)"
proof (cases ev)
  case (EvMessage b msg)
  define mc1 where "mc1 = (if rm_magic msg \<noteq> network_magic A (mc_network mc) then machine_disconnect b (PeerMagic (rm_magic msg)) mc else mc)"
  have step: "message_received E A b msg mc =
      (if \<not> is_connected (peermgr mc1) b then Inr mc1 else handle_payload E A (local_time mc) b (rm_payload msg) mc1)"
    by (simp add: message_received_def mc1_def Let_def)
  have hs: "hs_of (peermgr mc1) c = hs_of (peermgr mc) c" for c by (simp add: mc1_def machine_disconnect_def)
  have "pm_ok (peermgr mc1)" using assms(1) by (simp add: mc1_def machine_disconnect_def)
  note payload = payload_hs [OF this, of E A "local_time mc" b "rm_payload msg" mc' a, unfolded hs]
  show ?thesis
  proof (cases "is_connected (peermgr mc1) b")
    case True
    with assms(2) have "handle_payload E A (local_time mc) b (rm_payload msg) mc1 = Inr mc'" by (simp add: EvMessage step)
    from payload [OF this] show ?thesis by (simp only: EvMessage hs_next.simps)
  next
    case False
    with assms(2) have "mc' = mc1" by (simp add: EvMessage step)
    then show ?thesis by (simp add: EvMessage hs)
  qed
next
  case (EvDisconnected b r)
  with machine_disconnected_no_new [of E A b r mc mc'] assms have
    "no_new (peermgr mc) (peermgr mc')" "\<not> is_connected (peermgr mc') b" by auto
  with no_new_hs [of _ "peermgr mc'" a] show ?thesis by (auto simp: EvDisconnected not_connected_hs)
next
  case (EvConnected b local l)
  have "is_banned b (addrmgr mc) = is_banned a (addrmgr mc)" if "b = a" using that by simp
  with EvConnected assms(2) hs_connected [of E A "local_time mc" b local l "load_pm mc" a] show ?thesis
    by (auto simp: machine_connected_def Let_def bindE_def split: if_splits prod.splits bool.splits sum.splits)
next
  case EvTimer
  with timer_expired_no_new [of E A mc mc'] assms no_new_hs [of "peermgr mc" "peermgr mc'" a] show ?thesis by auto
next
  case (EvCommand c)
  with command_no_new [of E A c mc _ mc'] assms no_new_hs [of "peermgr mc" "peermgr mc'" a] show ?thesis
    by (auto simp: map_sum_eq_Inr)
qed (use assms(2) in \<open>auto simp: attempted_def tick_def\<close>)

text \<open>What the calls of a run mean for the handshake with a peer. A connection that is refused is none.\<close>

datatype hs_kind = KConnect | KDisconnect | KVersion | KAck | KVerack

fun kind_of :: "socket_addr \<Rightarrow> machine \<times> machine_event \<Rightarrow> hs_kind option" where
  "kind_of a (mc, EvConnected b _ _) = (if b = a \<and> \<not> is_banned a (addrmgr mc) then Some KConnect else None)"
| "kind_of a (mc, EvDisconnected b _) = (if b = a then Some KDisconnect else None)"
| "kind_of a (mc, EvMessage b msg) =
     (if b = a then (case rm_payload msg of Version _ \<Rightarrow> Some KVersion | Ytxidack \<Rightarrow> Some KAck | Verack \<Rightarrow> Some KVerack | _ \<Rightarrow> None)
      else None)"
| "kind_of a _ = None"

definition trace :: "socket_addr \<Rightarrow> (machine \<times> machine_event) list \<Rightarrow> hs_kind list" where
  "trace a calls = List.map_filter (kind_of a) calls"

fun hs_path :: "hs \<Rightarrow> hs_kind list" where
  "hs_path NotConnected = []"
| "hs_path Fresh = []"
| "hs_path GotVersion = [KVersion]"
| "hs_path GotAck = [KVersion, KAck]"
| "hs_path Done = [KVersion, KAck, KVerack]"

lemma trace_snoc: "trace a (calls @ [c]) = trace a calls @ (case kind_of a c of None \<Rightarrow> [] | Some k \<Rightarrow> [k])"
  by (simp add: trace_def List.map_filter_def split: option.splits)

text \<open>\<open>since_connect path ks\<close>: the peer has connected, and the last connection was followed by \<open>path\<close> and by no disconnection.\<close>

definition since_connect :: "hs_kind list \<Rightarrow> hs_kind list \<Rightarrow> bool" where
  "since_connect path ks \<longleftrightarrow>
     (\<exists>pre post. ks = pre @ KConnect # post \<and> KConnect \<notin> set post \<and> KDisconnect \<notin> set post \<and> subseq path post)"

lemma since_connect_grow:
  assumes "since_connect path ks" and "KConnect \<notin> set ks'" and "KDisconnect \<notin> set ks'" and "subseq us path" and "subseq vs ks'"
  shows "since_connect (us @ vs) (ks @ ks')"
proof -
  obtain pre post where "ks = pre @ KConnect # post" "KConnect \<notin> set post" "KDisconnect \<notin> set post" "subseq path post"
    using assms(1) by (auto simp: since_connect_def)
  with assms(2-5) subseq_order.trans [OF assms(4)] show ?thesis
    unfolding since_connect_def by (intro exI [of _ pre] exI [of _ "post @ ks'"]) (auto intro: list_emb_append_mono)
qed

lemma hs_trace_step:
  assumes "hs_next mc ev a s s'" and "s' \<noteq> NotConnected" and "s \<noteq> NotConnected \<Longrightarrow> since_connect (hs_path s) (trace a calls)"
  shows "since_connect (hs_path s') (trace a (calls @ [(mc, ev)]))"
proof -
  let ?ks = "case kind_of a (mc, ev) of None \<Rightarrow> [] | Some k \<Rightarrow> [k]"
  have grow: "since_connect (us @ vs) (trace a (calls @ [(mc, ev)]))"
    if "s \<noteq> NotConnected" "KConnect \<notin> set ?ks" "KDisconnect \<notin> set ?ks" "subseq us (hs_path s)" "subseq vs ?ks" for us vs
    using since_connect_grow [OF assms(3) [OF that(1)] that(2-5)] by (simp only: trace_snoc)
  show ?thesis
  proof (cases ev)
    case (EvConnected b local l)
    show ?thesis
    proof (cases "b = a \<and> \<not> is_banned a (addrmgr mc)")
      case True
      with EvConnected assms(1) show ?thesis
        unfolding since_connect_def by (intro exI [of _ "trace a calls"] exI [of _ "[]"]) (simp add: trace_snoc)
    next
      case False
      with EvConnected assms(1,2) grow [of "hs_path s" "[]"] show ?thesis by auto
    qed
  next
    case (EvMessage b msg)
    have ks: "KConnect \<notin> set ?ks" "KDisconnect \<notin> set ?ks" by (auto simp: EvMessage split: network_message.splits)
    show ?thesis
    proof (cases "s' = s")
      case True
      with ks assms(2) grow [of "hs_path s" "[]"] show ?thesis by simp
    next
      case False
      with EvMessage ks assms(1,2) grow [of "[]" "[KVersion]"] grow [of "[KVersion]" "[KAck]"] grow [of "[KVersion, KAck]" "[KVerack]"]
      show ?thesis by (auto split: network_message.splits)
    qed
  qed (use assms(1,2) grow [of "hs_path s" "[]"] in auto)
qed

lemma hs_traced:
  assumes "machine_run A mc0 calls mc" and "pm_ok (peermgr mc0)" and "hs_of (peermgr mc0) a = NotConnected"
  shows "pm_ok (peermgr mc) \<and> (hs_of (peermgr mc) a \<noteq> NotConnected \<longrightarrow> since_connect (hs_path (hs_of (peermgr mc) a)) (trace a calls))"
  using assms(1)
proof induction
  case start
  with assms(2,3) show ?case by simp
next
  case (call calls mc E ev mc')
  then have "hs_next mc ev a (hs_of (peermgr mc) a) (hs_of (peermgr mc') a)" by (intro step_hs) auto
  then show ?case using call step_pm_ok hs_trace_step by blast
qed

lemma set_map_filter: "set (List.map_filter f xs) = {y. \<exists>x\<in>set xs. f x = Some y}"
  by (induction xs) (auto simp: map_filter_simps split: option.splits)

lemma in_peersE:
  assumes "(p, c) \<in> set (peers it m)"
  obtains a where "map_of (peers_storage m) a = Some (Connected c (Some p))"
proof -
  obtain a where "(case map_of (peers_storage m) a of Some (Connected conn (Some q)) \<Rightarrow> Some (q, conn) | _ \<Rightarrow> None) = Some (p, c)"
    using assms by (auto simp: peers_def set_map_filter)
  with that [of a] show thesis by (simp split: option.splits peer.splits)
qed

lemma broadcast_negotiated:
  assumes "pm_ok (peermgr mc)" and "a \<in> set (fst (broadcast E A msg P mc))"
  shows "hs_of (peermgr mc) a = Done"
proof -
  obtain p c where pc: "(p, c) \<in> set (peers (e_ips E) (peermgr mc))" "is_negotiated p" "conn_addr c = a"
    using assms(2) by (auto simp: broadcast_def remote_peer_from_def Let_def)
  then obtain b where b: "map_of (peers_storage (peermgr mc)) b = Some (Connected c (Some p))"
    by (auto elim: in_peersE)
  with pc pm_okD [OF assms(1) b] show ?thesis by (auto simp: hs_of_def split: handshake_state.splits)
qed

end
