(* ===== verification/P2p_Runs.thy ===== *)
theory P2p_Runs
  imports P2p_Safety "HOL-Library.Code_Target_Nat"
begin

text \<open>
  Runs of the state machine: bans are for good, and the one way in which the machine panics. A
  sample machine goes through them; its numbers are evaluated as binary integers.
\<close>

section \<open>Bans\<close>

lemma bans_frame [simp]:
  "bans (am_push outs am) = bans am" "bans (am_own outs am) = bans am" "bans (idle now am) = bans am"
  "bans (modify_known a f am) = bans am" "bans (record_local_address a am) = bans am" "bans (get_addresses E am) = bans am"
  by (auto simp: am_push_def am_own_def idle_def modify_known_def record_local_address_def get_addresses_def split: option.splits)

lemma insert_address_bans [simp]: "bans (insert_address E A src time am e) = bans am"
  by (auto simp: insert_address_def split: prod.splits option.splits)

lemma foldl_insert_bans [simp]: "bans (foldl (insert_address E A src time) am es) = bans am"
  by (induction es arbitrary: am) simp_all

lemma insert_addresses_bans: "insert_addresses E A es src am = Inr am' \<Longrightarrow> bans am' = bans am"
  by (auto simp: insert_addresses_def result_simps)

lemma sample_range_bans: "sample_range P time am as = Inr (Some (x, am')) \<Longrightarrow> bans am' = bans am"
  by (induction as) (auto split: option.splits if_splits)

lemma sample_ranges_bans: "sample_ranges E P time am rs = Inr (x, am') \<Longrightarrow> bans am' = bans am"
  by (induction rs) (auto simp: result_simps dest: sample_range_bans split: option.splits if_splits)

lemma sample_with_bans: "sample_with E P am = Inr (x, am') \<Longrightarrow> bans am' = bans am"
  by (auto simp: sample_with_def result_simps dest: sample_ranges_bans split: if_splits)

lemma sample_any_bans: "sample_any E need sv am = Inr (x, am') \<Longrightarrow> bans am' = bans am"
  by (auto simp: sample_any_def sample_def result_simps dest!: sample_with_bans split: if_splits prod.splits)

lemma maintain_connections_bans: "maintain_connections E A now pm am = Some (Inr (pm', am')) \<Longrightarrow> bans am' = bans am"
  by (auto simp: maintain_connections_def Let_def dns_addresses_eq
      elim!: drain_keeps [where Q = "\<lambda>am' _. bans am' = bans am"] dest!: sample_any_bans split: option.splits sum.splits if_splits)

lemma maintain_newcome_bans: "maintain_newcome E A now pm am = Some (Inr (pm', am')) \<Longrightarrow> bans am' = bans am"
  by (auto simp: maintain_newcome_def elim!: drain_keeps [where Q = "\<lambda>am' _. bans am' = bans am"] dest!: sample_with_bans
      split: option.splits sum.splits)

lemma pm_disconnected_bans: "pm_peer_disconnected E A now a r pm am = Some (Inr (pm', am')) \<Longrightarrow> bans am' = bans am"
  unfolding pm_peer_disconnected_def Let_def by (auto dest: maintain_connections_bans split: if_splits)

lemma pm_wake_bans: "pm_received_wake E A held now pm am = Some (Inr (pm', am')) \<Longrightarrow> bans am' = bans am"
  unfolding pm_received_wake_def Let_def
  by (auto dest!: maintain_connections_bans maintain_newcome_bans split: if_splits option.splits sum.splits)

lemma handle_version_bans: "handle_version A now a v pm am = (r, pm', am') \<Longrightarrow> bans am' = bans am"
  unfolding handle_version_def Let_def by (auto split: option.splits peer.splits if_splits)

lemma received_version_bans [simp]: "bans (snd (received_version A now a v pm am)) = bans am"
  by (auto simp: received_version_def dest: handle_version_bans split: prod.splits sum.splits)

lemma ban_bans: "set (bans am) \<subseteq> set (bans (snd (ban a am)))"
  by (auto simp: ban_def Let_def hs_insert_def split: option.splits)

lemma am_disconnected_bans: "set (bans am) \<subseteq> set (bans (am_peer_disconnected a r am))"
  using ban_bans [of "am\<lparr>am_connected := hs_remove a (am_connected am), am_sources := hs_remove a (am_sources am)\<rparr>" a]
  by (simp add: am_peer_disconnected_def Let_def)

lemma am_negotiated_bans [simp]: "bans (am_peer_negotiated A now a sv am) = bans am"
  by (auto simp: am_peer_negotiated_def Let_def split: option.splits)

lemma am_wake_bans: "am_received_wake E now am = Inr am' \<Longrightarrow> bans am' = bans am"
  by (auto simp: am_received_wake_def Let_def result_simps split: if_splits)

lemma store_both_fst [simp]: "addrmgr (store_both mc r) = snd r"
  by (cases r) simp

lemma payload_bans: "handle_payload E A now a msg mc = Inr mc' \<Longrightarrow> bans (addrmgr mc') = bans (addrmgr mc)"
  by (cases msg)
    (auto simp: Let_def result_simps peer_active_def received_addr_def received_getaddr_def dest!: insert_addresses_bans
      split: prod.splits option.splits if_splits)

lemma step_bans:
  assumes "machine_step E A ev mc = Some (Inr mc')"
  shows "set (bans (addrmgr mc)) \<subseteq> set (bans (addrmgr mc'))"
proof (cases ev)
  case (EvMessage a msg)
  with assms show ?thesis
    by (auto simp: message_received_def machine_disconnect_def Let_def dest!: payload_bans split: if_splits)
next
  case (EvConnected a local l)
  with assms show ?thesis
    by (auto simp: machine_connected_def am_peer_connected_def Let_def bindE_def dest!: insert_addresses_bans
        split: if_splits prod.splits bool.splits sum.splits)
next
  case (EvDisconnected a r)
  with assms show ?thesis
    using am_disconnected_bans [of "load_am mc" a r]
    by (auto simp: machine_disconnected_def Let_def map_sum_eq_Inr dest!: pm_disconnected_bans)
next
  case EvTimer
  with assms show ?thesis
    by (auto simp: timer_expired_def Let_def map_sum_eq_Inr dest!: am_wake_bans pm_wake_bans split: sum.splits)
next
  case (EvCommand c)
  with assms show ?thesis
    using subsetD [OF am_disconnected_bans [of "load_am mc" _ PeerBanned]]
    by (cases c) (auto simp: Let_def broadcast_def query_def send_to_def machine_disconnect_def result_simps bindE_def
        dest!: insert_addresses_bans split: if_splits sum.splits)
qed (use assms in \<open>auto simp: attempted_def am_peer_attempted_def tick_def\<close>)

lemma run_bans: "machine_run A mc calls mc' \<Longrightarrow> set (bans (addrmgr mc)) \<subseteq> set (bans (addrmgr mc'))"
  by (induction rule: machine_run.induct) (auto dest: step_bans)

lemma ban_peer_bans:
  assumes "command E A (CmdBanPeer a) mc = Inr (r, mc')" and "a \<in> set (am_connected (addrmgr mc))" and "ranged (addrmgr mc) a"
  shows "ip a \<in> set (bans (addrmgr mc'))"
proof -
  have "map_of (address_ranges (addrmgr mc)) (addr_key (ip a)) \<noteq> None"
    using assms(3) by (cases "map_of (address_ranges (addrmgr mc)) (addr_key (ip a))") (simp_all add: ranged_def range_of_def)
  with assms(1,2) show ?thesis by (auto simp: am_peer_disconnected_def ban_def Let_def)
qed

section \<open>Phantom addresses\<close>

lemma mapE_error:
  assumes "x \<in> set xs" and "f x = Inl e" and "\<And>x. x \<in> set xs \<Longrightarrow> is_ok (f x) \<or> f x = Inl e"
  shows "mapE f xs = Inl e"
  using assms
proof (induction xs)
  case (Cons y ys)
  show ?case
  proof (cases "f y = Inl e")
    case False
    with Cons.prems(3) [of y] obtain z where "f y = Inr z" by (auto simp: is_ok_iff)
    with Cons show ?thesis by auto
  qed simp
qed simp

text \<open>
  An address of ours that connects is put into its range and not into the book, and the next
  peer that asks for addresses makes the manager look it up.
\<close>

lemma phantom_getaddr:
  assumes "env_ok E" and "env_ok E'" and "am_ok am" and "a \<in> set (local_addrs am)" and "map_of (known am) a = None"
    and "x_socket_addr A (x_address_new A a NO_SERVICES) = Some a" and "range_of am (addr_key (ip a)) = []"
  shows "\<exists>am'. am_peer_connected E A a am = Inr am' \<and> (\<forall>q. received_getaddr E' from (am'\<lparr>am_upstream := q\<rparr>) = Inl AddressMustExist)"
proof -
  obtain time where am: "book_wf am" "last_idle am = Some time" using assms(3) by (auto simp: am_ok_def)
  let ?k = "addr_key (ip a)"
  define am' where "am' = am\<lparr>address_ranges := AList.update ?k [a] (address_ranges am), am_connected := hs_insert a (am_connected am)\<rparr>"
  have "insert_addresses E A [(of_nat (e_now E div 1000), x_address_new A a NO_SERVICES)] (SourcePeer a) am = Inr am"
    using assms(4,6) am(2) by (simp add: insert_addresses_def insert_address_def)
  then have con: "am_peer_connected E A a am = Inr am'"
    using assms(7) by (simp add: am_peer_connected_def populate_address_ranges_def am'_def Let_def MAX_RANGE_SIZE_def hs_insert_def)
  have rng: "range_of am' k = (if k = ?k then [a] else range_of am k)" and known: "known am' = known am" for k
    by (simp_all add: am'_def range_of_def hash_map.get_put)
  have entry: "getaddr_entry E' am' ?k = Inl AddressMustExist"
    using env_okD(1) [OF assms(2), of "[a]"] assms(5) by (simp add: getaddr_entry_def rng known Let_def)
  have "is_ok (getaddr_entry E' am' k) \<or> getaddr_entry E' am' k = Inl AddressMustExist"
    if "k \<in> set (e_ranges E' (map fst (address_ranges am')))" for k
  proof (cases "k = ?k")
    case False
    with that have "map_of (address_ranges am) k \<noteq> None"
      by (auto simp: walk_set [OF env_okD(3) [OF assms(2)]] am'_def map_of_eq_None_iff dom_update)
    then have "range_of am k \<noteq> []" using book_wfD(1) [OF am(1)] by (auto simp: ranges_wf_def range_of_def)
    then have "range_of am' k \<noteq> []" using False by (simp add: rng)
    then show ?thesis by (auto simp: getaddr_entry_def Let_def ok_or_def split: option.splits)
  qed (use entry in simp)
  moreover have "?k \<in> set (e_ranges E' (map fst (address_ranges am')))"
    by (simp add: walk_set [OF env_okD(3) [OF assms(2)]] am'_def dom_update)
  ultimately have "mapE (getaddr_entry E' am') (e_ranges E' (map fst (address_ranges am'))) = Inl AddressMustExist"
    using entry by (blast intro: mapE_error)
  moreover have "getaddr_entry E' (am'\<lparr>am_upstream := q\<rparr>) = getaddr_entry E' am'" for q
    by (simp add: getaddr_entry_def range_of_def fun_eq_iff Let_def)
  ultimately show ?thesis using con by (simp add: received_getaddr_def)
qed

lemma version_recorded:
  assumes "handle_version A now b v pm am = (Inr (), pm', am')" and "is_connected pm b" and "x_socket_addr A (vm_receiver v) = Some a"
  shows "am' = record_local_address a am"
proof -
  obtain c q where "map_of (peers_storage pm) b = Some (Connected c q)"
    using assms(2) by (auto simp: is_connected_def split: option.splits elim: is_connecting_peer.elims)
  with assms(1,3) show ?thesis unfolding handle_version_def Let_def by (auto split: if_splits)
qed

lemma connected_answer: "fst (pm_peer_connected E A now a local l pm) = False"
  by (simp add: pm_peer_connected_def Let_def)

lemma phantom_run:
  assumes "env_ok E" and "env_ok E'" and "machine_ok mc" and "is_connected (peermgr mc) b"
    and "fst (handle_version A (local_time mc) b v (load_pm mc) (addrmgr mc)) = Inr ()"
    and "x_socket_addr A (vm_receiver v) = Some a" and "x_socket_addr A (x_address_new A a NO_SERVICES) = Some a"
    and "map_of (known (addrmgr mc)) a = None" and "range_of (addrmgr mc) (addr_key (ip a)) = []" and "\<not> is_banned a (addrmgr mc)"
  shows "\<exists>mc1 mc2.
    message_received E A b \<lparr>rm_magic = network_magic A (mc_network mc), rm_payload = Version v\<rparr> mc = Inr mc1 \<and>
    machine_connected E A a local l mc1 = Inr (True, mc2) \<and>
    message_received E' A a \<lparr>rm_magic = network_magic A (mc_network mc), rm_payload = GetAddr\<rparr> mc2 = Inl AddressMustExist"
proof -
  obtain pm1 am1 where v: "handle_version A (local_time mc) b v (load_pm mc) (addrmgr mc) = (Inr (), pm1, am1)"
    using assms(5) by (metis prod.collapse)
  have con: "is_connected (load_pm mc) b" using assms(4) by (simp add: is_connected_def)
  have am1: "am1 = record_local_address a (addrmgr mc)" by (rule version_recorded [OF v con assms(6)])
  define mc1 where "mc1 = store_both mc (pm1, am1)"
  have 1: "message_received E A b \<lparr>rm_magic = network_magic A (mc_network mc), rm_payload = Version v\<rparr> mc = Inr mc1"
    using v assms(4) by (simp add: message_received_def received_version_def mc1_def)
  obtain pm2 where p: "pm_peer_connected E A (local_time mc1) a local l (load_pm mc1) = (False, pm2)"
    using connected_answer [of E A "local_time mc1" a local l "load_pm mc1"] by (metis prod.collapse)
  have "hs_of pm2 a = Fresh" using hs_connected [of E A "local_time mc1" a local l "load_pm mc1" a] p by simp
  then have con2: "is_connected pm2 a" using not_connected_hs [of pm2 a] by auto
  define am where "am = record_local_address local (load_am (store_pm mc1 pm2))"
  have "am_ok am" using assms(3) by (simp add: am_def mc1_def am1 machine_ok_def)
  moreover have "a \<in> set (local_addrs am)" by (simp add: am_def mc1_def am1 record_local_address_def hs_insert_def)
  moreover have "map_of (known am) a = None" using assms(8) by (simp add: am_def mc1_def am1 record_local_address_def)
  moreover have "range_of am (addr_key (ip a)) = []"
    using assms(9) by (simp add: am_def mc1_def am1 record_local_address_def range_of_def)
  ultimately obtain am2 where am2: "am_peer_connected E A a am = Inr am2"
      "\<And>q. received_getaddr E' a (am2\<lparr>am_upstream := q\<rparr>) = Inl AddressMustExist"
    using phantom_getaddr [OF assms(1,2), of am a A a] assms(7) by blast
  have ban: "\<not> is_banned a (addrmgr mc1)" using assms(10) by (simp add: mc1_def am1 is_banned_def)
  have 2: "machine_connected E A a local l mc1 = Inr (True, store_am (store_pm mc1 pm2) am2)"
    using p ban am2(1) by (simp add: machine_connected_def am_def Let_def)
  have net: "mc_network (store_am (store_pm mc1 pm2) am2) = mc_network mc" by (simp add: mc1_def share_defs)
  have "message_received E' A a \<lparr>rm_magic = network_magic A (mc_network mc), rm_payload = GetAddr\<rparr> (store_am (store_pm mc1 pm2) am2) = Inl AddressMustExist"
    using con2 am2(2) by (simp add: message_received_def net)
  with 1 2 show ?thesis by blast
qed

section \<open>A sample machine\<close>

definition sample_peer_addr :: socket_addr where
  "sample_peer_addr = book_addr 1"

definition sample_local :: socket_addr where
  "sample_local = SocketAddr (V4 80 200 1 1) 8333"

definition sample_config :: machine_config where
  "sample_config = (default_machine_config ''yuv'')\<lparr>mcfg_connect := [sample_peer_addr]\<rparr>"

definition sample_machine :: machine where
  "sample_machine =
     (case initialize sample_env sample_p2p_ext 1700000000000
        (new_machine sample_env sample_p2p_ext [] (new_adjusted_time 0) sample_config) of
        Some (Inr mc) \<Rightarrow> mc
      | _ \<Rightarrow> new_machine sample_env sample_p2p_ext [] (new_adjusted_time 0) sample_config)"

lemma sample_machine_ok: "machine_ok sample_machine" "hs_of (peermgr sample_machine) a = NotConnected"
  using initialize_ok [OF sample_env_ok sample_env_ok, of "[]" sample_p2p_ext 1700000000000 "new_adjusted_time 0" sample_config]
  by (auto simp: sample_machine_def)

text \<open>The calls of a list, one after the other, in one environment.\<close>

fun machine_calls :: "addr_env \<Rightarrow> p2p_ext \<Rightarrow> machine_event list \<Rightarrow> machine \<Rightarrow> (panic + machine) option" where
  "machine_calls E A [] mc = Some (Inr mc)"
| "machine_calls E A (ev # evs) mc =
     (case machine_step E A ev mc of
        Some (Inr mc') \<Rightarrow> machine_calls E A evs mc'
      | r \<Rightarrow> r)"

definition sample_version :: version_message where
  "sample_version = \<lparr>vm_version = PROTOCOL_VERSION, vm_services = NETWORK_SERVICE, vm_timestamp = 0,
     vm_receiver = x_address_new sample_p2p_ext sample_local 0, vm_sender = x_address_new sample_p2p_ext sample_peer_addr 0,
     vm_nonce = 9, vm_user_agent = ''yuv'', vm_start_height = 0, vm_relay = False\<rparr>"

definition sample_message :: "network_message \<Rightarrow> machine_event" where
  "sample_message m = EvMessage sample_peer_addr \<lparr>rm_magic = [0xF9, 0xBE, 0xB4, 0xD9], rm_payload = m\<rparr>"

definition sample_run :: "machine_event list" where
  "sample_run = [EvConnected sample_peer_addr sample_local Outbound, sample_message (Version sample_version), sample_message Ytxidack, sample_message Verack]"

lemma calls_run:
  assumes "machine_run A mc0 calls0 mc" and "machine_calls E A evs mc = Some (Inr mc')"
  shows "\<exists>calls. machine_run A mc0 calls mc' \<and> map snd calls = map snd calls0 @ evs"
  using assms
proof (induction evs arbitrary: calls0 mc)
  case Nil
  then show ?case by auto
next
  case (Cons ev evs)
  obtain mc1 where "machine_step E A ev mc = Some (Inr mc1)" "machine_calls E A evs mc1 = Some (Inr mc')"
    using Cons.prems(2) by (auto split: option.splits sum.splits)
  with Cons.IH [of "calls0 @ [(mc, ev)]" mc1] machine_run.call [OF Cons.prems(1)] show ?case by simp
qed

lemma sample_run_ok:
  "case machine_calls sample_env sample_p2p_ext sample_run sample_machine of
     Some (Inr mc) \<Rightarrow> sample_peer_addr \<in> set (fst (broadcast sample_env sample_p2p_ext GetAddr (\<lambda>_. True) mc)) \<and>
       sample_peer_addr \<in> set (am_connected (addrmgr mc)) \<and> ranged (addrmgr mc) sample_peer_addr
   | _ \<Rightarrow> False"
  by code_simp

lemma sample_runE:
  obtains mc calls where "machine_calls sample_env sample_p2p_ext sample_run sample_machine = Some (Inr mc)"
    "machine_run sample_p2p_ext sample_machine calls mc" "map snd calls = sample_run"
    "sample_peer_addr \<in> set (fst (broadcast sample_env sample_p2p_ext GetAddr (\<lambda>_. True) mc))"
    "sample_peer_addr \<in> set (am_connected (addrmgr mc))" "ranged (addrmgr mc) sample_peer_addr"
proof -
  obtain mc where mc: "machine_calls sample_env sample_p2p_ext sample_run sample_machine = Some (Inr mc)"
    "sample_peer_addr \<in> set (fst (broadcast sample_env sample_p2p_ext GetAddr (\<lambda>_. True) mc))"
    "sample_peer_addr \<in> set (am_connected (addrmgr mc))" "ranged (addrmgr mc) sample_peer_addr"
    using sample_run_ok by (auto split: option.splits sum.splits)
  with calls_run [OF machine_run.start mc(1)] that show thesis by auto
qed

section \<open>Properties\<close>

text \<open>C11. As long as the address book is well formed, no call of the reactor and no command of the user
  panics or runs forever, and each leaves the book well formed. The only call this is not known
  of is the report of a connection with a peer that cannot be taken in safely: whose address is
  one of ours, or whose range is nearly full, or at a time when the clock is far ahead.
\<close>

theorem machine_never_panics:
  assumes "env_ok E" and "machine_ok mc" and "safe_event E A ev mc"
  shows "\<exists>mc'. machine_step E A ev mc = Some (Inr mc') \<and> machine_ok mc'"
  by (rule machine_step_ok [OF assms])

theorem machine_never_panics_witness:
  "\<exists>mc'. machine_step sample_env sample_p2p_ext (EvConnected sample_peer_addr sample_local Outbound) sample_machine = Some (Inr mc') \<and>
     machine_ok mc'"
  by (rule machine_never_panics [OF sample_env_ok sample_machine_ok(1)]) code_simp

text \<open>C9. Over all runs of calls that do not panic, a broadcast only reaches peers that went through the whole
  handshake, in its order, since they last connected: after the last connection of the peer that
  was not refused, its version, the acknowledgement of the YUV protocol and the final
  acknowledgement were received one after the other, and it was not disconnected since. The run
  starts with a machine in which the peer is not connected and every peer is stored under its own
  address.
\<close>

theorem broadcast_after_handshake:
  assumes "machine_run A mc0 calls mc" and "pm_ok (peermgr mc0)" and "hs_of (peermgr mc0) a = NotConnected"
    and "a \<in> set (fst (broadcast E A msg P mc))"
  shows "\<exists>pre post. trace a calls = pre @ KConnect # post \<and> KConnect \<notin> set post \<and> KDisconnect \<notin> set post \<and>
    subseq [KVersion, KAck, KVerack] post"
  using hs_traced [OF assms(1-3)] broadcast_negotiated [OF _ assms(4)] by (auto simp: since_connect_def)

theorem broadcast_after_handshake_witness:
  "\<exists>mc calls pre post. machine_run sample_p2p_ext sample_machine calls mc \<and> map snd calls = sample_run \<and>
     sample_peer_addr \<in> set (fst (broadcast sample_env sample_p2p_ext GetAddr (\<lambda>_. True) mc)) \<and>
     trace sample_peer_addr calls = pre @ KConnect # post \<and> KConnect \<notin> set post \<and> KDisconnect \<notin> set post \<and>
     subseq [KVersion, KAck, KVerack] post"
proof (rule sample_runE)
  fix mc calls
  assume run: "machine_run sample_p2p_ext sample_machine calls mc" "map snd calls = sample_run"
    "sample_peer_addr \<in> set (fst (broadcast sample_env sample_p2p_ext GetAddr (\<lambda>_. True) mc))"
  have "pm_ok (peermgr sample_machine)" using sample_machine_ok(1) by (simp add: machine_ok_def)
  from broadcast_after_handshake [OF run(1) this sample_machine_ok(2) run(3)] run show ?thesis by blast
qed

text \<open>C22. A ban is for good. Once the user bans a peer that is connected and whose address is in its range of
  the address book, every later connection from its IP address, whatever the port and whatever
  calls that did not panic were made in between, is refused and changes nothing.
\<close>

theorem banned_stays_out:
  assumes "command E A (CmdBanPeer a) mc = Inr (r, mc1)" and "a \<in> set (am_connected (addrmgr mc))" and "ranged (addrmgr mc) a"
    and "machine_run A mc1 calls mc2" and "ip b = ip a"
  shows "machine_connected E' A b local l mc2 = Inr (False, mc2)"
  using ban_peer_bans [OF assms(1-3)] run_bans [OF assms(4)] assms(5) by (auto simp: machine_connected_def is_banned_def)

theorem banned_stays_out_witness:
  "\<exists>mc mc1. machine_calls sample_env sample_p2p_ext sample_run sample_machine = Some (Inr mc) \<and>
     command sample_env sample_p2p_ext (CmdBanPeer sample_peer_addr) mc = Inr (NoReply, mc1) \<and>
     machine_connected sample_env sample_p2p_ext (SocketAddr (ip sample_peer_addr) 1) sample_local Inbound mc1 = Inr (False, mc1)"
proof (rule sample_runE)
  fix mc calls
  assume mc: "machine_calls sample_env sample_p2p_ext sample_run sample_machine = Some (Inr mc)"
    "sample_peer_addr \<in> set (am_connected (addrmgr mc))" "ranged (addrmgr mc) sample_peer_addr"
  obtain mc1 where ban: "command sample_env sample_p2p_ext (CmdBanPeer sample_peer_addr) mc = Inr (NoReply, mc1)"
    by (simp add: Let_def)
  have "machine_connected sample_env sample_p2p_ext (SocketAddr (ip sample_peer_addr) 1) sample_local Inbound mc1 = Inr (False, mc1)"
    by (rule banned_stays_out [OF ban mc(2,3) machine_run.start]) simp
  with mc(1) ban show ?thesis by blast
qed

text \<open>C23. The machine can be made to panic from outside. A connected peer whose version message is
  accepted names any address as ours; when that address then connects and asks for addresses,
  the address manager looks up an address that is in a range and not in the book.
\<close>

theorem phantom_address_panics:
  assumes "env_ok E" and "env_ok E'" and "machine_ok mc" and "is_connected (peermgr mc) b"
    and "fst (handle_version A (local_time mc) b v (load_pm mc) (addrmgr mc)) = Inr ()"
    and "x_socket_addr A (vm_receiver v) = Some a" and "x_socket_addr A (x_address_new A a NO_SERVICES) = Some a"
    and "map_of (known (addrmgr mc)) a = None" and "range_of (addrmgr mc) (addr_key (ip a)) = []" and "\<not> is_banned a (addrmgr mc)"
  shows "\<exists>mc1 mc2.
    message_received E A b \<lparr>rm_magic = network_magic A (mc_network mc), rm_payload = Version v\<rparr> mc = Inr mc1 \<and>
    machine_connected E A a local l mc1 = Inr (True, mc2) \<and>
    message_received E' A a \<lparr>rm_magic = network_magic A (mc_network mc), rm_payload = GetAddr\<rparr> mc2 = Inl AddressMustExist"
  by (rule phantom_run [OF assms])

definition phantom_addr :: socket_addr where
  "phantom_addr = SocketAddr (V4 90 9 9 9) 8333"

definition phantom_version :: version_message where
  "phantom_version = sample_version\<lparr>vm_receiver := x_address_new sample_p2p_ext phantom_addr 0\<rparr>"

lemma phantom_ok:
  "case machine_step sample_env sample_p2p_ext (EvConnected sample_peer_addr sample_local Outbound) sample_machine of
     Some (Inr mc) \<Rightarrow> is_connected (peermgr mc) sample_peer_addr \<and>
       fst (handle_version sample_p2p_ext (local_time mc) sample_peer_addr phantom_version (load_pm mc) (addrmgr mc)) = Inr () \<and>
       map_of (known (addrmgr mc)) phantom_addr = None \<and> range_of (addrmgr mc) (addr_key (ip phantom_addr)) = [] \<and>
       \<not> is_banned phantom_addr (addrmgr mc)
   | _ \<Rightarrow> False"
  "x_socket_addr sample_p2p_ext (vm_receiver phantom_version) = Some phantom_addr"
  "x_socket_addr sample_p2p_ext (x_address_new sample_p2p_ext phantom_addr NO_SERVICES) = Some phantom_addr"
  by code_simp+

theorem phantom_address_panics_witness:
  "\<exists>mc mc1 mc2.
    machine_step sample_env sample_p2p_ext (EvConnected sample_peer_addr sample_local Outbound) sample_machine = Some (Inr mc) \<and>
    message_received sample_env sample_p2p_ext sample_peer_addr
      \<lparr>rm_magic = network_magic sample_p2p_ext (mc_network mc), rm_payload = Version phantom_version\<rparr> mc = Inr mc1 \<and>
    machine_connected sample_env sample_p2p_ext phantom_addr sample_local Inbound mc1 = Inr (True, mc2) \<and>
    message_received sample_env sample_p2p_ext phantom_addr
      \<lparr>rm_magic = network_magic sample_p2p_ext (mc_network mc), rm_payload = GetAddr\<rparr> mc2 = Inl AddressMustExist"
proof -
  have "safe_event sample_env sample_p2p_ext (EvConnected sample_peer_addr sample_local Outbound) sample_machine" by code_simp
  from machine_step_ok [OF sample_env_ok sample_machine_ok(1) this] obtain mc where
    mc: "machine_step sample_env sample_p2p_ext (EvConnected sample_peer_addr sample_local Outbound) sample_machine = Some (Inr mc)"
      "machine_ok mc" by blast
  with phantom_ok(1) show ?thesis
    using phantom_address_panics [OF sample_env_ok sample_env_ok mc(2) _ _ phantom_ok(2,3), of sample_peer_addr sample_local Inbound] by auto
qed

end
