(* ===== verification/P2p_Service.thy ===== *)
theory P2p_Service
  imports P2p_Runs
begin

text \<open>
  The service of the peer-to-peer client (\<open>p2p/src/client/service.rs\<close>) and its stream decoder
  (\<open>client/stream.rs\<close>): the bytes of a peer are buffered, decoded and handed to the state
  machine. \<open>dec\<close> is the decoder of a message. The \<open>n\<close>-th message the service decodes is handled
  in the environment \<open>Es n\<close>.
\<close>

section \<open>The stream decoder\<close>

definition decode_next :: "'a decoder \<Rightarrow> bytes \<Rightarrow> (decode_error + 'a option) \<times> bytes" where
  "decode_next dec unparsed =
     (case dec unparsed of
        Inr (msg, rest) \<Rightarrow> (Inr (Some msg), rest)
      | Inl (Io UnexpectedEof) \<Rightarrow> (Inr None, unparsed)
      | Inl err \<Rightarrow> (Inl err, unparsed))"

section \<open>The service\<close>

record p2p_service =
  inboxes :: "(socket_addr \<times> bytes) list"
  sv_machine :: machine

definition new_service ::
  "addr_env \<Rightarrow> p2p_ext \<Rightarrow> (socket_addr \<times> known_address) list \<Rightarrow> adjusted_time \<Rightarrow> network \<Rightarrow> socket_addr list \<Rightarrow>
   string \<Rightarrow> limits \<Rightarrow> string \<Rightarrow> p2p_service" where
  "new_service E A ps clk net conn agent lim default_agent =
     \<lparr>inboxes = [],
      sv_machine = new_machine E A ps clk ((default_machine_config default_agent)
        \<lparr>mcfg_network := net, mcfg_connect := conn, mcfg_user_agent := agent, mcfg_limits := lim\<rparr>)\<rparr>"

partial_function (option) receive_loop ::
  "(nat \<Rightarrow> addr_env) \<Rightarrow> p2p_ext \<Rightarrow> raw_network_message decoder \<Rightarrow> socket_addr \<Rightarrow> nat \<Rightarrow> bytes \<Rightarrow> machine \<Rightarrow>
   (panic + nat \<times> bytes \<times> machine) option" where
  "receive_loop Es A dec a n unparsed mc =
     (case decode_next dec unparsed of
        (Inr (Some msg), rest) \<Rightarrow>
          (case message_received (Es n) A a msg mc of
             Inl p \<Rightarrow> Some (Inl p)
           | Inr mc' \<Rightarrow> receive_loop Es A dec a (Suc n) rest mc')
      | (Inr None, rest) \<Rightarrow> Some (Inr (n, rest, mc))
      | (Inl err, rest) \<Rightarrow> Some (Inr (n, rest, machine_disconnect a DecodeError mc)))"

definition service_message ::
  "(nat \<Rightarrow> addr_env) \<Rightarrow> p2p_ext \<Rightarrow> raw_network_message decoder \<Rightarrow> socket_addr \<Rightarrow> bytes \<Rightarrow> nat \<Rightarrow> p2p_service \<Rightarrow>
   (panic + nat \<times> p2p_service) option" where
  "service_message Es A dec a bytes n sv =
     (case map_of (inboxes sv) a of
        None \<Rightarrow> Some (Inr (n, sv))
      | Some unparsed \<Rightarrow>
          map_option (map_sum id (\<lambda>(n, unparsed, mc).
              (n, sv\<lparr>inboxes := AList.update a unparsed (inboxes sv), sv_machine := mc\<rparr>)))
            (receive_loop Es A dec a n (unparsed @ bytes) (sv_machine sv)))"

definition service_connected ::
  "addr_env \<Rightarrow> p2p_ext \<Rightarrow> socket_addr \<Rightarrow> socket_addr \<Rightarrow> link \<Rightarrow> p2p_service \<Rightarrow> panic + bool \<times> p2p_service" where
  "service_connected E A a local l sv =
     bindE (machine_connected E A a local l (sv_machine sv)) (\<lambda>(ok, mc).
       let sv = sv\<lparr>sv_machine := mc\<rparr>
       in Inr (if ok then (True, sv\<lparr>inboxes := AList.update a [] (inboxes sv)\<rparr>) else (False, sv)))"

definition service_disconnected ::
  "addr_env \<Rightarrow> p2p_ext \<Rightarrow> socket_addr \<Rightarrow> net_disconnect \<Rightarrow> p2p_service \<Rightarrow> (panic + p2p_service) option" where
  "service_disconnected E A a reason sv =
     map_option (map_sum id (\<lambda>mc. \<lparr>inboxes = AList.delete a (inboxes sv), sv_machine = mc\<rparr>))
       (machine_disconnected E A a reason (sv_machine sv))"

definition service_is_disconnected :: "socket_addr \<Rightarrow> p2p_service \<Rightarrow> bool" where
  "service_is_disconnected a sv \<longleftrightarrow> map_of (inboxes sv) a = None \<or> machine_is_disconnected a (sv_machine sv)"

definition service_is_connected :: "socket_addr \<Rightarrow> p2p_service \<Rightarrow> bool" where
  "service_is_connected a sv \<longleftrightarrow> map_of (inboxes sv) a \<noteq> None \<or> machine_is_connected a (sv_machine sv)"

text \<open>The other calls are handed through.\<close>

definition service_initialize :: "addr_env \<Rightarrow> p2p_ext \<Rightarrow> local_time \<Rightarrow> p2p_service \<Rightarrow> (panic + p2p_service) option" where
  "service_initialize E A time sv =
     map_option (map_sum id (\<lambda>mc. sv\<lparr>sv_machine := mc\<rparr>)) (initialize E A time (sv_machine sv))"

definition service_command :: "addr_env \<Rightarrow> p2p_ext \<Rightarrow> machine_command \<Rightarrow> p2p_service \<Rightarrow> panic + p2p_service" where
  "service_command E A c sv = map_sum id (\<lambda>(_, mc). sv\<lparr>sv_machine := mc\<rparr>) (command E A c (sv_machine sv))"

definition service_attempted :: "socket_addr \<Rightarrow> p2p_service \<Rightarrow> p2p_service" where
  "service_attempted a sv = sv\<lparr>sv_machine := attempted a (sv_machine sv)\<rparr>"

definition service_tick :: "local_time \<Rightarrow> p2p_service \<Rightarrow> p2p_service" where
  "service_tick time sv = sv\<lparr>sv_machine := tick time (sv_machine sv)\<rparr>"

definition service_timer_expired :: "addr_env \<Rightarrow> p2p_ext \<Rightarrow> p2p_service \<Rightarrow> (panic + p2p_service) option" where
  "service_timer_expired E A sv =
     map_option (map_sum id (\<lambda>mc. sv\<lparr>sv_machine := mc\<rparr>)) (timer_expired E A (sv_machine sv))"

datatype service_io =
    WriteBytes socket_addr bytes
  | ServiceConnect socket_addr
  | ServiceDisconnect socket_addr disconnect_reason
  | ServiceTimer local_duration
  | ServiceEvent p2p_event

fun encode_io :: "(raw_network_message \<Rightarrow> bytes) \<Rightarrow> p2p_io \<Rightarrow> service_io" where
  "encode_io enc (Write a msg) = WriteBytes a (enc msg)"
| "encode_io enc (Event e) = ServiceEvent e"
| "encode_io enc (Connect a) = ServiceConnect a"
| "encode_io enc (Disconnect a r) = ServiceDisconnect a r"
| "encode_io enc (SetTimer d) = ServiceTimer d"

definition service_next :: "(raw_network_message \<Rightarrow> bytes) \<Rightarrow> p2p_service \<Rightarrow> service_io option \<times> p2p_service" where
  "service_next enc sv =
     (case outbox (sv_machine sv) of
        [] \<Rightarrow> (None, sv)
      | out # outs \<Rightarrow> (Some (encode_io enc out), sv\<lparr>sv_machine := (sv_machine sv)\<lparr>outbox := outs\<rparr>\<rparr>))"

section \<open>Streams\<close>

text \<open>
  A format that can be read from a stream: a value that has not arrived completely is reported as
  an unexpected end, and so is the empty stream.
\<close>

locale stream_codec = codec +
  assumes dec_short: "ok x \<Longrightarrow> enc x = p @ q \<Longrightarrow> q \<noteq> [] \<Longrightarrow> dec p = Inl (Io UnexpectedEof)"
begin

lemma decode_next_enc: "ok x \<Longrightarrow> decode_next dec (enc x @ rest) = (Inr (Some x), rest)"
  by (simp add: decode_next_def dec_enc)

lemma decode_next_short: "ok x \<Longrightarrow> enc x = p @ q \<Longrightarrow> q \<noteq> [] \<Longrightarrow> decode_next dec p = (Inr None, p)"
  using dec_short [of x p q] by (simp add: decode_next_def)

text \<open>
  Two formats one after the other; \<open>tail\<close> reads what follows.
\<close>

lemma short_bind:
  assumes "ok x" and "enc x @ after = p @ q" and "q \<noteq> []"
    and "\<And>p'. after = p' @ q \<Longrightarrow> tail x p' = Inl (Io UnexpectedEof)"
  shows "bindE (dec p) (\<lambda>(x, bs). tail x bs) = Inl (Io UnexpectedEof)"
proof -
  consider us where "enc x = p @ us" "us \<noteq> []" | us where "p = enc x @ us" "after = us @ q"
    using assms(2) by (auto simp: append_eq_append_conv2) (metis append.right_neutral append_Nil)
  then show ?thesis
  proof cases
    case 1
    then show ?thesis using dec_short [OF assms(1)] by simp
  next
    case 2
    then show ?thesis using dec_enc [OF assms(1), of us] assms(4) by simp
  qed
qed

end

interpretation u64_stream: stream_codec enc_u64 dec_u64 "\<lambda>_. True"
proof unfold_locales
  fix x :: u64 and p q
  assume eq: "enc_u64 x = p @ q" and "q \<noteq> []"
  have "length p + length q = 8" using arg_cong [OF eq, of length] by (simp add: enc_u64_def)
  with \<open>q \<noteq> []\<close> show "dec_u64 p = Inl (Io UnexpectedEof)" by (cases q) (simp_all add: dec_u64_def read_exact_def)
qed

text \<open>
  The frame of the \<open>bitcoin\<close> crate can be read from a stream: within the limits of \<open>frame_laws\<close> its
  decoders report a value that has not arrived completely as an unexpected end.
\<close>

definition stream_laws :: "wire_ext \<Rightarrow> bool" where
  "stream_laws W \<longleftrightarrow>
     frame_laws W \<and> w_dec_magic W [] = Inl (Io UnexpectedEof) \<and>
     stream_codec (w_enc_magic W) (w_dec_magic W) (\<lambda>mg. length mg = 4) \<and>
     stream_codec (w_enc_command W) (w_dec_command W) wf_command \<and>
     stream_codec (w_enc_checked W) (w_dec_checked W) wf_checked"

definition wire_message :: "bitcoin_ext \<Rightarrow> wire_ext \<Rightarrow> raw_network_message \<Rightarrow> bool" where
  "wire_message X W m \<longleftrightarrow>
     wf_message X (rm_payload m) \<and> length (rm_magic m) = 4 \<and> wf_checked (enc_payload X W (rm_payload m))"

lemma stream_lawsD:
  assumes "stream_laws W"
  shows "frame_laws W" "stream_codec (w_enc_magic W) (w_dec_magic W) (\<lambda>mg. length mg = 4)"
    "stream_codec (w_enc_command W) (w_dec_command W) wf_command"
    "stream_codec (w_enc_checked W) (w_dec_checked W) wf_checked"
  using assms unfolding stream_laws_def by blast+

lemma frame_short:
  assumes "stream_laws W" and "length mg = 4" and "wf_command c" and "wf_checked d" and "q \<noteq> []"
    and eq: "w_enc_magic W mg @ w_enc_command W c @ w_enc_checked W d = p @ q"
  shows "dec_raw_finite X W p = Inl (Io UnexpectedEof)"
  unfolding dec_raw_finite_def
proof (rule stream_codec.short_bind [OF stream_lawsD(2) [OF assms(1)] assms(2) eq \<open>q \<noteq> []\<close>])
  fix p1
  assume 1: "w_enc_command W c @ w_enc_checked W d = p1 @ q"
  show "bindE (w_dec_command W p1) (\<lambda>(command, bs). bindE (w_dec_checked W bs) (\<lambda>(raw, bs).
      bindE (dec_payload X W command raw) (\<lambda>payload. Inr (\<lparr>rm_magic = mg, rm_payload = payload\<rparr>, bs)))) = Inl (Io UnexpectedEof)"
  proof (rule stream_codec.short_bind [OF stream_lawsD(3) [OF assms(1)] assms(3) 1 \<open>q \<noteq> []\<close>])
    fix p2
    assume "w_enc_checked W d = p2 @ q"
    from stream_codec.dec_short [OF stream_lawsD(4) [OF assms(1)] assms(4) this \<open>q \<noteq> []\<close>]
    show "bindE (w_dec_checked W p2) (\<lambda>(raw, bs). bindE (dec_payload X W c raw)
        (\<lambda>payload. Inr (\<lparr>rm_magic = mg, rm_payload = payload\<rparr>, bs))) = Inl (Io UnexpectedEof)" by simp
  qed
qed

lemma raw_message_stream:
  assumes "stream_laws W"
  shows "stream_codec (enc_raw_message X W) (dec_raw_finite X W) (wire_message X W)"
proof
  show "dec_raw_finite X W (enc_raw_message X W m @ rest) = Inr (m, rest)" if "wire_message X W m" for m rest
    using that stream_lawsD(1) [OF assms] by (intro dec_raw_finite_enc) (simp_all add: wire_message_def)
  show "dec_raw_finite X W p = Inl (Io UnexpectedEof)" if "wire_message X W m" "enc_raw_message X W m = p @ q" "q \<noteq> []" for m p q
    using that frame_short [OF assms, of "rm_magic m" "cmd (rm_payload m)" "enc_payload X W (rm_payload m)" q p X] wf_cmd
    by (simp add: wire_message_def enc_raw_message_def)
qed

lemma raw_message_empty: "stream_laws W \<Longrightarrow> decode_next (dec_raw_finite X W) [] = (Inr None, [])"
  by (simp add: stream_laws_def decode_next_def dec_raw_finite_def)

section \<open>Chunks\<close>

text \<open>The messages of a peer handed to the state machine one by one.\<close>

fun deliver ::
  "(nat \<Rightarrow> addr_env) \<Rightarrow> p2p_ext \<Rightarrow> socket_addr \<Rightarrow> raw_network_message list \<Rightarrow> nat \<Rightarrow> machine \<Rightarrow> panic + nat \<times> machine" where
  "deliver Es A a [] n mc = Inr (n, mc)"
| "deliver Es A a (m # ms) n mc = bindE (message_received (Es n) A a m mc) (\<lambda>mc'. deliver Es A a ms (Suc n) mc')"

text \<open>The chunks the socket reads, one after the other.\<close>

fun service_chunks ::
  "(nat \<Rightarrow> addr_env) \<Rightarrow> p2p_ext \<Rightarrow> raw_network_message decoder \<Rightarrow> socket_addr \<Rightarrow> bytes list \<Rightarrow> nat \<Rightarrow> p2p_service \<Rightarrow>
   (panic + nat \<times> p2p_service) option" where
  "service_chunks Es A dec a [] n sv = Some (Inr (n, sv))"
| "service_chunks Es A dec a (c # cs) n sv =
     (case service_message Es A dec a c n sv of
        Some (Inr (n', sv')) \<Rightarrow> service_chunks Es A dec a cs n' sv'
      | r \<Rightarrow> r)"

lemma deliver_append:
  "deliver Es A a (ms @ ms') n mc = bindE (deliver Es A a ms n mc) (\<lambda>(n', mc'). deliver Es A a ms' n' mc')"
  by (induction ms arbitrary: n mc) (auto simp: bindE_def split: sum.splits)

definition partial_message :: "(raw_network_message \<Rightarrow> bytes) \<Rightarrow> bytes \<Rightarrow> raw_network_message list \<Rightarrow> bool" where
  "partial_message enc b ms \<longleftrightarrow> (case ms of [] \<Rightarrow> b = [] | m # _ \<Rightarrow> \<exists>q. q \<noteq> [] \<and> enc m = b @ q)"

lemma loop_delivers:
  assumes "stream_laws W" and "\<forall>m \<in> set ms. wire_message X W m" and "b @ r = concat (map (enc_raw_message X W) ms)"
  shows "(\<exists>p. deliver Es A a ms n mc = Inl p \<and> receive_loop Es A (dec_raw_finite X W) a n b mc = Some (Inl p)) \<or>
    (\<exists>ms1 ms2 b' n' mc'. ms = ms1 @ ms2 \<and> b' @ r = concat (map (enc_raw_message X W) ms2) \<and>
       partial_message (enc_raw_message X W) b' ms2 \<and> deliver Es A a ms1 n mc = Inr (n', mc') \<and>
       receive_loop Es A (dec_raw_finite X W) a n b mc = Some (Inr (n', b', mc')))"
    (is "?panic ms n b mc \<or> ?ok ms n b mc")
  using assms(2,3)
proof (induction ms arbitrary: b n mc)
  case Nil
  then have "receive_loop Es A (dec_raw_finite X W) a n b mc = Some (Inr (n, b, mc))"
    using raw_message_empty [OF assms(1), of X] by (subst receive_loop.simps) simp
  with Nil.prems have "?ok [] n b mc" by (simp add: partial_message_def)
  then show ?case ..
next
  case (Cons m ms)
  let ?e = "enc_raw_message X W" and ?dec = "dec_raw_finite X W"
  have m: "wire_message X W m" using Cons.prems(1) by simp
  note stream = raw_message_stream [OF assms(1), of X]
  consider q where "?e m = b @ q" "q \<noteq> []" | us where "b = ?e m @ us" "us @ r = concat (map ?e ms)"
    using Cons.prems(2) by (auto simp: append_eq_append_conv2) (metis append.right_neutral append_Nil)
  then show ?case
  proof cases
    case 1
    have "receive_loop Es A ?dec a n b mc = Some (Inr (n, b, mc))"
      using stream_codec.decode_next_short [OF stream m 1] by (subst receive_loop.simps) simp
    with 1 Cons.prems(2) have "?ok (m # ms) n b mc"
      by (intro exI [of _ "[]"] exI [of _ "m # ms"] exI [of _ b] exI [of _ n] exI [of _ mc]) (auto simp: partial_message_def)
    then show ?thesis ..
  next
    case 2
    have next_msg: "decode_next ?dec b = (Inr (Some m), us)"
      using stream_codec.decode_next_enc [OF stream m, of us] 2(1) by simp
    show ?thesis
    proof (cases "message_received (Es n) A a m mc")
      case (Inl p)
      then have "receive_loop Es A ?dec a n b mc = Some (Inl p)" using next_msg by (subst receive_loop.simps) simp
      with Inl show ?thesis by simp
    next
      case (Inr mc1)
      then have loop: "receive_loop Es A ?dec a n b mc = receive_loop Es A ?dec a (Suc n) us mc1"
        using next_msg by (subst receive_loop.simps) simp
      have "?panic ms (Suc n) us mc1 \<or> ?ok ms (Suc n) us mc1" using Cons.IH [OF _ 2(2)] Cons.prems(1) by simp
      then show ?thesis
      proof
        assume "?panic ms (Suc n) us mc1"
        with Inr loop show ?thesis by auto
      next
        assume "?ok ms (Suc n) us mc1"
        then obtain ms1 ms2 b' n' mc' where "ms = ms1 @ ms2" "b' @ r = concat (map ?e ms2)" "partial_message ?e b' ms2"
          "deliver Es A a ms1 (Suc n) mc1 = Inr (n', mc')" "receive_loop Es A ?dec a (Suc n) us mc1 = Some (Inr (n', b', mc'))" by blast
        with Inr loop have "?ok (m # ms) n b mc"
          by (intro exI [of _ "m # ms1"] exI [of _ ms2] exI [of _ b'] exI [of _ n'] exI [of _ mc']) simp
        then show ?thesis ..
      qed
    qed
  qed
qed

lemma update_twice: "AList.update k v (AList.update k v' al) = AList.update k v al"
  by (induction al) auto

lemma update_same: "map_of al k = Some v \<Longrightarrow> AList.update k v al = al"
  by (induction al) (auto split: if_splits)

lemma chunks_deliver:
  assumes "stream_laws W" and "\<forall>m \<in> set ms. wire_message X W m" and "map_of (inboxes sv) a = Some b"
    and "b @ concat cs = concat (map (enc_raw_message X W) ms)" and "partial_message (enc_raw_message X W) b ms"
  shows "service_chunks Es A (dec_raw_finite X W) a cs n sv =
    Some (map_sum id (\<lambda>(n', mc'). (n', sv\<lparr>inboxes := AList.update a [] (inboxes sv), sv_machine := mc'\<rparr>))
      (deliver Es A a ms n (sv_machine sv)))"
  using assms(2-5)
proof (induction cs arbitrary: b ms n sv)
  case Nil
  then have "ms = []" "b = []" by (auto simp: partial_message_def split: list.splits)
  with Nil.prems(2) show ?case by (simp add: update_same)
next
  case (Cons c cs)
  let ?e = "enc_raw_message X W" and ?dec = "dec_raw_finite X W"
  have "(b @ c) @ concat cs = concat (map ?e ms)" using Cons.prems(3) by simp
  from loop_delivers [OF assms(1) Cons.prems(1) this, of Es A a n "sv_machine sv"] show ?case
  proof (elim disjE exE conjE)
    fix p
    assume "deliver Es A a ms n (sv_machine sv) = Inl p" "receive_loop Es A ?dec a n (b @ c) (sv_machine sv) = Some (Inl p)"
    with Cons.prems(2) show ?thesis by (simp add: service_message_def)
  next
    fix ms1 ms2 b' n' mc'
    assume *: "ms = ms1 @ ms2" "b' @ concat cs = concat (map ?e ms2)" "partial_message ?e b' ms2"
      "deliver Es A a ms1 n (sv_machine sv) = Inr (n', mc')" "receive_loop Es A ?dec a n (b @ c) (sv_machine sv) = Some (Inr (n', b', mc'))"
    let ?sv = "sv\<lparr>inboxes := AList.update a b' (inboxes sv), sv_machine := mc'\<rparr>"
    have "service_message Es A ?dec a c n sv = Some (Inr (n', ?sv))"
      using Cons.prems(2) *(5) by (simp add: service_message_def)
    moreover have "service_chunks Es A ?dec a cs n' ?sv =
        Some (map_sum id (\<lambda>(n', mc'). (n', ?sv\<lparr>inboxes := AList.update a [] (inboxes ?sv), sv_machine := mc'\<rparr>)) (deliver Es A a ms2 n' mc'))"
      using Cons.IH [of ms2 ?sv b' n'] Cons.prems(1) * by (simp add: hash_map.get_put id_def)
    ultimately show ?thesis using *(1,4) by (simp add: deliver_append update_twice id_def)
  qed
qed

section \<open>Streams are cut anywhere\<close>

lemma raw_message_nonempty:
  assumes "stream_laws W" and "wire_message X W m"
  shows "enc_raw_message X W m \<noteq> []"
  using raw_message_empty [OF assms(1), of X] stream_codec.decode_next_enc [OF raw_message_stream [OF assms(1)] assms(2), of "[]"]
  by auto

text \<open>C13. It does not matter how the network cuts a stream of messages: whatever the chunks in which it
  arrives, the state machine is called with the messages that were sent, in their order, and
  nothing is left in the inbox. The service returns, unless a call of the state machine panics. The
  messages are those the wire can carry: of a kind the node knows, and with a payload that the
  decoder of the \<open>bitcoin\<close> crate takes.
\<close>

theorem chunking_irrelevant:
  assumes "stream_laws W" and "\<forall>m \<in> set ms. wire_message X W m" and "concat cs = concat (map (enc_raw_message X W) ms)"
    and "map_of (inboxes sv) a = Some []"
  shows "service_chunks Es A (dec_raw_finite X W) a cs n sv =
    Some (map_sum id (\<lambda>(n', mc'). (n', sv\<lparr>sv_machine := mc'\<rparr>)) (deliver Es A a ms n (sv_machine sv)))"
proof -
  have "partial_message (enc_raw_message X W) [] ms"
    using assms(2) raw_message_nonempty [OF assms(1)] by (auto simp: partial_message_def split: list.splits)
  with chunks_deliver [OF assms(1,2,4), of cs Es A n] assms(3,4) show ?thesis by (simp add: update_same)
qed

text \<open>The frame of the Bitcoin protocol can be read from a stream.\<close>

interpretation u32_stream: stream_codec enc_u32 dec_u32 "\<lambda>_. True"
proof unfold_locales
  fix x :: u32 and p q
  assume eq: "enc_u32 x = p @ q" and "q \<noteq> []"
  have "length p + length q = 4" using arg_cong [OF eq, of length] by (simp add: enc_u32_def)
  with \<open>q \<noteq> []\<close> show "dec_u32 p = Inl (Io UnexpectedEof)" by (cases q) (simp_all add: dec_u32_def read_exact_def)
qed

lemma raw_stream: "stream_codec id (read_exact n) (\<lambda>a. length a = n)"
proof (rule stream_codec.intro [OF raw_codec stream_codec_axioms.intro])
  fix a p q :: bytes
  assume "length a = n" "id a = p @ q" "q \<noteq> []"
  then show "read_exact n p = Inl (Io UnexpectedEof)" by (cases q) (auto simp: read_exact_def)
qed

lemma padded_stream: "stream_codec enc_padded dec_padded wf_command"
proof unfold_locales
  fix c :: string and p q :: bytes
  assume c: "wf_command c" "enc_padded c = p @ q" "q \<noteq> []"
  have "length (enc_padded c) = 12" using c(1) by (simp add: enc_padded_def wf_command_def)
  then have "length p < 12" using c(2,3) by (cases q) simp_all
  then show "dec_padded p = Inl (Io UnexpectedEof)" by (simp add: dec_padded_def read_exact_def)
qed

lemma checked_short:
  assumes "length d < 2 ^ 32" and "enc_checked d = p @ q" and "q \<noteq> []"
  shows "dec_checked p = Inl (Io UnexpectedEof)"
  unfolding dec_checked_def
proof (rule u32_stream.short_bind [OF TrueI _ assms(3)])
  show "enc_u32 (of_nat (length d)) @ sample_checksum d @ d = p @ q" using assms(2) by (simp add: enc_checked_def)
  fix p1
  assume 1: "sample_checksum d @ d = p1 @ q"
  show "bindE (read_exact 4 p1) (\<lambda>(c, bs). bindE (read_exact (unat (of_nat (length d) :: u32)) bs) (\<lambda>(d, bs).
      if c \<noteq> sample_checksum d then Inl (ParseFailed ''invalid checksum'') else Inr (d, bs))) = Inl (Io UnexpectedEof)"
  proof (rule stream_codec.short_bind [OF raw_stream _ _ assms(3), where x = "sample_checksum d" and after = d])
    show "id (sample_checksum d) @ d = p1 @ q" using 1 by simp
    fix p2
    assume "d = p2 @ q"
    then have "length p2 < length d" using assms(3) by (cases q) simp_all
    then show "bindE (read_exact (unat (of_nat (length d) :: u32)) p2) (\<lambda>(d', bs).
        if sample_checksum d \<noteq> sample_checksum d' then Inl (ParseFailed ''invalid checksum'') else Inr (d', bs)) = Inl (Io UnexpectedEof)"
      using assms(1) by (simp add: read_exact_def unat_of_nat_u32)
  qed simp
qed

lemma checked_stream: "stream_codec enc_checked (at_most MAX_VEC_SIZE dec_checked) wf_checked"
proof (rule stream_codec.intro [OF _ stream_codec_axioms.intro])
  show "codec enc_checked (at_most MAX_VEC_SIZE dec_checked) wf_checked"
    using frame_lawsD(3) [OF sample_frame_laws] by (simp add: sample_wire_def)
  fix d p q :: bytes
  assume d: "wf_checked d" "enc_checked d = p @ q" "q \<noteq> []"
  have "length p \<le> length (enc_checked d)" by (simp only: d(2) length_append le_add1)
  with d(1) have "length d < 2 ^ 32" "length p \<le> MAX_VEC_SIZE" by (simp_all add: wf_checked_def MAX_VEC_SIZE_def)
  with checked_short [OF _ d(2,3)] show "at_most MAX_VEC_SIZE dec_checked p = Inl (Io UnexpectedEof)" by (simp add: at_most_def)
qed

lemma sample_stream_laws: "stream_laws sample_wire"
  using sample_frame_laws raw_stream [of 4] padded_stream checked_stream
  unfolding stream_laws_def by (simp add: sample_wire_def read_exact_def)

definition sample_service :: p2p_service where
  "sample_service = \<lparr>inboxes = [(sample_peer_addr, [])], sv_machine = sample_machine\<rparr>"

definition sample_stream :: bytes where
  "sample_stream = concat (map (\<lambda>m. enc_raw_message sample_ext sample_wire \<lparr>rm_magic = [0xF9, 0xBE, 0xB4, 0xD9], rm_payload = m\<rparr>)
     [Ping 1, Version sample_version])"

theorem chunking_irrelevant_witness:
  "service_chunks (\<lambda>_. sample_env) sample_p2p_ext (dec_raw_finite sample_ext sample_wire) sample_peer_addr
     [take 7 sample_stream, [], drop 7 sample_stream] 0 sample_service =
   Some (map_sum id (\<lambda>(n', mc'). (n', sample_service\<lparr>sv_machine := mc'\<rparr>))
     (deliver (\<lambda>_. sample_env) sample_p2p_ext sample_peer_addr
       (map (\<lambda>m. \<lparr>rm_magic = [0xF9, 0xBE, 0xB4, 0xD9], rm_payload = m\<rparr>) [Ping 1, Version sample_version]) 0 (sv_machine sample_service)))"
proof (rule chunking_irrelevant [OF sample_stream_laws])
  have "length (enc_version sample_version) < 1000" by code_simp
  moreover have "wf_version sample_version" by code_simp
  ultimately show "\<forall>m \<in> set (map (\<lambda>m. \<lparr>rm_magic = [0xF9, 0xBE, 0xB4, 0xD9], rm_payload = m\<rparr>) [Ping 1, Version sample_version]).
      wire_message sample_ext sample_wire m"
    by (simp add: wire_message_def sample_wire_def enc_u64_def wf_checked_def MAX_VEC_SIZE_def)
  show "concat [take 7 sample_stream, [], drop 7 sample_stream] =
    concat (map (enc_raw_message sample_ext sample_wire)
      (map (\<lambda>m. \<lparr>rm_magic = [0xF9, 0xBE, 0xB4, 0xD9], rm_payload = m\<rparr>) [Ping 1, Version sample_version]))"
    by (simp del: append_take_drop_id add: append_take_drop_id [of 7 sample_stream]) (simp add: sample_stream_def)
qed (simp add: sample_service_def)

section \<open>Stuck streams\<close>

lemma stuck_loop:
  assumes "\<And>b r. b @ r = s \<Longrightarrow> decode_next dec b = (Inr None, b)" and "map_of (inboxes sv) a = Some b" and "b @ concat cs = s"
  shows "service_chunks Es A dec a cs n sv = Some (Inr (n, sv\<lparr>inboxes := AList.update a s (inboxes sv)\<rparr>))"
  using assms(2,3)
proof (induction cs arbitrary: sv b)
  case Nil
  then show ?case by (simp add: update_same)
next
  case (Cons c cs)
  have "decode_next dec (b @ c) = (Inr None, b @ c)" using Cons.prems(2) by (intro assms(1)) simp
  then have "receive_loop Es A dec a n (b @ c) (sv_machine sv) = Some (Inr (n, b @ c, sv_machine sv))"
    by (subst receive_loop.simps) simp
  with Cons.prems(1) have "service_message Es A dec a c n sv = Some (Inr (n, sv\<lparr>inboxes := AList.update a (b @ c) (inboxes sv)\<rparr>))"
    by (simp add: service_message_def)
  with Cons.IH [of "sv\<lparr>inboxes := AList.update a (b @ c) (inboxes sv)\<rparr>" "b @ c"] Cons.prems show ?case
    by (simp add: hash_map.get_put update_twice)
qed

text \<open>C39. A complete frame whose payload is too short is taken for one that has not arrived yet. After
  such a ping nothing the peer sends is decoded any more: whatever it sends is kept in its inbox
  without a bound, the state machine is never called and the peer is not disconnected.
\<close>

theorem short_payload_blocks_peer:
  assumes "stream_laws W" and "length mg = 4" and "length d < 8" and "map_of (inboxes sv) a = Some []"
    and "concat cs = w_enc_magic W mg @ w_enc_command W ''ping'' @ w_enc_checked W d @ rest"
  shows "service_chunks Es A (dec_raw_finite X W) a cs n sv = Some (Inr (n, sv\<lparr>inboxes := AList.update a (concat cs) (inboxes sv)\<rparr>))"
proof (rule stuck_loop [OF _ assms(4)])
  let ?f = "w_enc_magic W mg @ w_enc_command W ''ping'' @ w_enc_checked W d"
  have ping: "wf_command ''ping''" "wf_checked d"
    using assms(3) by (simp_all add: wf_command_def ascii_def wf_checked_def MAX_VEC_SIZE_def)
  fix b r
  assume "b @ r = concat cs"
  with assms(5) have "b @ r = ?f @ rest" by simp
  then consider q where "?f = b @ q" "q \<noteq> []" | us where "b = ?f @ us"
    by (auto simp: append_eq_append_conv2) (metis append.right_neutral append_assoc)+
  then have "dec_raw_finite X W b = Inl (Io UnexpectedEof)"
  proof cases
    case 1
    with assms(3) ping show ?thesis by (intro frame_short [OF assms(1,2), of "''ping''" d q])
  next
    case 2
    have "dec_u64 d = Inl (Io UnexpectedEof)" using assms(3) by (simp add: dec_u64_def read_exact_def)
    with 2 assms(2) ping show ?thesis
      by (simp add: dec_raw_finite_def dec_payload_def codec.dec_enc [OF frame_lawsD(1) [OF stream_lawsD(1) [OF assms(1)]]]
          codec.dec_enc [OF frame_lawsD(2) [OF stream_lawsD(1) [OF assms(1)]]]
          codec.dec_enc [OF frame_lawsD(3) [OF stream_lawsD(1) [OF assms(1)]]])
  qed
  then show "decode_next (dec_raw_finite X W) b = (Inr None, b)" by (simp add: decode_next_def)
qed simp

theorem short_payload_blocks_peer_witness:
  "service_chunks (\<lambda>_. sample_env) sample_p2p_ext (dec_raw_finite sample_ext sample_wire) sample_peer_addr
     [[1, 2, 3, 4] @ enc_padded ''ping'' @ enc_checked [0, 0], sample_stream] 0 sample_service =
   Some (Inr (0, sample_service\<lparr>inboxes := [(sample_peer_addr, [1, 2, 3, 4] @ enc_padded ''ping'' @ enc_checked [0, 0] @ sample_stream)]\<rparr>))"
  using short_payload_blocks_peer [OF sample_stream_laws, of "[1, 2, 3, 4]" "[0, 0]" sample_service sample_peer_addr
      "[[1, 2, 3, 4] @ enc_padded ''ping'' @ enc_checked [0, 0], sample_stream]" sample_stream "\<lambda>_. sample_env" sample_p2p_ext sample_ext 0]
  by (simp add: sample_wire_def sample_service_def)

end
