(* ===== verification/P2p_Reactor.thy ===== *)
theory P2p_Reactor
  imports P2p_Service
begin

text \<open>
  The reactor (\<open>p2p/src/net/reactor.rs\<close>) and its sockets (\<open>net/socket.rs\<close>): it reads and writes the
  sockets, reports what happened to the service and carries out the outputs of the service. What
  the operating system answers is \<open>os_env\<close>, the set of polled sources belongs to the \<open>popol\<close> crate and
  is \<open>poll_ext\<close>; both are arguments. The \<open>n\<close>-th call of the reactor finds the environments \<open>Os n\<close>
  and \<open>Es n\<close>.
\<close>

section \<open>Sockets\<close>

record socket =
  sk_link :: link
  sk_buffer :: bytes

definition socket_from :: "link \<Rightarrow> socket" where
  "socket_from l = \<lparr>sk_link = l, sk_buffer = []\<rparr>"

definition socket_push :: "bytes \<Rightarrow> socket \<Rightarrow> socket" where
  "socket_push bytes s = s\<lparr>sk_buffer := sk_buffer s @ bytes\<rparr>"

datatype io_failure = WouldBlock | WriteZero | AlreadyExists | OtherFailure io_error

text \<open>
  \<open>wr i b\<close> is the answer to the \<open>i\<close>-th attempt to write the bytes \<open>b\<close>: a failure, or how many of
  them were written. The result is the bytes written, the bytes left and the failure.
\<close>

function flush_buffer ::
  "(nat \<Rightarrow> bytes \<Rightarrow> io_failure + nat) \<Rightarrow> nat \<Rightarrow> bytes \<Rightarrow> bytes \<times> bytes \<times> io_failure option" where
  "flush_buffer wr i buffer =
     (if buffer = [] then ([], [], None)
      else case wr i buffer of
        Inl e \<Rightarrow> ([], buffer, Some e)
      | Inr n \<Rightarrow>
          if n = 0 then ([], buffer, Some WriteZero)
          else case flush_buffer wr (Suc i) (drop n buffer) of
            (written, left, e) \<Rightarrow> (take n buffer @ written, left, e))"
  by pat_completeness auto
termination
  by (relation "measure (\<lambda>(wr, i, buffer). length buffer)") auto

declare flush_buffer.simps [simp del]

section \<open>The reactor\<close>

datatype poll_source = PollPeer socket_addr | PollListener | PollWaker

record 'src poll_ext =
  po_register :: "poll_source \<Rightarrow> 'src \<Rightarrow> 'src"
  po_unregister :: "poll_source \<Rightarrow> 'src \<Rightarrow> 'src"
  po_registered :: "'src \<Rightarrow> poll_source \<Rightarrow> bool"
  po_set_write :: "poll_source \<Rightarrow> bool \<Rightarrow> 'src \<Rightarrow> 'src"

datatype connect_answer = ConnectOk | InProgress | Already | ConnectWouldBlock | ConnectFailed io_error
datatype read_answer = ReadBytes bytes | ReadWouldBlock | ReadFailed io_error

record os_env =
  os_socket :: "socket_addr \<Rightarrow> io_error option"
  os_connect :: "socket_addr \<Rightarrow> connect_answer"
  os_local :: "socket_addr \<Rightarrow> io_error + socket_addr"
  os_read :: "socket_addr \<Rightarrow> read_answer"
  os_write :: "socket_addr \<Rightarrow> nat \<Rightarrow> bytes \<Rightarrow> io_failure + nat"
  os_flush :: "socket_addr \<Rightarrow> io_failure option"
  os_accept :: "(socket_addr \<times> io_error option) list"
  os_command :: "machine_command option"
  os_sort :: "(unit \<times> local_time) list \<Rightarrow> (unit \<times> local_time) list"

record 'src reactor =
  rx_peers :: "(socket_addr \<times> socket) list"
  rx_connecting :: "socket_addr list"
  rx_sources :: 'src
  rx_timeouts :: "unit timeout_manager"

record 'src runtime =
  rt_calls :: nat
  rt_reactor :: "'src reactor"
  rt_service :: p2p_service

datatype reactor_error = Panicked panic | Unwrapped | IoFailed io_error

definition new_reactor :: "'src \<Rightarrow> 'src reactor" where
  "new_reactor srcs = \<lparr>rx_peers = [], rx_connecting = [], rx_sources = srcs, rx_timeouts = new_timeouts (secs 1)\<rparr>"

definition register_peer :: "'src poll_ext \<Rightarrow> socket_addr \<Rightarrow> link \<Rightarrow> 'src reactor \<Rightarrow> 'src reactor" where
  "register_peer P a l rx =
     rx\<lparr>rx_sources := po_register P (PollPeer a) (rx_sources rx), rx_peers := AList.update a (socket_from l) (rx_peers rx)\<rparr>"

text \<open>A call of the service in its environment.\<close>

definition call_service ::
  "(nat \<Rightarrow> addr_env) \<Rightarrow> (addr_env \<Rightarrow> p2p_service \<Rightarrow> (panic + p2p_service) option) \<Rightarrow> 'src runtime \<Rightarrow>
   (reactor_error + 'src runtime) option" where
  "call_service Es f rt =
     map_option (map_sum Panicked (\<lambda>sv. rt\<lparr>rt_service := sv, rt_calls := Suc (rt_calls rt)\<rparr>))
       (f (Es (rt_calls rt)) (rt_service rt))"

definition on_reactor :: "('src reactor \<Rightarrow> 'src reactor) \<Rightarrow> 'src runtime \<Rightarrow> 'src runtime" where
  "on_reactor f rt = rt\<lparr>rt_reactor := f (rt_reactor rt)\<rparr>"

definition unregister_peer ::
  "'src poll_ext \<Rightarrow> (nat \<Rightarrow> addr_env) \<Rightarrow> p2p_ext \<Rightarrow> socket_addr \<Rightarrow> net_disconnect \<Rightarrow> 'src runtime \<Rightarrow>
   (reactor_error + 'src runtime) option" where
  "unregister_peer P Es A a reason rt =
     call_service Es (\<lambda>E. service_disconnected E A a reason)
       (on_reactor (\<lambda>rx. rx\<lparr>rx_connecting := hs_remove a (rx_connecting rx), rx_peers := AList.delete a (rx_peers rx),
          rx_sources := po_unregister P (PollPeer a) (rx_sources rx)\<rparr>) rt)"

section \<open>Outputs of the service\<close>

definition dial :: "os_env \<Rightarrow> socket_addr \<Rightarrow> io_failure + unit" where
  "dial Q a =
     (case os_socket Q a of
        Some e \<Rightarrow> Inl (OtherFailure e)
      | None \<Rightarrow>
          (case os_connect Q a of
             ConnectOk \<Rightarrow> Inr ()
           | InProgress \<Rightarrow> Inr ()
           | Already \<Rightarrow> Inl AlreadyExists
           | ConnectWouldBlock \<Rightarrow> Inr ()
           | ConnectFailed e \<Rightarrow> Inl (OtherFailure e)))"

fun failure_text :: "io_failure \<Rightarrow> io_error" where
  "failure_text (OtherFailure e) = e"
| "failure_text WouldBlock = ''would block''"
| "failure_text WriteZero = ''write zero''"
| "failure_text AlreadyExists = ''already exists''"

definition handle_connect_process ::
  "'src poll_ext \<Rightarrow> (nat \<Rightarrow> os_env) \<Rightarrow> (nat \<Rightarrow> addr_env) \<Rightarrow> p2p_ext \<Rightarrow> socket_addr \<Rightarrow> 'src runtime \<Rightarrow>
   (reactor_error + 'src runtime) option" where
  "handle_connect_process P Os Es A a rt =
     (case dial (Os (rt_calls rt)) a of
        Inr _ \<Rightarrow>
          call_service Es (\<lambda>_ sv. Some (Inr (service_attempted a sv)))
            (on_reactor (\<lambda>rx. (register_peer P a Outbound rx)\<lparr>rx_connecting := hs_insert a (rx_connecting rx)\<rparr>) rt)
      | Inl AlreadyExists \<Rightarrow> Some (Inr rt)
      | Inl e \<Rightarrow> call_service Es (\<lambda>E. service_disconnected E A a (DialError (failure_text e))) rt)"

fun process_output ::
  "'src poll_ext \<Rightarrow> (nat \<Rightarrow> os_env) \<Rightarrow> (nat \<Rightarrow> addr_env) \<Rightarrow> p2p_ext \<Rightarrow> local_time \<Rightarrow> service_io \<Rightarrow> 'src runtime \<Rightarrow>
   (reactor_error + 'src runtime) option" where
  "process_output P Os Es A now (WriteBytes a bytes) rt =
     Some (Inr (on_reactor (\<lambda>rx.
       case map_of (rx_peers rx) a of
         None \<Rightarrow> rx
       | Some s \<Rightarrow>
           if po_registered P (rx_sources rx) (PollPeer a)
           then rx\<lparr>rx_peers := AList.update a (socket_push bytes s) (rx_peers rx),
                  rx_sources := po_set_write P (PollPeer a) True (rx_sources rx)\<rparr>
           else rx) rt))"
| "process_output P Os Es A now (ServiceConnect a) rt = handle_connect_process P Os Es A a rt"
| "process_output P Os Es A now (ServiceDisconnect a r) rt = unregister_peer P Es A a (StateMachineReason r) rt"
| "process_output P Os Es A now (ServiceTimer d) rt =
     Some (Inr (on_reactor (\<lambda>rx.
       rx\<lparr>rx_timeouts := snd (register_timeout (os_sort (Os (rt_calls rt))) () (now + d) (rx_timeouts rx))\<rparr>) rt))"
| "process_output P Os Es A now (ServiceEvent e) rt = Some (Inr rt)"

partial_function (option) process ::
  "'src poll_ext \<Rightarrow> (nat \<Rightarrow> os_env) \<Rightarrow> (nat \<Rightarrow> addr_env) \<Rightarrow> p2p_ext \<Rightarrow> (raw_network_message \<Rightarrow> bytes) \<Rightarrow> local_time \<Rightarrow>
   'src runtime \<Rightarrow> (reactor_error + 'src runtime) option" where
  "process P Os Es A enc now rt =
     (case service_next enc (rt_service rt) of
        (None, sv) \<Rightarrow> Some (Inr (rt\<lparr>rt_service := sv\<rparr>))
      | (Some out, sv) \<Rightarrow>
          (case process_output P Os Es A now out (rt\<lparr>rt_service := sv\<rparr>) of
             None \<Rightarrow> None
           | Some (Inl e) \<Rightarrow> Some (Inl e)
           | Some (Inr rt') \<Rightarrow> process P Os Es A enc now rt'))"

section \<open>Events of the sockets\<close>

definition bindP :: "('e + 'a) option \<Rightarrow> ('a \<Rightarrow> ('e + 'b) option) \<Rightarrow> ('e + 'b) option" where
  "bindP r f = (case r of None \<Rightarrow> None | Some (Inl e) \<Rightarrow> Some (Inl e) | Some (Inr a) \<Rightarrow> f a)"

text \<open>The answer of \<open>connected\<close> is not looked at.\<close>

definition report_connected ::
  "(nat \<Rightarrow> addr_env) \<Rightarrow> p2p_ext \<Rightarrow> socket_addr \<Rightarrow> socket_addr \<Rightarrow> link \<Rightarrow> 'src runtime \<Rightarrow> (reactor_error + 'src runtime) option" where
  "report_connected Es A a local l rt =
     call_service Es (\<lambda>E sv. Some (map_sum id snd (service_connected E A a local l sv))) rt"

definition handle_readable ::
  "'src poll_ext \<Rightarrow> (nat \<Rightarrow> os_env) \<Rightarrow> (nat \<Rightarrow> addr_env) \<Rightarrow> p2p_ext \<Rightarrow> raw_network_message decoder \<Rightarrow> socket_addr \<Rightarrow>
   'src runtime \<Rightarrow> (reactor_error + 'src runtime) option" where
  "handle_readable P Os Es A dec a rt =
     (case map_of (rx_peers (rt_reactor rt)) a of
        None \<Rightarrow> Some (Inr rt)
      | Some _ \<Rightarrow>
          (case os_read (Os (rt_calls rt)) a of
             ReadBytes bytes \<Rightarrow>
               if bytes \<noteq> [] then
                 map_option (map_sum Panicked (\<lambda>(n, sv). rt\<lparr>rt_service := sv, rt_calls := Suc n\<rparr>))
                   (service_message Es A dec a bytes (rt_calls rt) (rt_service rt))
               else unregister_peer P Es A a (ConnectionError ''connection reset'') rt
           | ReadWouldBlock \<Rightarrow> Some (Inr rt)
           | ReadFailed _ \<Rightarrow> Some (Inr rt)))"

definition flush_socket ::
  "'src poll_ext \<Rightarrow> (nat \<Rightarrow> os_env) \<Rightarrow> (nat \<Rightarrow> addr_env) \<Rightarrow> p2p_ext \<Rightarrow> socket_addr \<Rightarrow> 'src runtime \<Rightarrow>
   (reactor_error + 'src runtime) option" where
  "flush_socket P Os Es A a rt =
     (case map_of (rx_peers (rt_reactor rt)) a of
        None \<Rightarrow> Some (Inl Unwrapped)
      | Some s \<Rightarrow>
          (case flush_buffer (os_write (Os (rt_calls rt)) a) 0 (sk_buffer s) of
             (_, left, e) \<Rightarrow>
               let rt = on_reactor (\<lambda>rx. rx\<lparr>rx_peers := AList.update a (s\<lparr>sk_buffer := left\<rparr>) (rx_peers rx)\<rparr>) rt;
                   e = (if e = None then os_flush (Os (rt_calls rt)) a else e);
                   interest = (\<lambda>b. on_reactor (\<lambda>rx. rx\<lparr>rx_sources := po_set_write P (PollPeer a) b (rx_sources rx)\<rparr>) rt)
               in (case e of
                     None \<Rightarrow> Some (Inr (interest False))
                   | Some WouldBlock \<Rightarrow> Some (Inr (interest True))
                   | Some WriteZero \<Rightarrow> Some (Inr (interest True))
                   | Some err \<Rightarrow> unregister_peer P Es A a (ConnectionError (failure_text err)) rt)))"

definition handle_writable ::
  "'src poll_ext \<Rightarrow> (nat \<Rightarrow> os_env) \<Rightarrow> (nat \<Rightarrow> addr_env) \<Rightarrow> p2p_ext \<Rightarrow> socket_addr \<Rightarrow> 'src runtime \<Rightarrow>
   (reactor_error + 'src runtime) option" where
  "handle_writable P Os Es A a rt =
     (if \<not> po_registered P (rx_sources (rt_reactor rt)) (PollPeer a) then Some (Inl Unwrapped)
      else case map_of (rx_peers (rt_reactor rt)) a of
        None \<Rightarrow> Some (Inl Unwrapped)
      | Some s \<Rightarrow>
          bindP
            (if a \<in> set (rx_connecting (rt_reactor rt)) then
               let rt = on_reactor (\<lambda>rx. rx\<lparr>rx_connecting := hs_remove a (rx_connecting rx)\<rparr>) rt
               in (case os_local (Os (rt_calls rt)) a of
                     Inl e \<Rightarrow> Some (Inl (IoFailed e))
                   | Inr local \<Rightarrow> report_connected Es A a local (sk_link s) rt)
             else Some (Inr rt))
            (flush_socket P Os Es A a))"

definition add_connection ::
  "'src poll_ext \<Rightarrow> (nat \<Rightarrow> os_env) \<Rightarrow> (nat \<Rightarrow> addr_env) \<Rightarrow> p2p_ext \<Rightarrow> socket_addr \<times> io_error option \<Rightarrow> 'src runtime \<Rightarrow>
   (reactor_error + 'src runtime) option" where
  "add_connection P Os Es A conn rt =
     (case conn of
        (a, Some e) \<Rightarrow> Some (Inl (IoFailed e))
      | (a, None) \<Rightarrow>
          (case os_local (Os (rt_calls rt)) a of
             Inl e \<Rightarrow> Some (Inl (IoFailed e))
           | Inr local \<Rightarrow> report_connected Es A a local Inbound (on_reactor (register_peer P a Inbound) rt)))"

fun handle_listener_source ::
  "'src poll_ext \<Rightarrow> (nat \<Rightarrow> os_env) \<Rightarrow> (nat \<Rightarrow> addr_env) \<Rightarrow> p2p_ext \<Rightarrow> (socket_addr \<times> io_error option) list \<Rightarrow> 'src runtime \<Rightarrow>
   (reactor_error + 'src runtime) option" where
  "handle_listener_source P Os Es A [] rt = Some (Inr rt)"
| "handle_listener_source P Os Es A (c # cs) rt =
     bindP (add_connection P Os Es A c rt) (handle_listener_source P Os Es A cs)"

text \<open>The command with which the wait of \<open>recv_async\<close> ends; \<open>None\<close> when every handle of the client is dropped.\<close>

definition handle_waker_source ::
  "(nat \<Rightarrow> os_env) \<Rightarrow> (nat \<Rightarrow> addr_env) \<Rightarrow> p2p_ext \<Rightarrow> 'src runtime \<Rightarrow> (reactor_error + 'src runtime) option" where
  "handle_waker_source Os Es A rt =
     (case os_command (Os (rt_calls rt)) of
        None \<Rightarrow> Some (Inr rt)
      | Some c \<Rightarrow> call_service Es (\<lambda>E sv. Some (service_command E A c sv)) rt)"

record ready_source =
  rd_key :: poll_source
  rd_invalid :: bool
  rd_writable :: bool
  rd_readable :: bool

fun handle_new_source ::
  "'src poll_ext \<Rightarrow> (nat \<Rightarrow> os_env) \<Rightarrow> (nat \<Rightarrow> addr_env) \<Rightarrow> p2p_ext \<Rightarrow> raw_network_message decoder \<Rightarrow> ready_source list \<Rightarrow>
   'src runtime \<Rightarrow> (reactor_error + 'src runtime) option" where
  "handle_new_source P Os Es A dec [] rt = Some (Inr rt)"
| "handle_new_source P Os Es A dec (ev # evs) rt =
     bindP
       (case rd_key ev of
          PollPeer a \<Rightarrow>
            if rd_invalid ev then Some (Inr (on_reactor (\<lambda>rx. rx\<lparr>rx_sources := po_unregister P (rd_key ev) (rx_sources rx)\<rparr>) rt))
            else bindP (if rd_writable ev then handle_writable P Os Es A a rt else Some (Inr rt))
              (\<lambda>rt. if rd_readable ev then handle_readable P Os Es A dec a rt else Some (Inr rt))
        | PollListener \<Rightarrow> handle_listener_source P Os Es A (os_accept (Os (rt_calls rt))) rt
        | PollWaker \<Rightarrow> handle_waker_source Os Es A rt)
       (handle_new_source P Os Es A dec evs)"

datatype poll_answer = PollReady "ready_source list" | PollTimedOut | PollFailed io_error

definition handle_round ::
  "'src poll_ext \<Rightarrow> (nat \<Rightarrow> os_env) \<Rightarrow> (nat \<Rightarrow> addr_env) \<Rightarrow> p2p_ext \<Rightarrow> (raw_network_message \<Rightarrow> bytes) \<Rightarrow>
   raw_network_message decoder \<Rightarrow> poll_answer \<Rightarrow> local_time \<Rightarrow> 'src runtime \<Rightarrow> (reactor_error + 'src runtime) option" where
  "handle_round P Os Es A enc dec answer now rt =
     (let rt = rt\<lparr>rt_service := service_tick now (rt_service rt)\<rparr> in
      bindP
        (case answer of
           PollReady evs \<Rightarrow> handle_new_source P Os Es A dec evs rt
         | PollTimedOut \<Rightarrow>
             (case wake now (rx_timeouts (rt_reactor rt)) [] of
                (_, woken, tm) \<Rightarrow>
                  let rt = on_reactor (\<lambda>rx. rx\<lparr>rx_timeouts := tm\<rparr>) rt
                  in if woken \<noteq> [] then call_service Es (\<lambda>E. service_timer_expired E A) rt else Some (Inr rt))
         | PollFailed e \<Rightarrow> Some (Inl (IoFailed e)))
        (process P Os Es A enc now))"

section \<open>The client\<close>

record p2p_config =
  pc_network :: network
  pc_connect :: "socket_addr list"
  pc_listen :: socket_addr
  pc_user_agent :: string
  pc_limits :: limits

text \<open>\<open>agent\<close> is the user agent, which holds the version of the package.\<close>

definition default_p2p_config :: "string \<Rightarrow> p2p_config" where
  "default_p2p_config agent =
     \<lparr>pc_network = Bitcoin, pc_connect = [], pc_listen = SocketAddr (V4 0 0 0 0) 0, pc_user_agent = agent, pc_limits = default_limits\<rparr>"

definition new_p2p_config :: "string \<Rightarrow> network \<Rightarrow> socket_addr \<Rightarrow> socket_addr list \<Rightarrow> nat \<Rightarrow> nat \<Rightarrow> p2p_config" where
  "new_p2p_config agent net listen conn inb outb =
     (default_p2p_config agent)\<lparr>pc_network := net, pc_limits := \<lparr>max_outbound = outb, max_inbound = inb\<rparr>,
       pc_listen := listen, pc_connect := conn\<rparr>"

fun boot_nodes :: "network \<Rightarrow> socket_addr list" where
  "boot_nodes Bitcoin = []"
| "boot_nodes Testnet = []"
| "boot_nodes Mutiny = []"
| "boot_nodes _ = []"

definition store_insert ::
  "socket_addr \<Rightarrow> known_address \<Rightarrow> (socket_addr \<times> known_address) list \<Rightarrow> (socket_addr \<times> known_address) list" where
  "store_insert a ka ps = (case map_of ps a of None \<Rightarrow> AList.update a ka ps | Some _ \<Rightarrow> ps)"

definition client_peers :: "p2p_ext \<Rightarrow> p2p_config \<Rightarrow> (socket_addr \<times> known_address) list" where
  "client_peers A cfg =
     foldl (\<lambda>ps a. store_insert a (new_known_address (x_address_new A a NO_SERVICES) Imported None) ps) []
       (boot_nodes (pc_network cfg) @ pc_connect cfg)"

definition new_client :: "addr_env \<Rightarrow> p2p_ext \<Rightarrow> string \<Rightarrow> p2p_config \<Rightarrow> 'src \<Rightarrow> local_time \<Rightarrow> 'src runtime" where
  "new_client E A agent cfg srcs now =
     \<lparr>rt_calls = 0, rt_reactor = new_reactor srcs,
      rt_service = new_service E A (client_peers A cfg) (new_adjusted_time now) (pc_network cfg) (pc_connect cfg)
        (pc_user_agent cfg) (pc_limits cfg) agent\<rparr>"

definition start_reactor ::
  "'src poll_ext \<Rightarrow> (nat \<Rightarrow> os_env) \<Rightarrow> (nat \<Rightarrow> addr_env) \<Rightarrow> p2p_ext \<Rightarrow> (raw_network_message \<Rightarrow> bytes) \<Rightarrow> local_time \<Rightarrow>
   'src runtime \<Rightarrow> (reactor_error + 'src runtime) option" where
  "start_reactor P Os Es A enc now rt =
     (let rt = on_reactor (\<lambda>rx. rx\<lparr>rx_sources := po_register P PollListener (rx_sources rx)\<rparr>) rt
      in bindP (call_service Es (\<lambda>E. service_initialize E A now) rt) (process P Os Es A enc now))"

section \<open>Flushing\<close>

lemma flush_in_order:
  assumes "flush_buffer wr i buffer = (written, left, e)"
  shows "written @ left = buffer \<and> (e = None \<longrightarrow> left = [])"
  using assms
proof (induction wr i buffer arbitrary: written left rule: flush_buffer.induct)
  case (1 wr i buffer)
  show ?case
  proof (cases "buffer = []")
    case False
    show ?thesis
    proof (cases "wr i buffer")
      case (Inr n)
      obtain w l e' where rec: "flush_buffer wr (Suc i) (drop n buffer) = (w, l, e')" by (metis prod_cases3)
      show ?thesis
      proof (cases "n = 0")
        case False
        then have "e' = e" "written = take n buffer @ w" "left = l"
          using 1(2) \<open>buffer \<noteq> []\<close> Inr rec by (simp_all add: flush_buffer.simps [of wr i buffer])
        moreover have "w @ l = drop n buffer \<and> (e' = None \<longrightarrow> l = [])"
          using 1(1) [OF \<open>buffer \<noteq> []\<close> Inr False] rec \<open>e' = e\<close> by simp
        ultimately show ?thesis by simp
      qed (use 1(2) \<open>buffer \<noteq> []\<close> Inr in \<open>auto simp: flush_buffer.simps [of wr i buffer]\<close>)
    qed (use 1(2) False in \<open>auto simp: flush_buffer.simps [of wr i buffer]\<close>)
  qed (use 1(2) in \<open>auto simp: flush_buffer.simps [of wr i "[]"]\<close>)
qed

section \<open>Carrying out the outputs ends\<close>

text \<open>
  A peer that is disconnected makes the peer manager draw new addresses and dial them, and a
  dial that fails disconnects in turn. The weight bounds what is still to be done.
\<close>

definition weight :: "machine \<Rightarrow> nat" where
  "weight mc = sum_list (map io_weight (outbox mc)) + 5 * card (fresh_addrs (addrmgr mc))"

lemma ban_fresh: "fresh_addrs (snd (ban a am)) \<subseteq> fresh_addrs am"
  by (auto simp: ban_def fresh_addrs_def Let_def hash_map.get_del split: option.splits if_splits)

lemma am_disconnected_fresh: "fresh_addrs (am_peer_disconnected a r am) \<subseteq> fresh_addrs am"
  using ban_fresh [of a "am\<lparr>am_connected := hs_remove a (am_connected am), am_sources := hs_remove a (am_sources am)\<rparr>"]
  by (auto simp: am_peer_disconnected_def fresh_addrs_def Let_def)

lemma pm_weight_frame [simp]:
  "pm_weight (m\<lparr>peers_storage := x\<rparr>) = pm_weight m" "pm_weight (m\<lparr>disconnected := y\<rparr>) = pm_weight m"
  by (simp_all add: pm_weight_def)

lemma pm_disconnected_weight:
  assumes "peers_distinct pm" and "source_ok E am" and "pm_peer_disconnected E A now a r pm am = Some (Inr (pm', am'))"
  shows "pm_weight pm' + 5 * card (fresh_addrs am') \<le> pm_weight pm + 5 * card (fresh_addrs am) + 2"
proof -
  let ?ev = "if is_connected pm a then pm_push [Event (PeerEv (DisconnectedEvent a r))] pm
    else if is_connecting pm a then
      (case r of ConnectionError err \<Rightarrow> pm_push [Event (PeerEv (ConnectionFailed a err))] pm | _ \<Rightarrow> pm) else pm"
  define pm1 where "pm1 = ?ev\<lparr>peers_storage := AList.delete a (peers_storage ?ev)\<rparr>"
  have eq: "pm_peer_disconnected E A now a r pm am =
      (if a \<in> set (persistent (config pm1)) then Some (Inr (persistent_disconnected a now pm1, am)) else maintain_connections E A now pm1 am)"
    unfolding pm_peer_disconnected_def Let_def pm1_def by (rule refl)
  have w1: "pm_weight pm1 \<le> pm_weight pm + 1" by (auto simp: pm1_def split: net_disconnect.splits)
  have st: "peers_storage ?ev = peers_storage pm" by (auto split: net_disconnect.splits)
  have d1: "peers_distinct pm1" using assms(1) unfolding pm1_def st by (simp add: peers_distinct_def distinct_delete)
  show ?thesis
  proof (cases "a \<in> set (persistent (config pm1))")
    case True
    with assms(3) have "pm' = persistent_disconnected a now pm1" "am' = am" by (simp_all add: eq)
    with w1 show ?thesis by (simp add: persistent_disconnected_def Let_def)
  next
    case False
    with assms(3) maintain_connections_returns [OF assms(2) d1, of A now] w1 show ?thesis by (auto simp: eq)
  qed
qed

lemma am_disconnected_upstream: "am_upstream (am_peer_disconnected a r am) = am_upstream am"
  by (simp add: am_peer_disconnected_def ban_def Let_def split: option.splits)

lemma machine_disconnected_weight:
  assumes "env_ok E" and "machine_ok mc" and "machine_disconnected E A a r mc = Some (Inr mc')"
  shows "weight mc' \<le> weight mc + 2"
proof -
  define mc1 where "mc1 = (let mc1 = store_am mc (am_peer_disconnected a r (load_am mc))
    in store_ping mc1 (ping_disconnected a (load_ping mc1)))"
  have am: "addrmgr mc1 = am_peer_disconnected a r (load_am mc)" and pm: "peermgr mc1 = peermgr mc" and out: "outbox mc1 = outbox mc"
    by (simp_all add: mc1_def Let_def share_defs am_disconnected_upstream ping_disconnected_def)
  have ok: "peers_distinct (load_pm mc1)" "source_ok E (addrmgr mc1)"
    using assms(1,2) by (simp_all add: am pm machine_ok_def source_ok_iff am_disconnected_ok pm_ok_distinct)
  obtain pm' am' where p: "pm_peer_disconnected E A (local_time mc1) a r (load_pm mc1) (addrmgr mc1) = Some (Inr (pm', am'))"
    and mc': "mc' = (let mc2 = store_both mc1 (pm', am') in store_inv mc2 (inv_disconnected a (load_inv mc2)))"
    using assms(3) unfolding machine_disconnected_def mc1_def [unfolded Let_def, symmetric] Let_def
    by (auto simp: map_sum_eq_Inr)
  have "card (fresh_addrs (addrmgr mc1)) \<le> card (fresh_addrs (addrmgr mc))"
    using card_mono [OF finite_fresh am_disconnected_fresh [of a r "load_am mc"]] by (simp add: am fresh_addrs_def)
  moreover have "pm_weight (load_pm mc1) = sum_list (map io_weight (outbox mc))" by (simp add: pm_weight_def out)
  moreover have "weight mc' = pm_weight pm' + 5 * card (fresh_addrs am')"
    by (simp add: mc' weight_def pm_weight_def share_defs inv_disconnected_def)
  ultimately show ?thesis using pm_disconnected_weight [OF ok p] by (simp add: weight_def)
qed

abbreviation machine_of :: "'src runtime \<Rightarrow> machine" where
  "machine_of rt \<equiv> sv_machine (rt_service rt)"

lemma attempted_weight: "weight (attempted a mc) = weight mc"
proof -
  have "fresh_addrs (modify_known a (\<lambda>ka. ka\<lparr>last_attempt := t\<rparr>) am) = fresh_addrs am" for t am
    by (auto simp: fresh_addrs_def map_of_modify_known recently_sampled_def split: if_splits)
  moreover have "fresh_addrs (am\<lparr>am_upstream := q\<rparr>) = fresh_addrs am" for am q by (simp add: fresh_addrs_def)
  ultimately show ?thesis by (simp add: weight_def attempted_def am_peer_attempted_def share_defs)
qed

lemma disconnect_step:
  assumes "env_ok E" and "machine_ok (sv_machine sv)"
  shows "\<exists>sv'. service_disconnected E A a r sv = Some (Inr sv') \<and> machine_ok (sv_machine sv') \<and>
    weight (sv_machine sv') \<le> weight (sv_machine sv) + 2"
proof -
  obtain mc' where "machine_disconnected E A a r (sv_machine sv) = Some (Inr mc')" "machine_ok mc'"
    using machine_disconnected_ok [OF assms] by blast
  with machine_disconnected_weight [OF assms] show ?thesis by (auto simp: service_disconnected_def)
qed

lemma call_disconnected:
  assumes "\<forall>n. env_ok (Es n)" and "machine_ok (machine_of rt)"
  shows "\<exists>rt'. call_service Es (\<lambda>E. service_disconnected E A a r) rt = Some (Inr rt') \<and> machine_ok (machine_of rt') \<and>
    weight (machine_of rt') \<le> weight (machine_of rt) + 2"
  using disconnect_step [OF assms(1) [rule_format] assms(2), of "rt_calls rt" A a r] by (auto simp: call_service_def)

lemma output_step:
  assumes "\<forall>n. env_ok (Es n)" and "machine_ok (machine_of rt)"
  shows "\<exists>rt'. process_output P Os Es A now (encode_io enc out) rt = Some (Inr rt') \<and> machine_ok (machine_of rt') \<and>
    weight (machine_of rt') < weight (machine_of rt) + io_weight out"
proof (cases out)
  case (Connect a)
  have err: "\<exists>rt'. call_service Es (\<lambda>E. service_disconnected E A a r) rt = Some (Inr rt') \<and> machine_ok (machine_of rt') \<and>
      weight (machine_of rt') < weight (machine_of rt) + 3" for r
    using call_disconnected [OF assms, of A a r] by fastforce
  have ok: "machine_ok (attempted a (machine_of rt))"
    using assms(2) by (simp add: machine_ok_def attempted_def am_peer_attempted_def)
  show ?thesis
  proof (cases "dial (Os (rt_calls rt)) a")
    case (Inr u)
    with ok show ?thesis
      by (simp add: Connect handle_connect_process_def call_service_def service_attempted_def on_reactor_def attempted_weight)
  next
    case (Inl e)
    with err assms(2) show ?thesis by (cases e) (simp_all add: Connect handle_connect_process_def)
  qed
next
  case (Disconnect a r)
  let ?rt = "on_reactor (\<lambda>rx. rx\<lparr>rx_connecting := hs_remove a (rx_connecting rx), rx_peers := AList.delete a (rx_peers rx),
    rx_sources := po_unregister P (PollPeer a) (rx_sources rx)\<rparr>) rt"
  have rt: "machine_of ?rt = machine_of rt" by (simp add: on_reactor_def)
  from call_disconnected [OF assms(1), of ?rt A a "StateMachineReason r"] assms(2) show ?thesis
    unfolding rt by (fastforce simp: Disconnect unregister_peer_def)
qed (use assms(2) in \<open>simp_all add: on_reactor_def\<close>)

lemma process_returns:
  assumes "\<forall>n. env_ok (Es n)" and "machine_ok (machine_of rt)"
  shows "\<exists>rt'. process P Os Es A enc now rt = Some (Inr rt') \<and> machine_ok (machine_of rt') \<and> outbox (machine_of rt') = []"
  using assms(2)
proof (induction "weight (machine_of rt)" arbitrary: rt rule: less_induct)
  case less
  show ?case
  proof (cases "outbox (machine_of rt)")
    case Nil
    with less.prems show ?thesis by (subst process.simps) (simp add: service_next_def)
  next
    case (Cons out outs)
    let ?rt = "rt\<lparr>rt_service := (rt_service rt)\<lparr>sv_machine := (machine_of rt)\<lparr>outbox := outs\<rparr>\<rparr>\<rparr>"
    have "machine_ok (machine_of ?rt)" using less.prems by (simp add: machine_ok_def)
    moreover have "weight (machine_of rt) = weight (machine_of ?rt) + io_weight out" by (simp add: weight_def Cons)
    ultimately obtain rt' where rt': "process_output P Os Es A now (encode_io enc out) ?rt = Some (Inr rt')"
        "machine_ok (machine_of rt')" "weight (machine_of rt') < weight (machine_of rt)"
      using output_step [OF assms(1), of ?rt P Os A now enc out] by auto
    have "process P Os Es A enc now rt = process P Os Es A enc now rt'"
      using rt'(1) by (subst process.simps) (simp add: service_next_def Cons)
    with less.hyps [OF rt'(3,2)] show ?thesis by simp
  qed
qed

lemma client_peers_distinct: "distinct (map fst (client_peers A cfg))"
proof -
  have "distinct (map fst (foldl (\<lambda>ps a. store_insert a (f a) ps) ps as))" if "distinct (map fst ps)" for f ps as
    using that by (induction as arbitrary: ps) (auto simp: store_insert_def distinct_update split: option.splits)
  then show ?thesis by (simp add: client_peers_def)
qed

lemma start_returns:
  assumes "env_ok E" and "\<forall>n. env_ok (Es n)"
  shows "\<exists>rt'. start_reactor P Os Es A enc now (new_client E A agent cfg srcs t) = Some (Inr rt') \<and>
    machine_ok (machine_of rt') \<and> outbox (machine_of rt') = []"
proof -
  let ?rt = "on_reactor (\<lambda>rx. rx\<lparr>rx_sources := po_register P PollListener (rx_sources rx)\<rparr>) (new_client E A agent cfg srcs t)"
  obtain mc where "initialize (Es 0) A now (machine_of ?rt) = Some (Inr mc)" "machine_ok mc"
    using initialize_ok [where E = "Es 0" and A = A and time = now, OF assms(2) [rule_format] assms(1) client_peers_distinct]
    unfolding on_reactor_def new_client_def new_service_def by (simp only: runtime.simps p2p_service.simps) blast
  then obtain rt1 where "call_service Es (\<lambda>E. service_initialize E A now) ?rt = Some (Inr rt1)" "machine_ok (machine_of rt1)"
    by (auto simp: call_service_def service_initialize_def on_reactor_def new_client_def)
  with process_returns [OF assms(2), of rt1 P Os A enc now] show ?thesis by (simp add: start_reactor_def bindP_def)
qed

text \<open>C12. Carrying out the outputs ends. Disconnecting a peer makes the peer manager dial others, whose
  failures are reported as disconnections in turn; still the loop over the outputs empties the
  outbox, whatever the operating system answers, and leaves the machine well formed.
\<close>

theorem process_terminates:
  assumes "\<forall>n. env_ok (Es n)" and "machine_ok (sv_machine (rt_service rt))"
  shows "\<exists>rt'. process P Os Es A enc now rt = Some (Inr rt') \<and> machine_ok (sv_machine (rt_service rt')) \<and>
    outbox (sv_machine (rt_service rt')) = []"
  by (rule process_returns [OF assms])

definition sample_poll :: "(poll_source \<times> bool) list poll_ext" where
  "sample_poll = \<lparr>po_register = (\<lambda>k. AList.update k True), po_unregister = AList.delete,
     po_registered = (\<lambda>s k. map_of s k \<noteq> None), po_set_write = (\<lambda>k. AList.update k)\<rparr>"

text \<open>A network that is down: every dial fails.\<close>

definition sample_os :: os_env where
  "sample_os = \<lparr>os_socket = (\<lambda>_. None), os_connect = (\<lambda>_. ConnectFailed ''unreachable''), os_local = (\<lambda>_. Inl ''closed''),
     os_read = (\<lambda>_. ReadWouldBlock), os_write = (\<lambda>_ _ _. Inl WouldBlock), os_flush = (\<lambda>_. None), os_accept = [],
     os_command = None, os_sort = (\<lambda>ts. rev (sort_key snd ts))\<rparr>"

definition sample_runtime :: "(poll_source \<times> bool) list runtime" where
  "sample_runtime = \<lparr>rt_calls = 0, rt_reactor = new_reactor [], rt_service = \<lparr>inboxes = [], sv_machine = sample_machine\<rparr>\<rparr>"

theorem process_terminates_witness:
  "\<exists>rt'. process sample_poll (\<lambda>_. sample_os) (\<lambda>_. sample_env) sample_p2p_ext (enc_raw_message sample_ext sample_wire) 1700000000000
     sample_runtime = Some (Inr rt') \<and> outbox (sv_machine (rt_service rt')) = []"
  using process_terminates [of "\<lambda>_. sample_env" sample_runtime] sample_env_ok sample_machine_ok(1)
  by (fastforce simp: sample_runtime_def)

text \<open>
  The client starts. Whatever addresses it is configured to connect to, whatever the random
  choices and whatever the operating system answers, the start neither panics nor runs forever:
  the outputs of the initialisation are all carried out and the machine is well formed.
\<close>

lemma client_starts:
  assumes "env_ok E" and "\<forall>n. env_ok (Es n)"
  shows "\<exists>rt'. start_reactor P Os Es A enc now (new_client E A agent cfg srcs t) = Some (Inr rt') \<and>
    machine_ok (sv_machine (rt_service rt')) \<and> outbox (sv_machine (rt_service rt')) = []"
  by (rule start_returns [OF assms])

lemma client_starts_witness:
  "\<exists>rt'. start_reactor sample_poll (\<lambda>_. sample_os) (\<lambda>_. sample_env) sample_p2p_ext (enc_raw_message sample_ext sample_wire) 1700000000000
     (new_client sample_env sample_p2p_ext ''yuv'' (new_p2p_config ''yuv'' Mutiny sample_local [sample_peer_addr, book_addr 2] 16 8) [] 0) =
     Some (Inr rt') \<and> machine_ok (sv_machine (rt_service rt')) \<and> outbox (sv_machine (rt_service rt')) = []"
  by (rule client_starts) (simp_all add: sample_env_ok)

end
