(* ===== verification/Spec2Isabelle.thy ===== *)
theory Spec2Isabelle
  imports Node Transfers P2p_Reactor
begin

text \<open>
  A verification library for the YUV node, a node that keeps track of tokens (pixels) attached to
  Bitcoin transactions.

  \<^bold>\<open>The program.\<close> A pixel is an amount (luma) of a token type (chroma). It sits on a Bitcoin
  output whose key is tweaked with the hash of the pixel, and a proof of ownership shows that. A YUV
  transaction is a Bitcoin transaction with the proofs of its inputs and outputs; an announcement is
  an \<open>OP_RETURN\<close> output by which an issuer describes a chroma, issues, freezes or hands over. The node
  is a set of services on an event bus. The controller takes transactions from peers and from RPC, and
  moves them through the mempool: the checker checks them in isolation, the confirmator waits until
  they are deep enough in the chain that the indexer reads, the checker checks them against the state,
  and the graph builder attaches them once their parents are attached. The storage holds the attached
  transactions, the freezes and the supplies. The peer-to-peer client talks to the other nodes.

  \<^bold>\<open>Theories.\<close> Paths are under \<open>src/crates\<close> unless they start with \<open>apps\<close>.

  \<^item> \<open>Yuv_Prelude\<close>: words and byte strings, \<open>Result\<close> as a sum, computations that change a state and
    may fail half way, hash sets and hash maps as lists, the collections of simplification rules.
  \<^item> \<open>Bitcoin\<close>, \<open>Sample_Ext\<close>: the interface of the third-party crates as a record of functions, an
    argument of every definition that uses them, with the laws that are relied on; and an instance
    that is small enough to be evaluated, on which the witnesses run.
  \<^item> \<open>Pixels\<close> (\<open>pixels/src/pixel.rs\<close>, \<open>hash.rs\<close>, \<open>keys.rs\<close>, \<open>tweakable.rs\<close>), \<open>Pixel_Proofs\<close>
    (\<open>pixels/src/proof.rs\<close> and \<open>proof/\<close>): pixels, tweaked keys and the six kinds of proofs with
    their checks by output and by input.
  \<^item> \<open>Announcements\<close> (\<open>types/src/announcements\<close>), \<open>Transactions\<close> (\<open>types/src/transactions\<close>, \<open>messages\<close>,
    \<open>network.rs\<close>), \<open>Consensus\<close> (the \<open>consensus.rs\<close> of \<open>pixels\<close> and \<open>types\<close>), \<open>Network_Messages\<close>
    (\<open>types/src/messages/p2p.rs\<close>): the data of the protocol and its two encodings.
  \<^item> \<open>Storage\<close> (\<open>storage/src/traits\<close>): the typed stores and the byte-keyed database behind them.
  \<^item> \<open>Event_Bus\<close> (\<open>event-bus/src\<close>), \<open>Services\<close>: the bus, and what the services share.
  \<^item> \<open>Isolated_Checks\<close>, \<open>Tx_Checker\<close> (\<open>tx-check/src\<close>), \<open>Tx_Attach\<close> (\<open>tx-attach/src/lib.rs\<close>),
    \<open>Tx_Confirm\<close> (\<open>tx-confirm/src/lib.rs\<close>), \<open>Controller\<close> (\<open>controller/src/handler.rs\<close>), \<open>Indexer\<close>
    (\<open>indexers/src\<close>), \<open>Bitcoin_Rpc\<close> (the calls of \<open>bitcoin-client\<close> they make): one service each, its
    state a record, its event handler a function that returns the new state, the events sent and the
    error, if any.
  \<^item> \<open>Rpc_Server\<close> (\<open>rpc-server/src/transactions.rs\<close>), \<open>Transfers\<close>, \<open>Node\<close> (\<open>apps/node/src/cli/node.rs\<close>):
    the RPC methods and the emulator, one transfer on its way through the services, and the services
    put together.
  \<^item> \<open>P2p_Base\<close> (\<open>p2p/src/net/time.rs\<close>, \<open>common/\<close>, \<open>net/mod.rs\<close>), \<open>Ping_Manager\<close> (\<open>fsm/pingmgr.rs\<close>,
    \<open>fsm/invmgr.rs\<close>), \<open>Address_Manager\<close> (\<open>fsm/addrmgr.rs\<close>), \<open>Peer_Manager\<close> (\<open>fsm/peermgr.rs\<close>),
    \<open>P2p_Machine\<close> (\<open>fsm/handler.rs\<close>): timers, clock, the managers and the state machine that calls
    them. \<open>P2p_Safety\<close> and \<open>P2p_Runs\<close> hold the proofs about all sequences of its calls.
    \<open>P2p_Service\<close> (\<open>client/service.rs\<close>, \<open>client/stream.rs\<close>) and \<open>P2p_Reactor\<close> (\<open>net/reactor.rs\<close>,
    \<open>net/socket.rs\<close>, \<open>client/controller.rs\<close>): the byte streams, the sockets and the client.

  \<^bold>\<open>Conventions.\<close> A panic, an error and an early return are values. What the code draws at random, the
  order in which it walks a hash table, the clock and the answers of the operating system and of other
  servers are arguments; the theorems hold for all of them, or for all that satisfy a named law such as
  \<open>env_ok\<close>. Integers have the width of the source wherever a claim depends on it: amounts are 128-bit
  words whose sums wrap as in a release build. Times are natural numbers. Interfaces are locales:
  \<open>codec\<close> and \<open>stream_codec\<close> for formats, \<open>any_announcement\<close> for the kinds of announcements,
  \<open>keyed_store\<close> for the stores of the storage, \<open>checker_frame\<close> for what the checks leave alone,
  \<open>address_source\<close> for what the peer manager draws its addresses from; they are interpreted on the
  definitions of the model. Locales are never used for the model itself.

  \<^bold>\<open>What is shown.\<close>
  \<^item> Tokens: the isolated check decides exactly what it should and conserves amounts as long as the
    sums fit 128 bits; the supply of a chroma stays below its maximum; a freeze stops an output from
    being spent; a proof ties an input to the output it spends. Where the code falls short, the
    failure is a theorem: totals that wrap, a foreign freeze that shields an output, transfers that spend
    outputs of announcements.
  \<^item> Encodings: announcements, batches of transactions and network messages survive their formats, the
    storage implements the typed stores. What the \<open>bitcoin\<close> crate promises of its formats is assumed
    within its limits only: commands of at most twelve ASCII characters, payloads of at most 4000000
    bytes. A model of the documented frame satisfies the laws.
  \<^item> Services: transactions are attached after their parents and none is forgotten, confirmed exactly
    at the configured depth and given back after a reorganisation, stored and listed in order; a restart
    repeats the requests that were under way; the bus never hands an event to a receiver of another
    type, and every service, the state machine of the peer-to-peer client included, has the channels
    it sends on (the property at the end of this theory); initial indexing is complete and in order,
    whatever the schedule of the workers and whatever failed before; with a long chain of
    announcements the start of the node blocks.
  \<^item> Peer-to-peer client: no call panics or runs forever while the address book is well formed, and
    the exception is exhibited; in all runs of calls that do not panic, the handshake is followed and
    bans last; the searches for peers and the
    loop over the outputs end; dead peers are found; streams may be cut anywhere; and a frame with a
    short payload blocks its stream.

  \<^bold>\<open>Loops.\<close> Loops whose end is not evident are partial functions into an option, where \<open>None\<close> is a loop
  that does not end: \<open>drain\<close>, \<open>receive_loop\<close> and \<open>process\<close>. That they end is proved with the number of
  addresses that were not drawn yet, with the length of the stream, and with a weight of the outputs
  that are still to be carried out. The other loops are structurally recursive or have a termination
  proof, so no bound and no fuel is chosen for them. Where a service waits for other tasks, the
  schedule is an argument: the block loader and its workers take turns along a list, and \<open>None\<close> says
  that the loader still waits at its end. With \<open>w\<close> workers and chunks of \<open>k\<close> blocks, \<open>4 * k + w + 1\<close>
  rounds for each block are enough after any other schedule: as long as a block is missing, every
  round takes, answers or receives a request or ends a sleep.

  \<^bold>\<open>Not modelled.\<close>
  \<^item> The cryptography and the formats of third-party crates (\<open>bitcoin\<close>, \<open>secp256k1\<close>, \<open>popol\<close>, LevelDB,
    CBOR): they are arguments, with the laws that are used.
  \<^item> \<open>bulletproof\<close> and the bulletproof kind of proof, which are behind a feature that is off by default.
  \<^item> \<open>bitcoin-client\<close> and \<open>jsonrpc\<close>: HTTP requests to a Bitcoin node; what the services ask for is an
    argument.
  \<^item> \<open>bdk\<close>, \<open>dev-kit\<close> and \<open>apps/cli\<close>: a wallet and its front end. The node accepts what its checks accept,
    whoever built it.
  \<^item> \<open>apps/ogaki\<close>, which updates and restarts the node, the readers of configuration files, logging, the
    macros, and the tests and benchmarks.
  \<^item> Cancellation of tasks and the endless loops around the event handlers: the handlers are the steps of
    the runs, and \<open>confirmator_run\<close> and the schedules of the loader are sequences of turns. Memory is
    unbounded, except for the capacity of the channels in \<open>Node\<close>.
  \<^item> The messages of errors where nothing depends on them.
\<close>

section \<open>Events of the state machine\<close>

lemma bus_frames [simp]:
  "bus_sent (store_am mc am) = bus_sent mc" "bus_sent (store_pm mc pm) = bus_sent mc" "bus_sent (store_ping mc pg) = bus_sent mc"
  "bus_sent (store_inv mc iv) = bus_sent mc" "bus_sent (store_both mc r) = bus_sent mc" "bus_sent (push outs mc) = bus_sent mc"
  "bus_sent (machine_disconnect a d mc) = bus_sent mc" "bus_sent (send_to A msg a mc) = bus_sent mc"
  "bus_sent (attempted a mc) = bus_sent mc" "bus_sent (tick t mc) = bus_sent mc"
  by (simp_all add: store_am_def store_pm_def store_ping_def store_inv_def store_both_def push_def machine_disconnect_def
      send_to_def attempted_def tick_def split: prod.splits)

lemma broadcast_sends:
  "broadcast E A msg P mc = (rs, mc') \<Longrightarrow> bus_sent mc' = bus_sent mc" "query E A msg P mc = (ro, mc') \<Longrightarrow> bus_sent mc' = bus_sent mc"
  "bus_sent (snd (broadcast E A msg P mc)) = bus_sent mc"
  by (auto simp: broadcast_def query_def Let_def split: if_splits)

lemma initialize_sends: "initialize E A now mc = Some (Inr mc') \<Longrightarrow> bus_sent mc' = bus_sent mc"
  by (auto simp: initialize_def Let_def map_sum_eq_Inr)

lemma payload_sends:
  "handle_payload E A now a msg mc = Inr mc' \<Longrightarrow> \<exists>ms. bus_sent mc' = bus_sent mc @ ms"
  by (cases msg) (auto simp: result_simps Let_def split: prod.splits option.splits if_splits)

lemma command_sends: "command E A c mc = Inr (r, mc') \<Longrightarrow> bus_sent mc' = bus_sent mc"
  by (cases c) (auto simp: result_simps Let_def broadcast_sends(3) split: prod.splits dest: broadcast_sends(1,2))

lemma connected_sends: "machine_connected E A a local l mc = Inr (ok, mc') \<Longrightarrow> bus_sent mc' = bus_sent mc"
  by (auto simp: machine_connected_def result_simps Let_def split: if_splits prod.splits bool.splits)

lemma disconnected_sends: "machine_disconnected E A a d mc = Some (Inr mc') \<Longrightarrow> bus_sent mc' = bus_sent mc"
  by (auto simp: machine_disconnected_def Let_def map_sum_eq_Inr)

lemma timer_sends: "timer_expired E A mc = Some (Inr mc') \<Longrightarrow> bus_sent mc' = bus_sent mc"
  by (auto simp: timer_expired_def Let_def map_sum_eq_Inr split: sum.splits if_splits)

lemma machine_sends:
  assumes "machine_step E A ev mc = Some (Inr mc')"
  shows "\<exists>ms. bus_sent mc' = bus_sent mc @ ms"
proof (cases ev)
  case (EvMessage a msg)
  with assms show ?thesis
    by (auto simp: message_received_def Let_def split: if_splits dest!: payload_sends)
next
  case (EvConnected a local l)
  with assms show ?thesis by (auto simp: map_sum_eq_Inr dest: connected_sends)
next
  case (EvDisconnected a d)
  with assms show ?thesis by (auto dest: disconnected_sends)
next
  case EvTimer
  with assms show ?thesis by (auto dest: timer_sends)
next
  case (EvCommand c)
  with assms show ?thesis by (auto simp: map_sum_eq_Inr dest: command_sends)
qed (use assms in auto)

lemma machine_adds:
  "machine_step E A ev mc = Some (Inr mc') \<Longrightarrow>
   adds_types {TidController} (map ToController (bus_sent mc)) (map ToController (bus_sent mc'))"
  by (auto simp: adds_types_def dest!: machine_sends)

section \<open>Properties\<close>

text \<open>C40. Every bus a service takes from the bus of the node exists, and whatever event a service
  handles, whatever call its state machine receives and whatever method its RPC server runs, it only
  sends events its bus has a channel for: neither the \<open>expect\<close> of an extraction nor a send panics for
  want of a channel. The methods of the RPC server that are not listed only read the storage.\<close>

theorem services_have_their_channels:
  "let full = fst init_event_bus in
    sends_on (tx_checker_bus full) (svc_sent s) (svc_sent (snd (handle_checker_event X it m1 s))) \<and>
    sends_on (graph_builder_bus full) (svc_sent g) (svc_sent (handle_graph_event X it2 now m2 g)) \<and>
    sends_on (tx_confirmator_bus full) (tc_sent c) (tc_sent (snd (handle_confirm_event X rpc now m3 c))) \<and>
    sends_on (tx_confirmator_bus full) (tc_sent c) (tc_sent (snd (clean_up_waiting_txs now c))) \<and>
    sends_on (controller_bus full) (svc_sent k) (svc_sent (snd (handle_controller_event X net m4 k))) \<and>
    sends_on (controller_bus full) (svc_sent k) (svc_sent (snd (handle_mempool_txs k))) \<and>
    sends_on (announcements_indexer_bus full) (svc_sent i) (svc_sent (snd (subindex X (AnnouncementsIndexer nw) b i))) \<and>
    sends_on (confirmation_indexer_bus full) (svc_sent i) (svc_sent (snd (subindex X ConfirmationIndexer b i))) \<and>
    is_ok (indexer_bus full) \<and>
    sends_on (rpc_bus full) (svc_sent r) (svc_sent (snd (provide_yuv_proof tx r))) \<and>
    sends_on (rpc_bus full) (svc_sent r) (svc_sent (snd (provide_list_yuv_proofs rpc proofs r))) \<and>
    sends_on (rpc_bus full) (svc_sent r) (svc_sent (snd (provide_yuv_proof_short X unhex rpc t hex h r))) \<and>
    sends_on (rpc_bus full) (svc_sent r) (svc_sent (snd (send_raw_yuv_tx rpc tx burn r))) \<and>
    sends_on (rpc_bus full) (svc_sent r) (svc_sent (snd (send_yuv_tx X unhex rpc hex burn r))) \<and>
    is_ok (p2p_client_bus full) \<and> is_ok (state_machine_bus full) \<and>
    (case initialize E A now mc of
       Some (Inr mc') \<Rightarrow> sends_on (state_machine_bus full) (map ToController (bus_sent mc)) (map ToController (bus_sent mc'))
     | _ \<Rightarrow> True) \<and>
    (case machine_step E A ev mc of
       Some (Inr mc') \<Rightarrow> sends_on (state_machine_bus full) (map ToController (bus_sent mc)) (map ToController (bus_sent mc'))
     | _ \<Rightarrow> True)"
proof -
  have "is_ok (p2p_client_bus (fst init_event_bus))"
    using extract_ok_init(9) by (auto simp: is_ok_def state_machine_bus_def result_simps)
  moreover have "case initialize E A now mc of
      Some (Inr mc') \<Rightarrow> sends_on (state_machine_bus (fst init_event_bus)) (map ToController (bus_sent mc)) (map ToController (bus_sent mc'))
    | _ \<Rightarrow> True"
    by (auto split: option.splits sum.splits dest!: initialize_sends intro!: sends_on_added [OF extract_ok_init(9)])
  moreover have "case machine_step E A ev mc of
      Some (Inr mc') \<Rightarrow> sends_on (state_machine_bus (fst init_event_bus)) (map ToController (bus_sent mc)) (map ToController (bus_sent mc'))
    | _ \<Rightarrow> True"
    by (auto split: option.splits sum.splits intro: sends_on_added [OF extract_ok_init(9)] machine_adds)
  ultimately show ?thesis
    using extract_ok_init(4,9)
    unfolding Let_def
    by (intro conjI sends_on_run [OF extract_ok_init(1) added_checker] sends_on_added [OF extract_ok_init(2) added_graph]
        sends_on_added [OF extract_ok_init(3) keepsR_D [OF added_confirm adds_types_refl]]
        sends_on_added [OF extract_ok_init(3) keepsR_D [OF added_clean_up adds_types_refl]]
        sends_on_run [OF extract_ok_init(7) added_controller] sends_on_run [OF extract_ok_init(7) added_recover]
        sends_on_added [OF extract_ok_init(5) added_subindex(1)] sends_on_added [OF extract_ok_init(6) added_subindex(2)]
        sends_on_run [OF extract_ok_init(8) added_rpc(1)] sends_on_run [OF extract_ok_init(8) added_rpc(2)]
        sends_on_run [OF extract_ok_init(8) added_rpc(3)] sends_on_run [OF extract_ok_init(8) added_rpc(4)]
        sends_on_run [OF extract_ok_init(8) added_rpc(5)])
       (auto simp: is_ok_def)
qed

end
